(* ===== verification/Prelude.thy ===== *)
theory Prelude
  imports Main "HOL-Library.Word"
begin

text \<open>
  Shared vocabulary of the development: the machine integers of the program at their Rust
  widths (a 64-bit target, so \<open>usize\<close> is 64 bits wide; \<open>+\<close> and \<open>-\<close> wrap, which is
  what the release profile of the workspace does), the poll results of the asynchronous
  code, and the facts on words and lists that several components use.
\<close>

unbundle bit_operations_syntax

section \<open>Types\<close>

type_synonym u8 = "8 word"
type_synonym u32 = "32 word"
type_synonym u64 = "64 word"
type_synonym usize = "64 word"
type_synonym bytes = "u8 list"

text \<open>
  A 32-byte digest. \<open>ContentId<T>\<close> wraps \<open>[u8; 32]\<close>; its phantom type parameter has no
  run-time content, so chunk, blob, commit and revision ids share this representation.
\<close>

type_synonym content_id = bytes

datatype 'a poll = Pending | Ready 'a

text \<open>A call returns or panics.\<close>

datatype 'a outcome = Panics | Returns 'a

text \<open>\<open>std::io::Error\<close>: a kind and a message.\<close>

datatype error_kind = KOther | KNotFound | KInvalidInput | KReadOnlyFilesystem | KWriteZero

datatype io_error = IoError error_kind string

section \<open>Collections of facts\<close>

named_theorems view_simps "equations that read an abstract view after an operation"
named_theorems wf_intros "operations keep the well-formedness invariant"

section \<open>Unsigned 64-bit arithmetic\<close>

definition saturating_add :: "u64 \<Rightarrow> u64 \<Rightarrow> u64" where
  "saturating_add a b = (if a + b < a then - 1 else a + b)"

text \<open>\<open>u64::checked_add_signed\<close>: \<open>None\<close> when the sum leaves the unsigned range.\<close>

definition checked_add_signed :: "u64 \<Rightarrow> int \<Rightarrow> u64 option" where
  "checked_add_signed a n =
     (let s = uint a + n in if 0 \<le> s \<and> s < 2 ^ 64 then Some (word_of_int s) else None)"

lemma u64_bound: "unat (a :: u64) < 18446744073709551616"
  using unsigned_less [of a, where ?'a = nat] by simp

lemma unat_saturating_add: "unat (saturating_add a b) = min (unat a + unat b) (2 ^ 64 - 1)"
proof (cases "unat a + unat b < 2 ^ 64")
  case True
  then have "unat (a + b) = unat a + unat b"
    by (simp add: unat_word_ariths)
  moreover from this have "\<not> a + b < a"
    by (simp add: word_less_nat_alt)
  ultimately show ?thesis using True by (simp add: saturating_add_def)
next
  case False
  have lt: "unat a < 2 ^ 64" "unat b < 2 ^ 64"
    using u64_bound [of a] u64_bound [of b] by simp_all
  from False lt have "unat (a + b) = unat a + unat b - 2 ^ 64"
    by (simp add: unat_word_ariths mod_if)
  with lt False have "a + b < a" by (simp add: word_less_nat_alt)
  with False show ?thesis
    by (simp add: saturating_add_def unsigned_minus_1_eq_mask mask_eq_exp_minus_1)
qed

lemma saturating_add_ge: "a \<le> saturating_add a b"
  using u64_bound [of a] by (simp add: word_le_nat_alt unat_saturating_add)

lemma saturating_add_exact:
  assumes "unat a + unat b < 2 ^ 64"
  shows "saturating_add a b = a + b"
proof -
  have "unat (saturating_add a b) = unat (a + b)"
    using assms by (simp add: unat_saturating_add unat_word_ariths)
  then show ?thesis by (simp only: word_unat_eq_iff)
qed

lemma checked_add_signed_Some:
  assumes "checked_add_signed a n = Some t"
  shows "uint t = uint a + n"
proof -
  from assms have t: "t = word_of_int (uint a + n)" and b: "0 \<le> uint a + n" "uint a + n < 2 ^ 64"
    by (auto simp: checked_add_signed_def Let_def simp del: of_int_add split: if_splits)
  have "uint t = take_bit 64 (uint a + n)" unfolding t by (simp only: uint_word_of_int_eq) simp
  with b show ?thesis by (simp add: take_bit_int_eq_self)
qed

lemma checked_add_signed_None:
  "checked_add_signed a n = None \<longleftrightarrow> uint a + n < 0 \<or> 2 ^ 64 \<le> uint a + n"
  by (auto simp: checked_add_signed_def Let_def)

lemma unat_diff_le: "s \<le> e \<Longrightarrow> unat (e - s) = unat e - unat (s :: u64)"
  by (simp add: unat_sub)

lemma unat_add_diff:
  assumes "s \<le> e" and "i < e - (s :: u64)"
  shows "unat (s + i) = unat s + unat i"
proof -
  have "unat i < unat e - unat s"
    using assms by (simp add: word_less_nat_alt unat_diff_le)
  then have "unat s + unat i < 2 ^ 64"
    using u64_bound [of e] by simp
  then show ?thesis by (simp add: unat_word_ariths)
qed

lemma add_less_end: "s \<le> e \<Longrightarrow> i < e - s \<Longrightarrow> s + i < (e :: u64)"
  using unat_add_diff [of s e i] by (simp add: word_less_nat_alt unat_diff_le)

lemma add_ge_start: "s \<le> e \<Longrightarrow> i < e - s \<Longrightarrow> s \<le> s + (i :: u64)"
  using unat_add_diff [of s e i] by (simp add: word_le_nat_alt)

section \<open>Lists\<close>

definition last_opt :: "'a list \<Rightarrow> 'a option" where
  "last_opt xs = (if xs = [] then None else Some (last xs))"

definition first_opt :: "'a list \<Rightarrow> 'a option" where
  "first_opt xs = (case xs of [] \<Rightarrow> None | x # _ \<Rightarrow> Some x)"

lemma last_opt_simps [simp]:
  "last_opt [] = None" "last_opt (xs @ [x]) = Some x" "xs \<noteq> [] \<Longrightarrow> last_opt xs = Some (last xs)"
  by (simp_all add: last_opt_def)

lemma first_opt_simps [simp]:
  "first_opt [] = None" "first_opt (x # xs) = Some x"
  by (simp_all add: first_opt_def)

lemma last_opt_None [simp]: "last_opt xs = None \<longleftrightarrow> xs = []"
  by (simp add: last_opt_def)

end
