(* ===== verification/BTree.thy ===== *)
theory BTree
  imports Prelude
begin

text \<open>
  \<open>std::collections::BTreeMap\<close> as the chunk map uses it: a list of key/value pairs in
  ascending key order, with insertion, removal, lookup and the three range queries of the
  source (\<open>range(..=k).next_back()\<close>, \<open>range(..k).next_back()\<close>,
  \<open>range((Excluded(k), Unbounded)).next()\<close>). The locale states the laws a client of the
  ordered map relies on; the list operations are interpreted in it below.
\<close>

section \<open>Operations\<close>

fun bt_insert :: "'k::linorder \<Rightarrow> 'v \<Rightarrow> ('k \<times> 'v) list \<Rightarrow> ('k \<times> 'v) list" where
  "bt_insert k v [] = [(k, v)]"
| "bt_insert k v ((a, b) # ps) =
     (if k < a then (k, v) # (a, b) # ps
      else if k = a then (k, v) # ps
      else (a, b) # bt_insert k v ps)"

definition bt_remove :: "'k \<Rightarrow> ('k \<times> 'v) list \<Rightarrow> ('k \<times> 'v) list" where
  "bt_remove k ps = filter (\<lambda>p. fst p \<noteq> k) ps"

definition bt_floor :: "'k::linorder \<Rightarrow> ('k \<times> 'v) list \<Rightarrow> ('k \<times> 'v) option" where
  "bt_floor k ps = last_opt (filter (\<lambda>p. fst p \<le> k) ps)"

definition bt_below :: "'k::linorder \<Rightarrow> ('k \<times> 'v) list \<Rightarrow> ('k \<times> 'v) option" where
  "bt_below k ps = last_opt (filter (\<lambda>p. fst p < k) ps)"

definition bt_above :: "'k::linorder \<Rightarrow> ('k \<times> 'v) list \<Rightarrow> ('k \<times> 'v) option" where
  "bt_above k ps = first_opt (filter (\<lambda>p. k < fst p) ps)"

definition bt_from :: "'k::linorder \<Rightarrow> ('k \<times> 'v) list \<Rightarrow> ('k \<times> 'v) list" where
  "bt_from k ps = filter (\<lambda>p. k \<le> fst p) ps"

abbreviation bt_ok :: "('k::linorder \<times> 'v) list \<Rightarrow> bool" where
  "bt_ok ps \<equiv> sorted_wrt (<) (map fst ps)"

section \<open>The ordered map interface\<close>

locale ordered_map =
  fixes ins :: "'k::linorder \<Rightarrow> 'v \<Rightarrow> 'm \<Rightarrow> 'm"
    and rem :: "'k \<Rightarrow> 'm \<Rightarrow> 'm"
    and look :: "'m \<Rightarrow> 'k \<Rightarrow> 'v option"
    and floor_of :: "'k \<Rightarrow> 'm \<Rightarrow> ('k \<times> 'v) option"
    and above_of :: "'k \<Rightarrow> 'm \<Rightarrow> ('k \<times> 'v) option"
    and ok :: "'m \<Rightarrow> bool"
  assumes ok_ins: "ok m \<Longrightarrow> ok (ins k v m)"
    and ok_rem: "ok m \<Longrightarrow> ok (rem k m)"
    and look_ins: "ok m \<Longrightarrow> look (ins k v m) = (look m)(k \<mapsto> v)"
    and look_rem: "ok m \<Longrightarrow> look (rem k m) = (look m)(k := None)"
    and floor_Some: "ok m \<Longrightarrow> floor_of k m = Some (a, v) \<longleftrightarrow>
          look m a = Some v \<and> a \<le> k \<and> (\<forall>c. c \<in> dom (look m) \<longrightarrow> c \<le> k \<longrightarrow> c \<le> a)"
    and above_Some: "ok m \<Longrightarrow> above_of k m = Some (a, v) \<longleftrightarrow>
          look m a = Some v \<and> k < a \<and> (\<forall>c. c \<in> dom (look m) \<longrightarrow> k < c \<longrightarrow> a \<le> c)"
begin

text \<open>A key just inserted is its own floor, and reading it back gives the value.\<close>

lemma floor_ins_same: "ok m \<Longrightarrow> floor_of k (ins k v m) = Some (k, v)"
  using ok_ins [of m k v] by (auto simp: floor_Some look_ins)

lemma look_ins_same: "ok m \<Longrightarrow> look (ins k v m) k = Some v"
  by (simp add: look_ins)

lemma look_rem_same: "ok m \<Longrightarrow> look (rem k m) k = None"
  by (simp add: look_rem)

lemma rem_ins_cancel: "ok m \<Longrightarrow> look m k = None \<Longrightarrow> look (rem k (ins k v m)) = look m"
  by (auto simp: look_rem ok_ins look_ins)

text \<open>Inserting over a removed key is inserting.\<close>

lemma ins_rem_same: "ok m \<Longrightarrow> look (ins k v (rem k m)) = look (ins k v m)"
  by (auto simp: look_ins ok_rem look_rem)

end

section \<open>The list operations provide it\<close>

lemma set_bt_insert: "bt_ok ps \<Longrightarrow> set (bt_insert k v ps) = insert (k, v) {p \<in> set ps. fst p \<noteq> k}"
proof (induction k v ps rule: bt_insert.induct)
  case (2 k v a b ps)
  then have gt: "\<And>p. p \<in> set ps \<Longrightarrow> a < fst p" by auto
  show ?case
  proof (cases "k < a \<or> k = a")
    case True
    with gt have "\<And>p. p \<in> set ps \<Longrightarrow> fst p \<noteq> k" by fastforce
    with True show ?thesis by auto
  next
    case False
    with 2 show ?thesis by auto
  qed
qed simp

lemma keys_bt_insert: "fst ` set (bt_insert k v ps) = insert k (fst ` set ps)"
  by (induction k v ps rule: bt_insert.induct) auto

lemma bt_ok_insert [wf_intros]: "bt_ok ps \<Longrightarrow> bt_ok (bt_insert k v ps)"
proof (induction k v ps rule: bt_insert.induct)
  case (2 k v a b ps)
  have "\<forall>x \<in> set (map fst (bt_insert k v ps)). x = k \<or> x \<in> fst ` set ps"
    using keys_bt_insert [of k v ps] by auto
  with 2 show ?case by (auto; fastforce)
qed simp

lemma bt_ok_filter: "bt_ok ps \<Longrightarrow> bt_ok (filter P ps)"
  by (induction ps) auto

lemma bt_ok_remove [wf_intros]: "bt_ok ps \<Longrightarrow> bt_ok (bt_remove k ps)"
  by (simp add: bt_remove_def bt_ok_filter)

lemma bt_ok_distinct: "bt_ok ps \<Longrightarrow> distinct (map fst ps)"
  by (simp add: strict_sorted_iff)

lemma map_of_bt_insert [view_simps]: "map_of (bt_insert k v ps) = (map_of ps)(k \<mapsto> v)"
  by (induction k v ps rule: bt_insert.induct) (auto simp: fun_eq_iff)

lemma map_of_bt_remove [view_simps]: "map_of (bt_remove k ps) = (map_of ps)(k := None)"
  unfolding bt_remove_def by (induction ps) (auto simp: fun_eq_iff)

lemma bt_ok_last_greatest:
  assumes "bt_ok qs" and "qs \<noteq> []" and "p \<in> set qs"
  shows "fst p \<le> fst (last qs)"
  using assms by (induction qs) (auto simp: less_imp_le)

lemma bt_floor_Some:
  assumes "bt_ok ps"
  shows "bt_floor k ps = Some (a, v) \<longleftrightarrow>
    map_of ps a = Some v \<and> a \<le> k \<and> (\<forall>c. c \<in> dom (map_of ps) \<longrightarrow> c \<le> k \<longrightarrow> c \<le> a)"
proof -
  let ?qs = "filter (\<lambda>p. fst p \<le> k) ps"
  have ok: "bt_ok ?qs" using assms by (rule bt_ok_filter)
  have inj: "\<And>x y. (x, y) \<in> set ps \<longleftrightarrow> map_of ps x = Some y"
    using bt_ok_distinct [OF assms] by simp
  show ?thesis
  proof
    assume "bt_floor k ps = Some (a, v)"
    then have ne: "?qs \<noteq> []" and l: "last ?qs = (a, v)"
      by (auto simp: bt_floor_def last_opt_def split: if_splits)
    from l last_in_set [OF ne] have "(a, v) \<in> set ps" "a \<le> k" by auto
    moreover have "c \<le> a" if c: "c \<in> dom (map_of ps)" "c \<le> k" for c
    proof -
      from c obtain w where "(c, w) \<in> set ?qs" by (auto simp: inj [symmetric])
      from bt_ok_last_greatest [OF ok ne this] l show ?thesis by simp
    qed
    ultimately show "map_of ps a = Some v \<and> a \<le> k \<and>
        (\<forall>c. c \<in> dom (map_of ps) \<longrightarrow> c \<le> k \<longrightarrow> c \<le> a)"
      by (simp add: inj)
  next
    assume r: "map_of ps a = Some v \<and> a \<le> k \<and>
        (\<forall>c. c \<in> dom (map_of ps) \<longrightarrow> c \<le> k \<longrightarrow> c \<le> a)"
    then have m: "(a, v) \<in> set ?qs" by (auto simp: inj)
    then have ne: "?qs \<noteq> []" by (cases ?qs) auto
    have "last ?qs \<in> set ps" "fst (last ?qs) \<le> k" using last_in_set [OF ne] by auto
    then have "fst (last ?qs) \<le> a"
      using r by (metis domI inj prod.collapse)
    with bt_ok_last_greatest [OF ok ne m] have "fst (last ?qs) = a" by simp
    with \<open>last ?qs \<in> set ps\<close> r have "last ?qs = (a, v)"
      by (metis inj option.inject prod.collapse)
    with ne show "bt_floor k ps = Some (a, v)" by (simp add: bt_floor_def)
  qed
qed

lemma bt_above_Some:
  assumes "bt_ok ps"
  shows "bt_above k ps = Some (a, v) \<longleftrightarrow>
    map_of ps a = Some v \<and> k < a \<and> (\<forall>c. c \<in> dom (map_of ps) \<longrightarrow> k < c \<longrightarrow> a \<le> c)"
  using assms
proof (induction ps)
  case (Cons p ps)
  obtain x y where p: "p = (x, y)" by (cases p)
  from Cons.prems p have ok: "bt_ok ps" and lt: "\<And>c. c \<in> dom (map_of ps) \<Longrightarrow> x < c"
    by (auto simp: dom_map_of_conv_image_fst)
  show ?case
  proof (cases "k < x")
    case True
    have above: "bt_above k (p # ps) = Some (x, y)" using True p by (simp add: bt_above_def)
    have spec: "(map_of (p # ps) a = Some v \<and> k < a \<and>
        (\<forall>c. c \<in> dom (map_of (p # ps)) \<longrightarrow> k < c \<longrightarrow> a \<le> c)) \<longleftrightarrow> a = x \<and> v = y"
    proof
      assume h: "map_of (p # ps) a = Some v \<and> k < a \<and>
        (\<forall>c. c \<in> dom (map_of (p # ps)) \<longrightarrow> k < c \<longrightarrow> a \<le> c)"
      then have "a \<le> x" using True p by simp
      moreover from this have "a \<notin> dom (map_of ps)" using lt [of a] leD by blast
      ultimately show "a = x \<and> v = y" using h p by (auto split: if_splits)
    next
      assume "a = x \<and> v = y"
      then show "map_of (p # ps) a = Some v \<and> k < a \<and>
        (\<forall>c. c \<in> dom (map_of (p # ps)) \<longrightarrow> k < c \<longrightarrow> a \<le> c)"
        using True p lt by (auto simp: less_imp_le)
    qed
    show ?thesis unfolding spec above by auto
  next
    case False
    have "bt_above k (p # ps) = bt_above k ps" using False p by (simp add: bt_above_def)
    moreover have "x \<notin> dom (map_of ps)" using lt [of x] by blast
    moreover from this have "\<And>c. k < c \<Longrightarrow> c \<in> dom (map_of (p # ps)) \<longleftrightarrow> c \<in> dom (map_of ps)"
        "\<And>c. k < c \<Longrightarrow> map_of (p # ps) c = map_of ps c"
      using False p by auto
    ultimately show ?thesis using Cons.IH [OF ok] by metis
  qed
qed (simp add: bt_above_def)

interpretation btree: ordered_map bt_insert bt_remove map_of bt_floor bt_above bt_ok
  by unfold_locales
    (simp_all add: wf_intros view_simps bt_floor_Some bt_above_Some del: strict_sorted_iff)

section \<open>Splitting at a key\<close>

lemma bt_insert_middle:
  "bt_ok (L @ R) \<Longrightarrow> \<forall>p \<in> set L. fst p < k \<Longrightarrow> \<forall>p \<in> set R. k < fst p \<Longrightarrow>
    bt_insert k v (L @ R) = L @ (k, v) # R"
proof (induction L)
  case Nil
  then show ?case by (cases R) auto
qed auto

lemma bt_insert_middle_eq:
  "bt_ok (L @ (k, w) # R) \<Longrightarrow> bt_insert k v (L @ (k, w) # R) = L @ (k, v) # R"
  by (induction L) (auto; force)+

lemma bt_remove_middle:
  "bt_ok (L @ (k, w) # R) \<Longrightarrow> bt_remove k (L @ (k, w) # R) = L @ R"
  by (induction L) (auto simp: bt_remove_def filter_id_conv)

lemma bt_above_middle: "bt_ok (L @ (k, w) # R) \<Longrightarrow> bt_above k (L @ (k, w) # R) = first_opt R"
  by (induction L) (auto simp: bt_above_def filter_id_conv)

lemma bt_below_middle: "bt_ok (L @ (k, w) # R) \<Longrightarrow> bt_below k (L @ (k, w) # R) = last_opt L"
proof -
  assume ok: "bt_ok (L @ (k, w) # R)"
  have "filter (\<lambda>p. fst p < k) L = L"
    using ok by (simp add: filter_id_conv sorted_wrt_append)
  moreover have "filter (\<lambda>p. fst p < k) R = []"
    using ok by (auto simp: filter_empty_conv sorted_wrt_append)
  ultimately show ?thesis by (simp add: bt_below_def)
qed

lemma bt_lookup_middle: "bt_ok (L @ (k, w) # R) \<Longrightarrow> map_of (L @ (k, w) # R) k = Some w"
  by (drule bt_ok_distinct) (auto simp: map_of_eq_None_iff map_add_Some_iff)

lemma bt_eqI:
  assumes "bt_ok ps" and "bt_ok qs" and "set ps = set qs"
  shows "ps = qs"
proof (rule map_sorted_distinct_set_unique [where f = fst])
  show "inj_on fst (set ps \<union> set qs)"
    using bt_ok_distinct [OF assms(1)] assms(3) by (simp add: distinct_map)
qed (use assms in \<open>auto simp: strict_sorted_iff\<close>)

end
