(* ===== verification/ChunkMap.thy ===== *)
theory ChunkMap
  imports BTree
begin

text \<open>
  The chunk map of a blob (\<open>janus-vfs/src/chunk/chunk_map.rs\<close>): an ordered map from the
  start offset of a range of the file to the chunk that holds its bytes. The operations
  are the source's; below them stand the abstract view (which byte of which chunk a file
  offset reads), the invariant the source's comment promises (non-overlapping, sorted,
  coalesced), and the laws that tie the two together.
\<close>

section \<open>State\<close>

record chunk_entry =
  ce_end :: u64
  ce_chunk_id :: content_id
  ce_chunk_offset :: usize

record chunk_map =
  cm_len :: u64
  cm_entries :: "(u64 \<times> chunk_entry) list"

datatype chunk_map_entry =
    CChunk (cme_id: content_id) (cme_offset: usize) (cme_len: u64)
  | CHole (cme_len: u64)

record chunk_range =
  cr_offset :: u64
  cr_len :: u64
  cr_chunk_id :: content_id
  cr_chunk_offset :: usize

section \<open>Operations\<close>

definition cm_new :: chunk_map where
  "cm_new = \<lparr>cm_len = 0, cm_entries = []\<rparr>"

definition with_len :: "u64 \<Rightarrow> chunk_map" where
  "with_len n = \<lparr>cm_len = n, cm_entries = []\<rparr>"

definition cm_is_empty :: "chunk_map \<Rightarrow> bool" where
  "cm_is_empty m = (cm_entries m = [])"

definition cm_iter :: "chunk_map \<Rightarrow> chunk_range list" where
  "cm_iter m = map (\<lambda>(start, e). \<lparr>cr_offset = start, cr_len = ce_end e - start,
      cr_chunk_id = ce_chunk_id e, cr_chunk_offset = ce_chunk_offset e\<rparr>) (cm_entries m)"

text \<open>
  The loop of \<open>remove_range\<close>: stop at the first entry that starts at or after the end,
  skip entries that end at or before the start, and for the others note the key to remove
  and the pieces that stick out on either side.
\<close>

fun remove_scan ::
  "u64 \<Rightarrow> u64 \<Rightarrow> (u64 \<times> chunk_entry) list \<Rightarrow> u64 list \<times> (u64 \<times> chunk_entry) list" where
  "remove_scan start fin [] = ([], [])"
| "remove_scan start fin ((e_start, entry) # rest) =
     (if fin \<le> e_start then ([], [])
      else if ce_end entry \<le> start then remove_scan start fin rest
      else let (to_remove, to_insert) = remove_scan start fin rest;
               left = (if e_start < start
                       then [(e_start, \<lparr>ce_end = start, ce_chunk_id = ce_chunk_id entry,
                               ce_chunk_offset = ce_chunk_offset entry\<rparr>)]
                       else []);
               right = (if fin < ce_end entry
                        then [(fin, \<lparr>ce_end = ce_end entry, ce_chunk_id = ce_chunk_id entry,
                                ce_chunk_offset = ce_chunk_offset entry + (fin - e_start)\<rparr>)]
                        else [])
           in (e_start # to_remove, left @ right @ to_insert))"

definition remove_range ::
  "u64 \<Rightarrow> u64 \<Rightarrow> (u64 \<times> chunk_entry) list \<Rightarrow> (u64 \<times> chunk_entry) list" where
  "remove_range start fin es =
     (if fin \<le> start then es
      else let scanned = (case bt_floor start es of
                            Some (k, _) \<Rightarrow> bt_from k es
                          | None \<Rightarrow> es);
               (to_remove, to_insert) = remove_scan start fin scanned
           in fold (\<lambda>(k, v). bt_insert k v) to_insert (fold bt_remove to_remove es))"

definition try_merge_at :: "u64 \<Rightarrow> (u64 \<times> chunk_entry) list \<Rightarrow> (u64 \<times> chunk_entry) list" where
  "try_merge_at start es =
     (case map_of es start of
        None \<Rightarrow> es
      | Some entry \<Rightarrow>
          (case bt_above start es of
             None \<Rightarrow> es
           | Some (next_start, next_entry) \<Rightarrow>
               if ce_end entry = next_start
                  \<and> ce_chunk_id entry = ce_chunk_id next_entry
                  \<and> ce_chunk_offset entry + (ce_end entry - start) = ce_chunk_offset next_entry
               then bt_insert start (entry\<lparr>ce_end := ce_end next_entry\<rparr>)
                      (bt_remove next_start es)
               else es))"

definition cm_insert :: "u64 \<Rightarrow> u64 \<Rightarrow> content_id \<Rightarrow> usize \<Rightarrow> chunk_map \<Rightarrow> chunk_map" where
  "cm_insert offset len chunk_id chunk_offset m =
     (if len = 0 then m
      else let fin = min (saturating_add offset len) (cm_len m)
           in if cm_len m \<le> offset \<or> fin \<le> offset then m
              else let es1 = remove_range offset fin (cm_entries m);
                       es2 = bt_insert offset \<lparr>ce_end = fin, ce_chunk_id = chunk_id,
                               ce_chunk_offset = chunk_offset\<rparr> es1;
                       es3 = try_merge_at offset es2;
                       es4 = (case bt_below offset es3 of
                                Some (prev_start, _) \<Rightarrow> try_merge_at prev_start es3
                              | None \<Rightarrow> es3)
                   in m\<lparr>cm_entries := es4\<rparr>)"

definition cm_remove :: "u64 \<Rightarrow> u64 \<Rightarrow> chunk_map \<Rightarrow> chunk_map" where
  "cm_remove offset len m =
     (if len = 0 then m
      else if cm_len m \<le> offset then m
      else let fin = min (saturating_add offset len) (cm_len m)
           in m\<lparr>cm_entries := remove_range offset fin (cm_entries m)\<rparr>)"

definition cm_set_len :: "u64 \<Rightarrow> chunk_map \<Rightarrow> chunk_map" where
  "cm_set_len new_len m =
     (let es = (if new_len < cm_len m then remove_range new_len (cm_len m) (cm_entries m)
                else cm_entries m)
      in \<lparr>cm_len = new_len, cm_entries = es\<rparr>)"

definition cm_get :: "u64 \<Rightarrow> chunk_map \<Rightarrow> chunk_map_entry option" where
  "cm_get offset m =
     (if cm_len m \<le> offset then None
      else let hole = (let hole_fin = (case bt_above offset (cm_entries m) of
                                         Some (next_start, _) \<Rightarrow> min next_start (cm_len m)
                                       | None \<Rightarrow> cm_len m)
                       in Some (CHole (hole_fin - offset)))
           in case bt_floor offset (cm_entries m) of
                Some (start, entry) \<Rightarrow>
                  if offset < ce_end entry
                  then Some (CChunk (ce_chunk_id entry)
                               (ce_chunk_offset entry + (offset - start))
                               (ce_end entry - offset))
                  else hole
              | None \<Rightarrow> hole)"

section \<open>The invariant and the abstract view\<close>

fun disjoint_from :: "u64 \<Rightarrow> (u64 \<times> chunk_entry) list \<Rightarrow> bool" where
  "disjoint_from lo [] = True"
| "disjoint_from lo ((s, e) # rest) =
     (lo \<le> s \<and> s < ce_end e \<and> disjoint_from (ce_end e) rest)"

definition mergeable :: "u64 \<times> chunk_entry \<Rightarrow> u64 \<times> chunk_entry \<Rightarrow> bool" where
  "mergeable p q =
     (ce_end (snd p) = fst q \<and> ce_chunk_id (snd p) = ce_chunk_id (snd q)
      \<and> ce_chunk_offset (snd p) + (ce_end (snd p) - fst p) = ce_chunk_offset (snd q))"

fun coalesced :: "(u64 \<times> chunk_entry) list \<Rightarrow> bool" where
  "coalesced (p # q # rest) = (\<not> mergeable p q \<and> coalesced (q # rest))"
| "coalesced _ = True"

definition bounded_by :: "u64 \<Rightarrow> (u64 \<times> chunk_entry) list \<Rightarrow> bool" where
  "bounded_by n es = (\<forall>(s, e) \<in> set es. ce_end e \<le> n)"

definition cm_wf :: "chunk_map \<Rightarrow> bool" where
  "cm_wf m = (disjoint_from 0 (cm_entries m) \<and> bounded_by (cm_len m) (cm_entries m)
              \<and> coalesced (cm_entries m))"

text \<open>Which chunk, and which byte of it, holds the file's byte at an offset.\<close>

fun entries_at :: "(u64 \<times> chunk_entry) list \<Rightarrow> u64 \<Rightarrow> (content_id \<times> usize) option" where
  "entries_at [] x = None"
| "entries_at ((s, e) # rest) x =
     (if s \<le> x \<and> x < ce_end e then Some (ce_chunk_id e, ce_chunk_offset e + (x - s))
      else entries_at rest x)"

definition cm_at :: "chunk_map \<Rightarrow> u64 \<Rightarrow> (content_id \<times> usize) option" where
  "cm_at m x = entries_at (cm_entries m) x"

section \<open>Facts on sorted, disjoint entry lists\<close>

fun end_of :: "u64 \<Rightarrow> (u64 \<times> chunk_entry) list \<Rightarrow> u64" where
  "end_of lo [] = lo"
| "end_of lo ((s, e) # rest) = end_of (ce_end e) rest"

lemma end_of_snoc [simp]: "end_of lo (L @ [(s, e)]) = ce_end e"
  by (induction lo L rule: end_of.induct) auto

lemma disjoint_append:
  "disjoint_from lo (L @ R) \<longleftrightarrow> disjoint_from lo L \<and> disjoint_from (end_of lo L) R"
  by (induction lo L rule: disjoint_from.induct) auto

lemma disjoint_mono: "disjoint_from lo es \<Longrightarrow> lo' \<le> lo \<Longrightarrow> disjoint_from lo' es"
  by (cases es) auto

lemma disjoint_start: "disjoint_from lo es \<Longrightarrow> (s, e) \<in> set es \<Longrightarrow> lo \<le> s \<and> s < ce_end e"
proof (induction lo es rule: disjoint_from.induct)
  case (2 lo s' e' rest)
  then show ?case by (auto intro: order.trans less_imp_le)
qed simp

lemma end_of_ge: "disjoint_from lo es \<Longrightarrow> lo \<le> end_of lo es"
proof (induction lo es rule: disjoint_from.induct)
  case (2 lo s e rest)
  then have "ce_end e \<le> end_of (ce_end e) rest" by simp
  with 2 show ?case by (auto intro: order.trans less_imp_le)
qed simp

lemma disjoint_end: "disjoint_from lo es \<Longrightarrow> (s, e) \<in> set es \<Longrightarrow> ce_end e \<le> end_of lo es"
  by (induction lo es rule: disjoint_from.induct) (auto dest: end_of_ge)

lemma disjoint_bt_ok: "disjoint_from lo es \<Longrightarrow> bt_ok es"
proof (induction lo es rule: disjoint_from.induct)
  case (2 lo s e rest)
  then show ?case by (auto dest!: disjoint_start intro: less_le_trans)
qed simp

lemma disjoint_pairs:
  assumes "disjoint_from lo es" and "(s, e) \<in> set es" and "(t, f) \<in> set es" and "s < t"
  shows "ce_end e \<le> t"
  using assms
proof (induction lo es rule: disjoint_from.induct)
  case (2 lo s' e' rest)
  from 2(2-) show ?case
    by (auto dest: disjoint_start 2(1) simp: leD)
qed simp

lemma entries_at_Some:
  assumes "disjoint_from lo es"
  shows "entries_at es x = Some v \<longleftrightarrow>
    (\<exists>s e. (s, e) \<in> set es \<and> s \<le> x \<and> x < ce_end e \<and> v = (ce_chunk_id e, ce_chunk_offset e + (x - s)))"
  using assms
proof (induction es arbitrary: lo)
  case (Cons p es)
  obtain s e where p: "p = (s, e)" by (cases p)
  from Cons.prems p have d: "disjoint_from (ce_end e) es" by simp
  from d have "\<And>t f. (t, f) \<in> set es \<Longrightarrow> ce_end e \<le> t" by (auto dest: disjoint_start)
  with Cons.IH [OF d] p show ?case by (auto simp: leD) fastforce+
qed simp

lemma entries_at_None:
  assumes "disjoint_from lo es"
  shows "entries_at es x = None \<longleftrightarrow> (\<forall>(s, e) \<in> set es. \<not> (s \<le> x \<and> x < ce_end e))"
  using entries_at_Some [OF assms, of x] by (cases "entries_at es x") fastforce+

lemma entries_at_append:
  "entries_at (L @ R) x = (case entries_at L x of None \<Rightarrow> entries_at R x | Some v \<Rightarrow> Some v)"
  by (induction L) auto

lemma entries_at_outside: "disjoint_from lo es \<Longrightarrow> x < lo \<or> end_of lo es \<le> x \<Longrightarrow> entries_at es x = None"
  by (auto simp: entries_at_None dest: disjoint_start disjoint_end)

section \<open>Removing a range\<close>

text \<open>
  The reference for \<open>remove_range\<close>: each entry is replaced by what is left of it outside
  the range.
\<close>

definition touched :: "u64 \<Rightarrow> u64 \<Rightarrow> u64 \<times> chunk_entry \<Rightarrow> bool" where
  "touched a b p = (fst p < b \<and> a < ce_end (snd p))"

definition pieces :: "u64 \<Rightarrow> u64 \<Rightarrow> u64 \<times> chunk_entry \<Rightarrow> (u64 \<times> chunk_entry) list" where
  "pieces a b p =
     (if fst p < a then [(fst p, (snd p)\<lparr>ce_end := a\<rparr>)] else []) @
     (if b < ce_end (snd p)
      then [(b, (snd p)\<lparr>ce_chunk_offset := ce_chunk_offset (snd p) + (b - fst p)\<rparr>)] else [])"

fun cut :: "u64 \<Rightarrow> u64 \<Rightarrow> (u64 \<times> chunk_entry) list \<Rightarrow> (u64 \<times> chunk_entry) list" where
  "cut a b [] = []"
| "cut a b (p # rest) = (if touched a b p then pieces a b p else [p]) @ cut a b rest"

lemma pieces_scan_step:
  "(if s < a then [(s, \<lparr>ce_end = a, ce_chunk_id = ce_chunk_id e,
       ce_chunk_offset = ce_chunk_offset e\<rparr>)] else []) @
   (if b < ce_end e then [(b, \<lparr>ce_end = ce_end e, ce_chunk_id = ce_chunk_id e,
       ce_chunk_offset = ce_chunk_offset e + (b - s)\<rparr>)] else []) = pieces a b (s, e)"
  by (simp add: pieces_def)

lemma remove_scan_Cons:
  "remove_scan a b ((s, e) # rest) =
     (if b \<le> s then ([], []) else if ce_end e \<le> a then remove_scan a b rest
      else (s # fst (remove_scan a b rest), pieces a b (s, e) @ snd (remove_scan a b rest)))"
  by (simp add: pieces_scan_step [symmetric] split: prod.splits)

declare remove_scan.simps(2) [simp del]

lemma disjoint_pieces:
  assumes "a < b" and "touched a b (s, e)" and "lo \<le> s" and "s < ce_end e"
    and "disjoint_from (ce_end e) rest"
  shows "disjoint_from lo (pieces a b (s, e) @ rest)"
  using assms disjoint_mono [OF assms(5), of a] disjoint_mono [OF assms(5), of lo]
  by (auto simp: pieces_def touched_def intro: order.trans less_imp_le)

lemma disjoint_cut: "a < b \<Longrightarrow> disjoint_from lo es \<Longrightarrow> disjoint_from lo (cut a b es)"
proof (induction es arbitrary: lo)
  case (Cons p es)
  obtain s e where p: "p = (s, e)" by (cases p)
  with Cons have "disjoint_from (ce_end e) (cut a b es)" by simp
  with Cons.prems p show ?case by (auto intro: disjoint_pieces)
qed simp

lemma disjoint_scan_inserts:
  "a < b \<Longrightarrow> disjoint_from lo es \<Longrightarrow> disjoint_from lo (snd (remove_scan a b es))"
proof (induction es arbitrary: lo)
  case (Cons p es)
  obtain s e where p: "p = (s, e)" by (cases p)
  with Cons have d: "disjoint_from (ce_end e) (snd (remove_scan a b es))" by simp
  from Cons.prems p have "lo \<le> ce_end e" by auto
  with d have "disjoint_from lo (snd (remove_scan a b es))" by (rule disjoint_mono)
  with Cons.prems p d show ?case
    by (auto simp: remove_scan_Cons touched_def intro!: disjoint_pieces)
qed simp

lemma disjoint_filter: "disjoint_from lo es \<Longrightarrow> disjoint_from lo (filter P es)"
proof (induction lo es rule: disjoint_from.induct)
  case (2 lo s e rest)
  then have "disjoint_from (ce_end e) (filter P rest)" by simp
  moreover from this have "disjoint_from lo (filter P rest)"
    using "2.prems" by (auto elim!: disjoint_mono)
  ultimately show ?case using "2.prems" by simp
qed simp

lemma untouched_after:
  "disjoint_from lo es \<Longrightarrow> b \<le> lo \<Longrightarrow> p \<in> set es \<Longrightarrow> \<not> touched a b p"
  using disjoint_start [of lo es "fst p" "snd p"] by (auto simp: touched_def)

lemma set_remove_scan:
  assumes "disjoint_from lo es"
  shows "set (fst (remove_scan a b es)) = fst ` {p \<in> set es. touched a b p}
    \<and> set (snd (remove_scan a b es)) = (\<Union>p \<in> {p \<in> set es. touched a b p}. set (pieces a b p))"
  using assms
proof (induction es arbitrary: lo)
  case (Cons p es)
  obtain s e where p: "p = (s, e)" by (cases p)
  from Cons.prems p have d: "disjoint_from (ce_end e) es" and se: "s < ce_end e" by auto
  show ?case
  proof (cases "b \<le> s")
    case True
    with se have "b \<le> ce_end e" by simp
    then have "\<not> touched a b q" if "q \<in> set (p # es)" for q
      using that True p untouched_after [OF d, of b q a] by (auto simp: touched_def)
    with True show ?thesis by (auto simp: p remove_scan_Cons)
  next
    case False
    have split: "{q \<in> set (p # es). touched a b q} =
        (if touched a b p then {p} else {}) \<union> {q \<in> set es. touched a b q}"
      by auto
    from False Cons.IH [OF d] show ?thesis unfolding split
      by (auto simp: p remove_scan_Cons touched_def)
  qed
qed simp

lemma set_cut: "set (cut a b es) =
    {p \<in> set es. \<not> touched a b p} \<union> (\<Union>p \<in> {p \<in> set es. touched a b p}. set (pieces a b p))"
  by (induction es) auto

lemma set_fold_bt_remove: "set (fold bt_remove ks ps) = {p \<in> set ps. fst p \<notin> set ks}"
  by (induction ks arbitrary: ps) (auto simp: bt_remove_def)

lemma bt_ok_fold_remove: "bt_ok ps \<Longrightarrow> bt_ok (fold bt_remove ks ps)"
  by (induction ks arbitrary: ps) (auto simp: bt_ok_remove)

lemma bt_ok_fold_insert: "bt_ok ps \<Longrightarrow> bt_ok (fold (\<lambda>(k, v). bt_insert k v) ins ps)"
  by (induction ins arbitrary: ps) (auto simp: bt_ok_insert)

lemma set_fold_bt_insert:
  "bt_ok ps \<Longrightarrow> distinct (map fst ins) \<Longrightarrow>
   set (fold (\<lambda>(k, v). bt_insert k v) ins ps) = set ins \<union> {p \<in> set ps. fst p \<notin> fst ` set ins}"
proof (induction ins arbitrary: ps)
  case (Cons q ins)
  obtain k v where q: "q = (k, v)" by (cases q)
  with Cons.prems have "k \<notin> fst ` set ins" by simp
  then have "(k, w) \<notin> set ins" for w by force
  with Cons q show ?case by (auto simp: set_bt_insert bt_ok_insert)
qed simp

lemma remove_range_cut:
  assumes d: "disjoint_from lo es" and ab: "a < b"
  shows "remove_range a b es = cut a b es"
proof -
  define scanned where
    "scanned = (case bt_floor a es of Some (k, _) \<Rightarrow> bt_from k es | None \<Rightarrow> es)"
  define rm where "rm = fst (remove_scan a b scanned)"
  define ins where "ins = snd (remove_scan a b scanned)"
  have ok: "bt_ok es" using d by (rule disjoint_bt_ok)
  have rr: "remove_range a b es = fold (\<lambda>(k, v). bt_insert k v) ins (fold bt_remove rm es)"
    using ab [unfolded not_le [symmetric]] by (simp add: remove_range_def scanned_def rm_def ins_def case_prod_unfold Let_def)
  have uniq: "e = f" if "(s, e) \<in> set es" "(s, f) \<in> set es" for s e f
    using bt_ok_distinct [OF ok] that by (simp add: eq_key_imp_eq_value)
  have dscan: "\<exists>lo'. disjoint_from lo' scanned"
    using d by (auto simp: scanned_def bt_from_def intro: disjoint_filter split: option.splits)
  have tscan: "{p \<in> set scanned. touched a b p} = {p \<in> set es. touched a b p}"
  proof (cases "bt_floor a es")
    case (Some kv)
    obtain k v where kv: "kv = (k, v)" by (cases kv)
    with Some bt_floor_Some [OF ok, of a k v] ok
    have k: "(k, v) \<in> set es" "k \<le> a" by (auto dest: map_of_SomeD)
    have "\<not> touched a b (s, e)" if "(s, e) \<in> set es" "s < k" for s e
      using disjoint_pairs [OF d that(1) k(1) that(2)] k(2) by (auto simp: touched_def)
    then have "k \<le> s" if "(s, e) \<in> set es" "touched a b (s, e)" for s e
      using that by (meson leI)
    then show ?thesis using Some kv by (auto simp: scanned_def bt_from_def)
  qed (simp add: scanned_def)
  from dscan obtain lo' where ds: "disjoint_from lo' scanned" ..
  have srm: "set rm = fst ` {p \<in> set es. touched a b p}"
    and sins: "set ins = (\<Union>p \<in> {p \<in> set es. touched a b p}. set (pieces a b p))"
    using set_remove_scan [OF ds, of a b] by (simp_all add: rm_def ins_def tscan)
  have dins: "distinct (map fst ins)"
    using disjoint_scan_inserts [OF ab ds] by (auto simp: ins_def intro: bt_ok_distinct disjoint_bt_ok)
  have kins: "fst p \<notin> fst ` set ins \<and> fst p \<notin> set rm"
    if p: "p \<in> set es" "\<not> touched a b p" for p
  proof -
    have rm: "fst p \<notin> set rm" using p by (auto simp: srm) (metis prod.collapse uniq)
    have "fst p \<noteq> b" if q: "(s, e) \<in> set es" "touched a b (s, e)" "b < ce_end e" for s e
      using disjoint_pairs [OF d q(1), of "fst p" "snd p"] p(1) q by (auto simp: touched_def)
    moreover have "fst q \<in> set rm \<or> (\<exists>s e. (s, e) \<in> set es \<and> touched a b (s, e) \<and>
        b < ce_end e \<and> fst q = b)" if "q \<in> set ins" for q
    proof -
      from that obtain s e where se: "(s, e) \<in> set es" "touched a b (s, e)" "q \<in> set (pieces a b (s, e))"
        by (auto simp: sins)
      then have "s \<in> set rm" by (force simp: srm)
      with se show ?thesis by (auto simp: pieces_def split: if_splits)
    qed
    ultimately have "fst p \<notin> fst ` set ins" using rm by fastforce
    with rm show ?thesis by simp
  qed
  show ?thesis unfolding rr
  proof (rule bt_eqI)
    show "bt_ok (cut a b es)" using disjoint_cut [OF ab d] by (rule disjoint_bt_ok)
    show "bt_ok (fold (\<lambda>(k, v). bt_insert k v) ins (fold bt_remove rm es))"
      by (intro bt_ok_fold_insert bt_ok_fold_remove ok)
    have "set (fold (\<lambda>(k, v). bt_insert k v) ins (fold bt_remove rm es)) =
        set ins \<union> {p \<in> set es. fst p \<notin> set rm \<and> fst p \<notin> fst ` set ins}"
      by (auto simp: set_fold_bt_insert bt_ok_fold_remove ok dins set_fold_bt_remove)
    also have "{p \<in> set es. fst p \<notin> set rm \<and> fst p \<notin> fst ` set ins} =
        {p \<in> set es. \<not> touched a b p}"
      using kins srm by auto
    finally show "set (fold (\<lambda>(k, v). bt_insert k v) ins (fold bt_remove rm es)) = set (cut a b es)"
      by (auto simp: set_cut sins)
  qed
qed

lemma entries_at_pieces:
  assumes ab: "a < b" and t: "touched a b (s, e)"
  shows "entries_at (pieces a b (s, e)) x =
    (if a \<le> x \<and> x < b then None else entries_at [(s, e)] x)"
proof -
  from t have sb: "s < b" and ae: "a < ce_end e" by (simp_all add: touched_def)
  have ring: "ce_chunk_offset e + (b - s) + (x - b) = ce_chunk_offset e + (x - s)" by simp
  consider "x < a" | "a \<le> x" "x < b" | "b \<le> x" by force
  then show ?thesis
  proof cases
    case 1
    with ab ae have "x < b" "x < ce_end e" by auto
    with 1 show ?thesis by (auto simp: pieces_def)
  next
    case 3
    with ab sb have "a \<le> x" "s \<le> x" by auto
    with 3 ring show ?thesis by (auto simp: pieces_def)
  qed (auto simp: pieces_def)
qed

lemma entries_at_cut [view_simps]:
  "a < b \<Longrightarrow> disjoint_from lo es \<Longrightarrow>
   entries_at (cut a b es) x = (if a \<le> x \<and> x < b then None else entries_at es x)"
proof (induction es arbitrary: lo)
  case (Cons p es)
  obtain s e where p: "p = (s, e)" by (cases p)
  with Cons.prems Cons.IH [of "ce_end e"]
  have "entries_at (cut a b es) x = (if a \<le> x \<and> x < b then None else entries_at es x)"
    by simp
  moreover have "entries_at (pieces a b p) x =
      (if a \<le> x \<and> x < b then None else entries_at [p] x)" if "touched a b p"
    using entries_at_pieces [OF Cons.prems(1) that [unfolded p]] p by simp
  moreover have "entries_at [p] x = None" if "\<not> touched a b p" "a \<le> x" "x < b"
  proof -
    from that p have "b \<le> s \<or> ce_end e \<le> a" by (auto simp: touched_def not_less)
    then have "x < s \<or> ce_end e \<le> x" using that(2,3) by auto
    with p show ?thesis by auto
  qed
  moreover have "entries_at (p # es) x =
      (case entries_at [p] x of None \<Rightarrow> entries_at es x | Some v \<Rightarrow> Some v)"
    "entries_at (p # cut a b es) x =
      (case entries_at [p] x of None \<Rightarrow> entries_at (cut a b es) x | Some v \<Rightarrow> Some v)"
    using p by simp_all
  ultimately show ?case
    by (cases "touched a b p"; cases "a \<le> x \<and> x < b") (auto simp: entries_at_append split: option.splits)
qed simp

lemma coalesced_iff:
  assumes "disjoint_from lo es"
  shows "coalesced es \<longleftrightarrow> (\<forall>p \<in> set es. \<forall>q \<in> set es. \<not> mergeable p q)"
  using assms
proof (induction es arbitrary: lo rule: coalesced.induct)
  case (1 p q rest)
  obtain s e where p: "p = (s, e)" by (cases p)
  obtain t f where q: "q = (t, f)" by (cases q)
  from 1(2) p q have d: "disjoint_from (ce_end e) (q # rest)" and s: "s < ce_end e" by auto
  have "\<not> mergeable r p" if r: "r \<in> set (p # q # rest)" for r
  proof (cases "r = p")
    case False
    with r disjoint_start [OF d, of "fst r" "snd r"] have "ce_end e < ce_end (snd r)" by auto
    with s have "ce_end (snd r) \<noteq> s" by simp
    with p show ?thesis by (simp add: mergeable_def)
  qed (use s p in \<open>simp add: mergeable_def\<close>)
  moreover have "\<not> mergeable p r" if r: "r \<in> set rest" for r
  proof -
    from d q have "disjoint_from (ce_end f) rest" "ce_end e \<le> t" "t < ce_end f" by auto
    with r disjoint_start [of "ce_end f" rest "fst r" "snd r"] have "ce_end e < fst r" by auto
    then have "ce_end e \<noteq> fst r" by simp
    with p show ?thesis by (simp add: mergeable_def)
  qed
  ultimately show ?case using "1.IH" [OF d] by auto
qed (auto simp: mergeable_def)

lemma mem_cut_cases:
  assumes "(t, f) \<in> set (cut a b es)"
  obtains "(t, f) \<in> set es" "\<not> touched a b (t, f)"
  | e where "(t, e) \<in> set es" "touched a b (t, e)" "t < a" "f = e\<lparr>ce_end := a\<rparr>"
  | s e where "(s, e) \<in> set es" "touched a b (s, e)" "b < ce_end e" "t = b"
      "f = e\<lparr>ce_chunk_offset := ce_chunk_offset e + (b - s)\<rparr>"
  using assms by (auto simp: set_cut pieces_def split: if_splits)

lemma coalesced_cut:
  assumes ab: "a < b" and d: "disjoint_from lo es" and c: "coalesced es"
  shows "coalesced (cut a b es)"
proof -
  have nm: "\<not> mergeable p q" if "p \<in> set es" "q \<in> set es" for p q
    using c that by (simp add: coalesced_iff [OF d])
  have st: "s < ce_end e" if "(s, e) \<in> set es" for s e
    using disjoint_start [OF d that] by simp
  have False if p: "(s, e) \<in> set (cut a b es)" and q: "(t, f) \<in> set (cut a b es)"
    and m: "mergeable (s, e) (t, f)" for s e t f
    using p
  proof (cases rule: mem_cut_cases)
    case p1: 1
    from q show False
    proof (cases rule: mem_cut_cases)
      case 1
      with p1 nm m show False by blast
    next
      case (2 e2)
      with m have "mergeable (s, e) (t, e2)" by (auto simp: mergeable_def)
      with nm [OF p1(1) 2(1)] show False by simp
    next
      case (3 s2 e2)
      with p1 st [of s e] m ab show False by (auto simp: mergeable_def touched_def)
    qed
  next
    case p2: (2 e1)
    from q show False
    proof (cases rule: mem_cut_cases)
      case 1
      with p2 st [of t f] m ab show False by (auto simp: mergeable_def touched_def)
    qed (use p2 m ab in \<open>auto simp: mergeable_def\<close>)
  next
    case p3: (3 s1 e1)
    from q show False
    proof (cases rule: mem_cut_cases)
      case 1
      with m p3 have "mergeable (s1, e1) (t, f)" by (auto simp: mergeable_def algebra_simps)
      with nm [OF p3(1) 1(1)] show False by simp
    qed (use p3 m ab in \<open>auto simp: mergeable_def\<close>)
  qed
  then show ?thesis using coalesced_iff [OF disjoint_cut [OF ab d]] by auto
qed

lemma bounded_cut:
  assumes "bounded_by n es"
  shows "bounded_by n (cut a b es)"
proof -
  have "ce_end f \<le> n" if "(t, f) \<in> set (cut a b es)" for t f
    using that assms by (cases rule: mem_cut_cases) (fastforce simp: bounded_by_def touched_def)+
  then show ?thesis by (auto simp: bounded_by_def)
qed

lemma bounded_cut_below:
  assumes "a < b" and "disjoint_from lo es" and "bounded_by b es"
  shows "bounded_by a (cut a b es)"
proof -
  have le: "ce_end e \<le> b" "s < ce_end e" if "(s, e) \<in> set es" for s e
    using assms(3) disjoint_start [OF assms(2)] that by (auto simp: bounded_by_def)
  have "ce_end f \<le> a" if "(t, f) \<in> set (cut a b es)" for t f
    using that
  proof (cases rule: mem_cut_cases)
    case 1
    with le [of t f] show ?thesis by (auto simp: touched_def)
  next
    case (3 s e)
    with le [of s e] show ?thesis by auto
  qed simp
  then show ?thesis by (auto simp: bounded_by_def)
qed

lemma gap_split:
  assumes "disjoint_from lo es" and "a \<le> b"
    and "\<forall>(s, e) \<in> set es. ce_end e \<le> a \<or> b \<le> s"
  shows "\<exists>L R. es = L @ R \<and> (\<forall>(s, e) \<in> set L. ce_end e \<le> a) \<and> (\<forall>(s, e) \<in> set R. b \<le> s)"
  using assms(1,3)
proof (induction es arbitrary: lo)
  case (Cons p es)
  obtain s e where p: "p = (s, e)" by (cases p)
  from Cons.prems p have d: "disjoint_from (ce_end e) es" by simp
  from Cons.IH [OF d] Cons.prems(2) obtain L R where LR: "es = L @ R"
    "\<forall>(s, e) \<in> set L. ce_end e \<le> a" "\<forall>(s, e) \<in> set R. b \<le> s" by auto
  show ?case
  proof (cases "ce_end e \<le> a")
    case True
    with LR p show ?thesis by (intro exI [of _ "p # L"] exI [of _ R]) auto
  next
    case False
    with Cons.prems p have "b \<le> s" "s < ce_end e" by auto
    then have "\<forall>(t, f) \<in> set es. b \<le> t"
      using disjoint_start [OF d] by (fastforce intro: order.trans less_imp_le)
    with \<open>b \<le> s\<close> p show ?thesis by (intro exI [of _ "[]"] exI [of _ "p # es"]) auto
  qed
qed simp

lemma cut_gap:
  assumes "a < b" and "disjoint_from lo es" and "(s, e) \<in> set (cut a b es)"
  shows "ce_end e \<le> a \<or> b \<le> s"
  using assms(3) by (cases rule: mem_cut_cases) (auto simp: touched_def not_less)

section \<open>Merging neighbours\<close>

definition merge_next ::
  "u64 \<times> chunk_entry \<Rightarrow> (u64 \<times> chunk_entry) list \<Rightarrow> (u64 \<times> chunk_entry) list" where
  "merge_next p rest =
     (case rest of
        [] \<Rightarrow> [p]
      | q # rest' \<Rightarrow>
          if mergeable p q then (fst p, (snd p)\<lparr>ce_end := ce_end (snd q)\<rparr>) # rest' else p # rest)"

lemma try_merge_middle:
  assumes "bt_ok (L @ (k, e) # R)"
  shows "try_merge_at k (L @ (k, e) # R) = L @ merge_next (k, e) R"
proof -
  note look = bt_lookup_middle [OF assms] and above = bt_above_middle [OF assms]
  show ?thesis
  proof (cases R)
    case Nil
    with look above show ?thesis
      by (simp only: try_merge_at_def option.case first_opt_simps merge_next_def list.case)
  next
    case (Cons q R')
    obtain t f where q: "q = (t, f)" by (cases q)
    from assms Cons q have rem: "bt_remove t (L @ (k, e) # R) = L @ (k, e) # R'"
      using bt_remove_middle [of "L @ [(k, e)]" t f R'] by simp
    from assms Cons have "bt_ok (L @ (k, e) # R')" by (auto simp: sorted_wrt_append)
    note ins = bt_insert_middle_eq [OF this]
    have "try_merge_at k (L @ (k, e) # R) =
        (if mergeable (k, e) q then L @ (k, e\<lparr>ce_end := ce_end f\<rparr>) # R' else L @ (k, e) # R)"
      unfolding try_merge_at_def look above option.case
      by (auto simp: Cons q rem [unfolded Cons q] ins mergeable_def)
    with Cons q show ?thesis by (simp add: merge_next_def)
  qed
qed

lemma merge_next_shape: "\<exists>e' R'. merge_next (k, e) R = (k, e') # R'"
  by (auto simp: merge_next_def split: list.splits)

lemma mergeable_grow_left:
  assumes "mergeable (s, e) (t, f)"
  shows "mergeable (s, e\<lparr>ce_end := ce_end f\<rparr>) h = mergeable (t, f) h"
proof -
  from assms have f: "ce_chunk_offset f = ce_chunk_offset e + (t - s)" "ce_chunk_id f = ce_chunk_id e"
    by (auto simp: mergeable_def)
  have "ce_chunk_offset e + (ce_end f - s) = ce_chunk_offset f + (ce_end f - t)"
    by (simp add: f)
  with f show ?thesis by (simp add: mergeable_def)
qed

lemma mergeable_grow_right: "mergeable g (s, e\<lparr>ce_end := n\<rparr>) = mergeable g (s, e)"
  by (simp add: mergeable_def)

lemma disjoint_merge_next:
  "disjoint_from lo (p # R) \<Longrightarrow> disjoint_from lo (merge_next p R)"
  by (cases p) (auto simp: merge_next_def mergeable_def intro: less_trans split: list.splits)

lemma end_of_merge: "disjoint_from lo (L @ p # R) \<Longrightarrow> disjoint_from lo (L @ merge_next p R)"
  by (simp only: disjoint_append disjoint_merge_next)

lemma bounded_merge_next: "bounded_by n (p # R) \<Longrightarrow> bounded_by n (merge_next p R)"
  by (cases p) (auto simp: merge_next_def bounded_by_def split: list.splits)

lemma entries_at_merge_next:
  assumes "disjoint_from lo (p # R)"
  shows "entries_at (merge_next p R) x = entries_at (p # R) x"
proof (cases "R \<noteq> [] \<and> mergeable p (hd R)")
  case True
  then obtain s e t f R' where p: "p = (s, e)" and R: "R = (t, f) # R'"
    and m: "mergeable (s, e) (t, f)" by (cases p; cases R) auto
  from m assms p R have ord: "ce_end e = t" "s < t" "t < ce_end f"
    and off: "ce_chunk_offset f = ce_chunk_offset e + (t - s)"
    by (auto simp: mergeable_def)
  have ring: "ce_chunk_offset f + (x - t) = ce_chunk_offset e + (x - s)" by (simp add: off)
  have step: "merge_next (s, e) ((t, f) # R') = (s, e\<lparr>ce_end := ce_end f\<rparr>) # R'"
    using m by (simp add: merge_next_def)
  have ids: "ce_chunk_id f = ce_chunk_id e" using m by (simp add: mergeable_def)
  consider "x < t" | "t \<le> x" by force
  then show ?thesis
  proof cases
    case 1
    with ord have "x < ce_end f" by simp
    with 1 ord show ?thesis unfolding p R step by (auto simp: not_le)
  next
    case 2
    with ord have "s \<le> x" by simp
    with 2 ord ring ids show ?thesis unfolding p R step by (auto simp: not_less)
  qed
qed (auto simp: merge_next_def split: list.splits)

lemma coalesced_Cons:
  "coalesced (p # R) \<longleftrightarrow> (R = [] \<or> \<not> mergeable p (hd R)) \<and> coalesced R"
  by (cases R) auto

lemma coalesced_append:
  "coalesced (L @ R) \<longleftrightarrow>
    coalesced L \<and> coalesced R \<and> (L = [] \<or> R = [] \<or> \<not> mergeable (last L) (hd R))"
  by (induction L rule: coalesced.induct) (auto simp: coalesced_Cons)

lemma coalesced_merge_next: "coalesced R \<Longrightarrow> coalesced (merge_next p R)"
  by (cases p) (auto simp: merge_next_def coalesced_Cons mergeable_grow_left split: list.splits)

lemma mergeable_hd_merge_next: "mergeable g (hd (merge_next p R)) = mergeable g p"
  by (cases p) (auto simp: merge_next_def mergeable_grow_right split: list.splits)

section \<open>Inserting a range\<close>

text \<open>The entry list \<open>insert\<close> leaves, for a range that is not clipped away.\<close>

definition insert_entries ::
  "u64 \<Rightarrow> u64 \<Rightarrow> content_id \<Rightarrow> usize \<Rightarrow> (u64 \<times> chunk_entry) list \<Rightarrow> (u64 \<times> chunk_entry) list" where
  "insert_entries a b cid coff es =
     (let es2 = bt_insert a \<lparr>ce_end = b, ce_chunk_id = cid, ce_chunk_offset = coff\<rparr>
                  (remove_range a b es);
          es3 = try_merge_at a es2
      in case bt_below a es3 of Some (s, _) \<Rightarrow> try_merge_at s es3 | None \<Rightarrow> es3)"

lemma bounded_by_append: "bounded_by n (L @ R) \<longleftrightarrow> bounded_by n L \<and> bounded_by n R"
  by (auto simp: bounded_by_def)

lemma bounded_by_Cons: "bounded_by n (p # R) \<longleftrightarrow> ce_end (snd p) \<le> n \<and> bounded_by n R"
  by (cases p) (auto simp: bounded_by_def)

lemma insert_entries_shape:
  assumes d: "disjoint_from 0 es" and ab: "a < b"
  obtains L R where "cut a b es = L @ R"
    and "disjoint_from 0 (L @ (a, \<lparr>ce_end = b, ce_chunk_id = cid, ce_chunk_offset = coff\<rparr>) # R)"
    and "insert_entries a b cid coff es =
      (let q = merge_next (a, \<lparr>ce_end = b, ce_chunk_id = cid, ce_chunk_offset = coff\<rparr>) R
       in if L = [] then q else butlast L @ merge_next (last L) q)"
proof -
  let ?v = "\<lparr>ce_end = b, ce_chunk_id = cid, ce_chunk_offset = coff\<rparr>"
  have dc: "disjoint_from 0 (cut a b es)" by (rule disjoint_cut [OF ab d])
  then obtain L R where LR: "cut a b es = L @ R"
    and L: "\<forall>(s, e) \<in> set L. ce_end e \<le> a" and R: "\<forall>(s, e) \<in> set R. b \<le> s"
    using gap_split [OF dc, of a b] ab cut_gap [OF ab d] by (auto intro: less_imp_le)
  from dc LR have dL: "disjoint_from 0 L" and dR: "disjoint_from (end_of 0 L) R"
    by (simp_all add: disjoint_append)
  have "end_of 0 L \<le> a"
    using L by (cases L rule: rev_cases) auto
  moreover have "disjoint_from b R" using dR R by (cases R) auto
  ultimately have d2: "disjoint_from 0 (L @ (a, ?v) # R)"
    using dL ab by (simp add: disjoint_append)
  then have ok2: "bt_ok (L @ (a, ?v) # R)" by (rule disjoint_bt_ok)
  have below: "\<forall>p \<in> set L. fst p < a" and above: "\<forall>p \<in> set R. a < fst p"
    using ok2 by (auto simp: sorted_wrt_append)
  have okLR: "bt_ok (L @ R)" using dc unfolding LR by (rule disjoint_bt_ok)
  have es2: "bt_insert a ?v (remove_range a b es) = L @ (a, ?v) # R"
    by (simp only: remove_range_cut [OF d ab] LR bt_insert_middle [OF okLR below above])
  obtain v' R' where q: "merge_next (a, ?v) R = (a, v') # R'" using merge_next_shape by blast
  have ok3: "bt_ok (L @ (a, v') # R')"
    using disjoint_bt_ok [OF end_of_merge [OF d2]] by (simp only: q)
  have es3: "try_merge_at a (L @ (a, ?v) # R) = L @ (a, v') # R'"
    by (simp only: try_merge_middle [OF ok2] q)
  have "insert_entries a b cid coff es =
      (if L = [] then (a, v') # R' else butlast L @ merge_next (last L) ((a, v') # R'))"
  proof (cases L rule: rev_cases)
    case Nil
    with es2 es3 bt_below_middle [OF ok3] show ?thesis
      by (simp add: insert_entries_def)
  next
    case (snoc L' p)
    obtain s e where p: "p = (s, e)" by (cases p)
    from ok3 snoc p have "bt_ok (L' @ (s, e) # (a, v') # R')" by simp
    from try_merge_middle [OF this] es2 es3 bt_below_middle [OF ok3] snoc p show ?thesis
      by (simp add: insert_entries_def)
  qed
  then have "insert_entries a b cid coff es =
      (let q = merge_next (a, ?v) R in if L = [] then q else butlast L @ merge_next (last L) q)"
    by (simp only: Let_def q)
  with LR d2 show thesis by (rule that)
qed

lemma insert_entries_correct:
  assumes d: "disjoint_from 0 es" and ab: "a < b"
  shows "disjoint_from 0 (insert_entries a b cid coff es)"
    and "coalesced es \<Longrightarrow> coalesced (insert_entries a b cid coff es)"
    and "bounded_by n es \<Longrightarrow> b \<le> n \<Longrightarrow> bounded_by n (insert_entries a b cid coff es)"
    and "entries_at (insert_entries a b cid coff es) x =
      (if a \<le> x \<and> x < b then Some (cid, coff + (x - a)) else entries_at es x)"
proof -
  let ?p = "(a, \<lparr>ce_end = b, ce_chunk_id = cid, ce_chunk_offset = coff\<rparr>)"
  obtain L R where LR: "cut a b es = L @ R" and d2: "disjoint_from 0 (L @ ?p # R)"
    and ins: "insert_entries a b cid coff es =
      (let q = merge_next ?p R in if L = [] then q else butlast L @ merge_next (last L) q)"
    by (rule insert_entries_shape [OF d ab])
  have d3: "disjoint_from 0 (L @ merge_next ?p R)" by (rule end_of_merge [OF d2])
  have shape: "insert_entries a b cid coff es =
      (if L = [] then merge_next ?p R
       else butlast L @ merge_next (last L) (merge_next ?p R))"
    by (simp only: ins Let_def)
  have split: "L = butlast L @ [last L]" if "L \<noteq> []" using that by simp
  have d3': "disjoint_from 0 (butlast L @ last L # merge_next ?p R)" if "L \<noteq> []"
    using d3 split [OF that] by (metis append.assoc append_Cons append_Nil)
  show "disjoint_from 0 (insert_entries a b cid coff es)"
    using d3 end_of_merge [OF d3'] by (auto simp: shape)
  {
    assume "coalesced es"
    then have "coalesced (L @ R)" using coalesced_cut [OF ab d] LR by simp
    then have c: "coalesced L" "coalesced R" by (simp_all add: coalesced_append)
    then have q: "coalesced (merge_next ?p R)" by (simp add: coalesced_merge_next)
    moreover have "coalesced (butlast L @ merge_next (last L) (merge_next ?p R))" if "L \<noteq> []"
    proof -
      from c(1) split [OF that] have "coalesced (butlast L @ [last L])" by simp
      then show ?thesis
        using coalesced_merge_next [OF q, of "last L"]
        by (auto simp: coalesced_append mergeable_hd_merge_next)
    qed
    ultimately show "coalesced (insert_entries a b cid coff es)" by (simp add: shape)
  }
  {
    assume "bounded_by n es" and "b \<le> n"
    then have "bounded_by n (L @ R)" using bounded_cut [of n es a b] LR by simp
    with \<open>b \<le> n\<close> have b: "bounded_by n L" "bounded_by n (?p # R)"
      by (auto simp: bounded_by_def)
    then have q: "bounded_by n (merge_next ?p R)" by (simp add: bounded_merge_next)
    moreover have "bounded_by n (butlast L @ merge_next (last L) (merge_next ?p R))" if "L \<noteq> []"
    proof -
      from b(1) split [OF that] have "bounded_by n (butlast L @ [last L])" by simp
      then have "bounded_by n (butlast L)" "bounded_by n (last L # merge_next ?p R)"
        using q by (simp_all add: bounded_by_append bounded_by_Cons)
      then show ?thesis by (simp add: bounded_by_append bounded_merge_next)
    qed
    ultimately show "bounded_by n (insert_entries a b cid coff es)" by (simp add: shape)
  }
  have "entries_at (insert_entries a b cid coff es) x = entries_at (L @ merge_next ?p R) x"
  proof (cases "L = []")
    case False
    have "entries_at (merge_next (last L) (merge_next ?p R)) x = entries_at (last L # merge_next ?p R) x"
      using d3' [OF False] by (auto simp: disjoint_append intro: entries_at_merge_next)
    then have "entries_at (butlast L @ merge_next (last L) (merge_next ?p R)) x =
        entries_at (butlast L @ [last L] @ merge_next ?p R) x"
      by (simp add: entries_at_append split: option.split)
    also have "butlast L @ [last L] @ merge_next ?p R = L @ merge_next ?p R"
      using False by (metis append_assoc append_butlast_last_id)
    finally show ?thesis using False by (simp add: shape)
  qed (simp add: shape)
  also have "\<dots> = entries_at (L @ ?p # R) x"
    using d2 entries_at_merge_next [of "end_of 0 L" ?p R x]
    by (simp only: disjoint_append entries_at_append)
  also have "\<dots> = (if a \<le> x \<and> x < b then Some (cid, coff + (x - a)) else entries_at (cut a b es) x)"
  proof (cases "a \<le> x \<and> x < b")
    case True
    have "disjoint_from 0 L" "end_of 0 L \<le> a" using d2 by (auto simp: disjoint_append)
    then have "entries_at L x = None"
      using entries_at_outside [of 0 L x] True by auto
    with True show ?thesis by (simp add: entries_at_append)
  next
    case False
    then show ?thesis by (auto simp: LR entries_at_append split: option.split)
  qed
  finally show "entries_at (insert_entries a b cid coff es) x =
      (if a \<le> x \<and> x < b then Some (cid, coff + (x - a)) else entries_at es x)"
    by (simp add: entries_at_cut [OF ab d])
qed

lemma cm_insert_entries:
  "cm_insert offset len cid coff m =
    (if len = 0 \<or> cm_len m \<le> offset then m
     else m\<lparr>cm_entries := insert_entries offset (min (saturating_add offset len) (cm_len m))
                cid coff (cm_entries m)\<rparr>)"
proof (cases "len = 0 \<or> cm_len m \<le> offset")
  case False
  then have "unat offset < unat (saturating_add offset len)"
    using u64_bound [of "cm_len m"]
    by (simp add: unat_saturating_add word_le_nat_alt not_le unat_gt_0)
  with False have "\<not> min (saturating_add offset len) (cm_len m) \<le> offset"
    by (auto simp: min_def word_le_nat_alt)
  with False show ?thesis by (simp add: cm_insert_def insert_entries_def Let_def)
qed (auto simp: cm_insert_def Let_def)

lemma insert_bounds:
  assumes "len \<noteq> 0" and "offset < cm_len m"
  shows "offset < min (saturating_add offset len) (cm_len m)"
proof -
  have "unat offset < unat (saturating_add offset len)"
    using assms u64_bound [of "cm_len m"]
    by (simp add: unat_saturating_add word_less_nat_alt unat_gt_0)
  with assms show ?thesis by (simp add: word_less_nat_alt)
qed

section \<open>Looking up an offset\<close>

lemma bt_above_None: "bt_above k ps = None \<longleftrightarrow> (\<forall>p \<in> set ps. \<not> k < fst p)"
  by (cases "filter (\<lambda>p. k < fst p) ps")
    (auto simp: bt_above_def first_opt_def filter_empty_conv dest!: filter_eq_ConsD)

lemma bt_floor_None: "bt_floor k ps = None \<longleftrightarrow> (\<forall>p \<in> set ps. \<not> fst p \<le> k)"
  by (auto simp: bt_floor_def filter_empty_conv)

lemma bt_floor_memD:
  assumes "bt_ok ps" and "bt_floor k ps = Some (a, v)"
  shows "(a, v) \<in> set ps" and "a \<le> k" and "(c, w) \<in> set ps \<Longrightarrow> c \<le> k \<Longrightarrow> c \<le> a"
proof -
  from bt_floor_Some [OF assms(1), of k a v] assms(2)
  have r: "map_of ps a = Some v" "a \<le> k" "\<And>c. c \<in> dom (map_of ps) \<Longrightarrow> c \<le> k \<Longrightarrow> c \<le> a" by auto
  from r(1) show "(a, v) \<in> set ps" by (rule map_of_SomeD)
  show "a \<le> k" by (rule r(2))
  show "(c, w) \<in> set ps \<Longrightarrow> c \<le> k \<Longrightarrow> c \<le> a"
    using r(3) [of c] by (force simp: dom_map_of_conv_image_fst)
qed

lemma bt_above_memD:
  assumes "bt_ok ps" and "bt_above k ps = Some (a, v)"
  shows "(a, v) \<in> set ps" and "k < a" and "(c, w) \<in> set ps \<Longrightarrow> k < c \<Longrightarrow> a \<le> c"
proof -
  from bt_above_Some [OF assms(1), of k a v] assms(2)
  have r: "map_of ps a = Some v" "k < a" "\<And>c. c \<in> dom (map_of ps) \<Longrightarrow> k < c \<Longrightarrow> a \<le> c" by auto
  from r(1) show "(a, v) \<in> set ps" by (rule map_of_SomeD)
  show "k < a" by (rule r(2))
  show "(c, w) \<in> set ps \<Longrightarrow> k < c \<Longrightarrow> a \<le> c"
    using r(3) [of c] by (force simp: dom_map_of_conv_image_fst)
qed

lemma hole_unmapped:
  assumes "disjoint_from lo es"
    and "\<And>s e. (s, e) \<in> set es \<Longrightarrow> s \<le> x \<Longrightarrow> ce_end e \<le> x"
    and "\<And>s e. (s, e) \<in> set es \<Longrightarrow> x < s \<Longrightarrow> h \<le> s"
    and "x \<le> y" and "y < h"
  shows "entries_at es y = None"
proof -
  have "\<not> (s \<le> y \<and> y < ce_end e)" if se: "(s, e) \<in> set es" for s e
    using assms(2,3) [OF se] assms(4,5) by (cases "s \<le> x") (auto simp: not_le)
  then show ?thesis by (auto simp: entries_at_None [OF assms(1)])
qed

lemma add_within: "x < h \<Longrightarrow> i < h - x \<Longrightarrow> x \<le> x + i \<and> x + i < (h :: u64)"
  using add_ge_start [of x h i] add_less_end [of x h i] by simp

lemma hole_end_cases:
  assumes d: "disjoint_from 0 es" and x: "x < n"
  defines "h \<equiv> (case bt_above x es of Some (s, _) \<Rightarrow> min s n | None \<Rightarrow> n)"
  shows "x < h" and "h \<le> n" and "(s, e) \<in> set es \<Longrightarrow> x < s \<Longrightarrow> h \<le> s"
proof -
  note ok = disjoint_bt_ok [OF d]
  show "x < h" using x bt_above_memD(2) [OF ok, of x] by (auto simp: h_def split: option.splits)
  show "h \<le> n" by (auto simp: h_def split: option.splits)
  show "(s, e) \<in> set es \<Longrightarrow> x < s \<Longrightarrow> h \<le> s"
    using bt_above_memD(3) [OF ok, of x _ _ s e]
    by (fastforce simp: h_def bt_above_None min.coboundedI1 split: option.splits)
qed

lemma floor_covers:
  assumes d: "disjoint_from 0 es" and f: "bt_floor x es = Some (s, e)" and "ce_end e \<le> x"
    and te: "(t, f) \<in> set es" "t \<le> x"
  shows "ce_end f \<le> x"
proof -
  note ok = disjoint_bt_ok [OF d]
  note F = bt_floor_memD [OF ok f]
  from F(3) [OF te] consider "t = s" | "t < s" by force
  then show ?thesis
  proof cases
    case 1
    with F(1) te(1) bt_ok_distinct [OF ok] have "f = e" by (auto dest: eq_key_imp_eq_value)
    with assms(3) show ?thesis by simp
  next
    case 2
    from disjoint_pairs [OF d te(1) F(1) 2] F(2) show ?thesis by simp
  qed
qed

lemma cm_get_run:
  assumes "cm_wf m"
  shows "case cm_get x m of
      None \<Rightarrow> cm_len m \<le> x
    | Some r \<Rightarrow> x < cm_len m \<and> 0 < cme_len r \<and> cme_len r \<le> cm_len m - x
        \<and> (\<forall>i < cme_len r. cm_at m (x + i) =
              (case r of CChunk cid off _ \<Rightarrow> Some (cid, off + i) | CHole _ \<Rightarrow> None))"
proof (cases "cm_len m \<le> x")
  case False
  let ?es = "cm_entries m"
  from assms have d: "disjoint_from 0 ?es" and bd: "bounded_by (cm_len m) ?es"
    by (auto simp: cm_wf_def)
  note ok = disjoint_bt_ok [OF d]
  from False have x: "x < cm_len m" by simp
  define h where "h = (case bt_above x ?es of Some (s, _) \<Rightarrow> min s (cm_len m) | None \<Rightarrow> cm_len m)"
  note H = hole_end_cases [OF d x, folded h_def]
  have hole: ?thesis
    if got: "cm_get x m = Some (CHole (h - x))"
      and nc: "\<And>s e. (s, e) \<in> set ?es \<Longrightarrow> s \<le> x \<Longrightarrow> ce_end e \<le> x"
  proof -
    have "cm_at m (x + i) = None" if "i < h - x" for i
      using add_within [OF H(1) that] hole_unmapped [OF d nc H(3)] by (simp add: cm_at_def)
    moreover have "0 < h - x" "h - x \<le> cm_len m - x"
      using H(1,2) x by (simp_all add: word_less_nat_alt word_le_nat_alt unat_sub)
    ultimately show ?thesis using got x by simp
  qed
  show ?thesis
  proof (cases "bt_floor x ?es")
    case None
    show ?thesis
    proof (rule hole)
      show "cm_get x m = Some (CHole (h - x))"
        using False None by (simp add: cm_get_def h_def Let_def)
    qed (use None in \<open>auto simp: bt_floor_None\<close>)
  next
    case (Some se)
    obtain s e where se: "se = (s, e)" by (cases se)
    with Some have fl: "bt_floor x ?es = Some (s, e)" by simp
    note F = bt_floor_memD [OF ok fl]
    show ?thesis
    proof (cases "x < ce_end e")
      case True
      have got: "cm_get x m =
          Some (CChunk (ce_chunk_id e) (ce_chunk_offset e + (x - s)) (ce_end e - x))"
        using False fl True by (simp add: cm_get_def Let_def)
      have "cm_at m (x + i) = Some (ce_chunk_id e, ce_chunk_offset e + (x - s) + i)"
        if "i < ce_end e - x" for i
      proof -
        have "s \<le> x + i" "x + i < ce_end e" using add_within [OF True that] F(2) by auto
        then have "entries_at ?es (x + i) = Some (ce_chunk_id e, ce_chunk_offset e + (x + i - s))"
          using F(1) by (subst entries_at_Some [OF d]) auto
        then show ?thesis by (simp add: cm_at_def algebra_simps)
      qed
      moreover have "ce_end e \<le> cm_len m" using bd F(1) by (auto simp: bounded_by_def)
      then have "0 < ce_end e - x" "ce_end e - x \<le> cm_len m - x"
        using True x by (simp_all add: word_less_nat_alt word_le_nat_alt unat_sub)
      ultimately show ?thesis using got x by simp
    next
      case nend: False
      show ?thesis
      proof (rule hole)
        show "cm_get x m = Some (CHole (h - x))"
          using False fl nend by (simp add: cm_get_def h_def Let_def)
        show "\<And>t f. (t, f) \<in> set ?es \<Longrightarrow> t \<le> x \<Longrightarrow> ce_end f \<le> x"
          using floor_covers [OF d fl] nend by simp
      qed
    qed
  qed
qed (simp add: cm_get_def)


text \<open>A small map used as the concrete input of the witnesses below.\<close>

definition demo_map :: chunk_map where
  "demo_map = cm_insert 6 4 [2] 0 (cm_insert 2 4 [1] 3 (with_len 12))"

lemma demo_map_eq: "demo_map = \<lparr>cm_len = 12, cm_entries =
    [(2, \<lparr>ce_end = 6, ce_chunk_id = [1], ce_chunk_offset = 3\<rparr>),
     (6, \<lparr>ce_end = 10, ce_chunk_id = [2], ce_chunk_offset = 0\<rparr>)]\<rparr>"
  by code_simp

lemma demo_map_wf: "cm_wf demo_map"
  by (simp add: demo_map_eq cm_wf_def bounded_by_def mergeable_def)


section \<open>What the mutators do to the view\<close>

lemma cm_wf_with_len [wf_intros]: "cm_wf (with_len n)"
  by (simp add: cm_wf_def with_len_def bounded_by_def)

lemma cm_wf_new [wf_intros]: "cm_wf cm_new"
  by (simp add: cm_wf_def cm_new_def bounded_by_def)

lemma cm_at_with_len [view_simps]: "cm_at (with_len n) x = None"
  by (simp add: cm_at_def with_len_def)

lemma cm_len_with_len [simp]: "cm_len (with_len n) = n"
  by (simp add: with_len_def)

lemma cm_len_insert [simp]: "cm_len (cm_insert off l cid f m) = cm_len m"
  by (simp add: cm_insert_entries)

lemma cm_wf_insert [wf_intros]: "cm_wf m \<Longrightarrow> cm_wf (cm_insert offset len cid coff m)"
  using insert_entries_correct(1,2,3) [of "cm_entries m"] insert_bounds [of len offset m]
  by (auto simp: cm_insert_entries cm_wf_def)

lemma cm_at_insert [view_simps]:
  assumes "cm_wf m"
  shows "cm_at (cm_insert offset len cid coff m) x =
    (if len \<noteq> 0 \<and> offset \<le> x \<and> x < min (saturating_add offset len) (cm_len m)
     then Some (cid, coff + (x - offset)) else cm_at m x)"
proof (cases "len = 0 \<or> cm_len m \<le> offset")
  case False
  then have "len \<noteq> 0" "offset < cm_len m" by auto
  with insert_bounds [OF this] assms show ?thesis
    using insert_entries_correct(4) [of "cm_entries m" offset
        "min (saturating_add offset len) (cm_len m)" cid coff x]
    by (auto simp: cm_insert_entries cm_at_def cm_wf_def)
next
  case True
  then have "\<not> (len \<noteq> 0 \<and> offset \<le> x \<and> x < min (saturating_add offset len) (cm_len m))"
    by (auto dest: le_less_trans)
  with True show ?thesis by (auto simp: cm_insert_entries)
qed

lemma cm_at_beyond: "cm_wf m \<Longrightarrow> cm_len m \<le> x \<Longrightarrow> cm_at m x = None"
  by (fastforce simp: cm_wf_def cm_at_def bounded_by_def entries_at_None)

lemma cm_set_len_cut:
  "cm_wf m \<Longrightarrow> cm_set_len n m = \<lparr>cm_len = n,
     cm_entries = (if n < cm_len m then cut n (cm_len m) (cm_entries m) else cm_entries m)\<rparr>"
  using remove_range_cut [of 0 "cm_entries m" n "cm_len m"]
  by (simp add: cm_set_len_def cm_wf_def)

lemma bounded_by_mono: "bounded_by n es \<Longrightarrow> n \<le> k \<Longrightarrow> bounded_by k es"
  by (fastforce simp: bounded_by_def)

lemma cm_wf_set_len [wf_intros]: "cm_wf m \<Longrightarrow> cm_wf (cm_set_len n m)"
  by (auto simp: cm_set_len_cut)
    (auto simp: cm_wf_def disjoint_cut coalesced_cut [where lo = 0] bounded_cut_below [where lo = 0] not_less elim: bounded_by_mono)

lemma cm_len_set_len [simp]: "cm_len (cm_set_len n m) = n"
  by (simp add: cm_set_len_def Let_def)

lemma cm_at_set_len [view_simps]:
  assumes "cm_wf m"
  shows "cm_at (cm_set_len n m) x = (if x < n then cm_at m x else None)"
proof (cases "n < cm_len m")
  case True
  then have "cm_at (cm_set_len n m) x =
      (if n \<le> x \<and> x < cm_len m then None else cm_at m x)"
    using assms entries_at_cut [of n "cm_len m" 0 "cm_entries m" x]
    by (simp add: cm_set_len_cut cm_at_def cm_wf_def)
  with cm_at_beyond [OF assms, of x] show ?thesis by (auto simp: not_less)
next
  case False
  then have "cm_at (cm_set_len n m) x = cm_at m x"
    using assms by (simp add: cm_set_len_cut cm_at_def)
  with cm_at_beyond [OF assms, of x] False show ?thesis by (auto simp: not_less)
qed

lemma cm_remove_cut:
  assumes "cm_wf m" and "len \<noteq> 0" and "offset < cm_len m"
  shows "cm_remove offset len m = m\<lparr>cm_entries :=
    cut offset (min (saturating_add offset len) (cm_len m)) (cm_entries m)\<rparr>"
  using assms insert_bounds [OF assms(2,3)] remove_range_cut [of 0 "cm_entries m" offset]
  by (simp add: cm_remove_def cm_wf_def Let_def)

lemma cm_wf_remove [wf_intros]:
  assumes "cm_wf m"
  shows "cm_wf (cm_remove offset len m)"
proof (cases "len = 0 \<or> cm_len m \<le> offset")
  case False
  then have "len \<noteq> 0" "offset < cm_len m" by auto
  with insert_bounds [OF this] assms show ?thesis
    by (simp add: cm_remove_cut) (simp add: cm_wf_def disjoint_cut coalesced_cut [where lo = 0] bounded_cut)
qed (use assms in \<open>auto simp: cm_remove_def\<close>)

lemma cm_at_remove [view_simps]:
  assumes "cm_wf m"
  shows "cm_at (cm_remove offset len m) x =
    (if len \<noteq> 0 \<and> offset \<le> x \<and> x < min (saturating_add offset len) (cm_len m)
     then None else cm_at m x)"
proof (cases "len = 0 \<or> cm_len m \<le> offset")
  case False
  then have "len \<noteq> 0" "offset < cm_len m" by auto
  with insert_bounds [OF this] assms
    entries_at_cut [of offset "min (saturating_add offset len) (cm_len m)" 0 "cm_entries m" x]
  show ?thesis by (simp add: cm_remove_cut cm_at_def cm_wf_def)
next
  case True
  then have "\<not> (len \<noteq> 0 \<and> offset \<le> x \<and> x < min (saturating_add offset len) (cm_len m))"
    by (auto dest: le_less_trans)
  with True show ?thesis by (auto simp: cm_remove_def)
qed

section \<open>The entry list is determined by the view\<close>

lemma entries_eq_if_same_view:
  assumes "disjoint_from lo es" and "disjoint_from lo fs" and "coalesced es" and "coalesced fs"
    and "\<And>x. entries_at es x = entries_at fs x"
  shows "es = fs"
  using assms
proof (induction es arbitrary: fs lo)
  case Nil
  show ?case
  proof (cases fs)
    case (Cons q fs')
    obtain t f where "q = (t, f)" by (cases q)
    with Nil(2) Nil(5) [of t] Cons show ?thesis by auto
  qed simp
next
  case (Cons p es)
  obtain s e where p: "p = (s, e)" by (cases p)
  from Cons.prems(1) p have se: "s < ce_end e" and des: "disjoint_from (ce_end e) es" by auto
  have ne: "fs \<noteq> []" using Cons.prems(5) [of s] p se by auto
  then obtain t f fs' where fs: "fs = (t, f) # fs'" by (cases fs) auto
  from Cons.prems(2) fs have tf: "t < ce_end f" and dfs: "disjoint_from (ce_end f) fs'" by auto
  have none: "entries_at gs x = None" if "disjoint_from (ce_end g) gs" "x < u" "u < ce_end g"
    for gs g u x using that entries_at_outside [of "ce_end g" gs x] less_trans [of x u "ce_end g"] by blast
  have st: "s = t"
  proof (rule ccontr)
    assume "s \<noteq> t"
    then consider "s < t" | "t < s" by force
    then show False
    proof cases
      case 1
      with none [OF dfs 1 tf] Cons.prems(5) [of s] p se fs show False by (auto split: if_splits)
    next
      case 2
      with none [OF des 2 se] Cons.prems(5) [of t] p tf fs show False by (auto split: if_splits)
    qed
  qed
  from Cons.prems(5) [of s] p se fs tf st
  have ids: "ce_chunk_id e = ce_chunk_id f" "ce_chunk_offset e = ce_chunk_offset f" by auto
  have longer: False
    if d: "disjoint_from (ce_end a) as" and c: "coalesced ((s, a) # as)"
      and lt: "ce_end a < ce_end b" and sa: "s < ce_end a"
      and ids: "ce_chunk_id a = ce_chunk_id b" "ce_chunk_offset a = ce_chunk_offset b"
      and same: "entries_at ((s, a) # as) (ce_end a) = entries_at ((s, b) # bs) (ce_end a)"
    for a b as bs
  proof -
    have "entries_at as (ce_end a) = Some (ce_chunk_id a, ce_chunk_offset a + (ce_end a - s))"
      using same lt sa ids by auto
    then obtain u g where ug: "(u, g) \<in> set as" "u \<le> ce_end a"
        "ce_chunk_id g = ce_chunk_id a"
        "ce_chunk_offset g + (ce_end a - u) = ce_chunk_offset a + (ce_end a - s)"
      by (auto simp: entries_at_Some [OF d])
    with disjoint_start [OF d ug(1)] have "u = ce_end a" by simp
    with ug have "mergeable (s, a) (u, g)" by (simp add: mergeable_def)
    moreover have "disjoint_from s ((s, a) # as)" using d sa by simp
    note coalesced_iff [OF this]
    ultimately show False using c ug(1) by auto
  qed
  have same: "entries_at ((s, e) # es) x = entries_at ((s, f) # fs') x" for x
    using Cons.prems(5) [of x] unfolding p fs st .
  have cof: "coalesced ((s, e) # es)" "coalesced ((s, f) # fs')" and sf: "s < ce_end f"
    using Cons.prems(3,4) tf unfolding p fs st by auto
  have "ce_end e = ce_end f"
  proof (rule ccontr)
    assume "ce_end e \<noteq> ce_end f"
    then consider "ce_end e < ce_end f" | "ce_end f < ce_end e" by force
    then show False
    proof cases
      case 1
      show False
        by (rule longer [OF des cof(1) 1 se ids same])
    next
      case 2
      show False
        by (rule longer [OF dfs cof(2) 2 sf ids [symmetric] same [symmetric]])
    qed
  qed
  with ids have ef: "e = f" by simp
  have "entries_at es x = entries_at fs' x" for x
  proof (cases "x < ce_end e")
    case True
    then show ?thesis
      using entries_at_outside [OF des, of x] entries_at_outside [OF dfs, of x] ef by simp
  next
    case False
    with Cons.prems(5) [of x] p fs ef st show ?thesis by simp
  qed
  with Cons.IH [of "ce_end e" fs'] des dfs ef Cons.prems(3,4) p fs have "es = fs'"
    by (auto simp: coalesced_Cons)
  with p fs st ef show ?case by simp
qed

lemma chunk_map_canonical_aux:
  assumes "cm_wf m" and "cm_wf m'" and "cm_len m = cm_len m'" and "\<forall>x. cm_at m x = cm_at m' x"
  shows "m = m'"
proof -
  have "cm_entries m = cm_entries m'"
    using assms by (intro entries_eq_if_same_view [of 0]) (auto simp: cm_wf_def cm_at_def)
  with assms(3) show ?thesis by simp
qed



section \<open>Rebuilding a map from its ranges\<close>

text \<open>
  What both \<open>Blob::try_from_flatbuffer\<close> and \<open>Transaction::blob_by_id\<close> do with stored
  ranges: start from an empty map of the stored length and insert them in order.
\<close>

definition insert_range :: "chunk_range \<Rightarrow> chunk_map \<Rightarrow> chunk_map" where
  "insert_range r m = cm_insert (cr_offset r) (cr_len r) (cr_chunk_id r) (cr_chunk_offset r) m"

definition rebuild :: "u64 \<Rightarrow> chunk_range list \<Rightarrow> chunk_map" where
  "rebuild n rs = fold insert_range rs (with_len n)"

lemma fold_insert_wf: "cm_wf m \<Longrightarrow> cm_wf (fold insert_range rs m)"
  by (induction rs arbitrary: m) (auto simp: insert_range_def wf_intros)

lemma fold_insert_len: "cm_len (fold insert_range rs m) = cm_len m"
  by (induction rs arbitrary: m) (auto simp: insert_range_def)

lemma rebuild_wf [wf_intros]: "cm_wf (rebuild n rs)"
  by (simp add: rebuild_def fold_insert_wf wf_intros)

lemma rebuild_len [simp]: "cm_len (rebuild n rs) = n"
  by (simp add: rebuild_def fold_insert_len)

lemma range_end:
  assumes "s < e" and "e \<le> n"
  shows "min (saturating_add s (e - s)) n = e" and "e - s \<noteq> 0"
proof -
  have "unat s + unat (e - s) = unat e"
    using assms by (simp add: unat_sub less_imp_le) (simp add: word_less_nat_alt)
  then have "unat s + unat (e - s) < 2 ^ 64" using u64_bound [of e] by simp
  then have "saturating_add s (e - s) = e" by (simp add: saturating_add_exact)
  with assms show "min (saturating_add s (e - s)) n = e" by (simp add: min_def)
  show "e - s \<noteq> 0" using assms by auto
qed

lemma fold_insert_view:
  assumes "cm_wf m" and "disjoint_from lo es" and "bounded_by (cm_len m) es"
  shows "cm_at (fold insert_range (cm_iter \<lparr>cm_len = n, cm_entries = es\<rparr>) m) x =
    (case entries_at es x of None \<Rightarrow> cm_at m x | Some v \<Rightarrow> Some v)"
  using assms
proof (induction es arbitrary: m lo)
  case (Cons p es)
  obtain s e where p: "p = (s, e)" by (cases p)
  from Cons.prems p have se: "s < ce_end e" "ce_end e \<le> cm_len m"
    and d: "disjoint_from (ce_end e) es" and b: "bounded_by (cm_len m) es"
    by (auto simp: bounded_by_Cons)
  let ?m = "cm_insert s (ce_end e - s) (ce_chunk_id e) (ce_chunk_offset e) m"
  have wf: "cm_wf ?m" and len: "cm_len ?m = cm_len m" using Cons.prems(1) by (simp_all add: wf_intros)
  have at: "cm_at ?m x = (if s \<le> x \<and> x < ce_end e
      then Some (ce_chunk_id e, ce_chunk_offset e + (x - s)) else cm_at m x)"
    using range_end [OF se] by (simp only: cm_at_insert [OF Cons.prems(1)]) simp
  have IH: "cm_at (fold insert_range (cm_iter \<lparr>cm_len = n, cm_entries = es\<rparr>) ?m) x =
      (case entries_at es x of None \<Rightarrow> cm_at ?m x | Some v \<Rightarrow> Some v)"
    using Cons.IH [OF wf d] b len by simp
  have "entries_at es x = None" if "x < ce_end e" using entries_at_outside [OF d] that by blast
  moreover have "fold insert_range (cm_iter \<lparr>cm_len = n, cm_entries = p # es\<rparr>) m =
      fold insert_range (cm_iter \<lparr>cm_len = n, cm_entries = es\<rparr>) ?m"
    by (simp add: p cm_iter_def insert_range_def)
  ultimately show ?case
    unfolding p entries_at.simps IH at
    by (cases "s \<le> x \<and> x < ce_end e") (auto simp: IH at split: option.split)
qed (simp add: cm_iter_def)

lemma rebuild_view:
  assumes "cm_wf m"
  shows "cm_at (rebuild (cm_len m) (cm_iter m)) x = cm_at m x"
proof -
  have m: "\<lparr>cm_len = cm_len m, cm_entries = cm_entries m\<rparr> = m" by (cases m) simp
  show ?thesis
    using fold_insert_view [OF cm_wf_with_len, of 0 "cm_entries m" "cm_len m" "cm_len m" x] assms
    unfolding m rebuild_def cm_wf_def cm_at_with_len cm_at_def [of m]
    by (simp split: option.splits)
qed

lemma rebuild_iter: "cm_wf m \<Longrightarrow> rebuild (cm_len m) (cm_iter m) = m"
  by (rule chunk_map_canonical_aux) (simp_all add: rebuild_view wf_intros)

text \<open>
  C14: storing a chunk map as the list of its ranges and inserting them back into an empty
  map of the same length gives the same map; and the ranges of a rebuilt map, stored and
  rebuilt again, change nothing, even when the ranges came from elsewhere and overlapped.
\<close>

theorem rebuild_roundtrip:
  "(cm_wf m \<longrightarrow> rebuild (cm_len m) (cm_iter m) = m)
   \<and> cm_wf (rebuild n rs) \<and> rebuild n (cm_iter (rebuild n rs)) = rebuild n rs"
  using rebuild_iter [of m] rebuild_iter [OF rebuild_wf, of n rs] by (simp add: rebuild_wf)

theorem rebuild_roundtrip_witness:
  "rebuild 12 [\<lparr>cr_offset = 2, cr_len = 4, cr_chunk_id = [1], cr_chunk_offset = 3\<rparr>,
               \<lparr>cr_offset = 6, cr_len = 4, cr_chunk_id = [2], cr_chunk_offset = 0\<rparr>] = demo_map"
  using rebuild_roundtrip [of demo_map] demo_map_wf
  by (simp add: demo_map_eq cm_iter_def)

section \<open>The contract of the mutators\<close>

text \<open>
  C5: writing a range. The map stays well-formed and keeps its length; every offset inside
  the range, clipped to the file, now reads from the given chunk at the matching offset, and
  every other offset reads what it read before. An empty range, or one that starts at or
  past the end, changes nothing.
\<close>

theorem cm_insert_spec:
  fixes offset len :: u64 and cid :: content_id and coff :: usize
  assumes "cm_wf m" and m': "m' = cm_insert offset len cid coff m"
  shows "cm_wf m' \<and> cm_len m' = cm_len m
    \<and> (\<forall>x. cm_at m' x =
         (if unat offset \<le> unat x \<and> unat x < min (unat offset + unat len) (unat (cm_len m))
          then Some (cid, coff + (x - offset)) else cm_at m x))
    \<and> (len = 0 \<or> cm_len m \<le> offset \<longrightarrow> m' = m)"
proof (intro conjI allI impI)
  show "cm_wf m'" "cm_len m' = cm_len m" using assms by (simp_all add: wf_intros)
  fix x
  have "(len \<noteq> 0 \<and> offset \<le> x \<and> x < min (saturating_add offset len) (cm_len m)) \<longleftrightarrow>
      (unat offset \<le> unat x \<and> unat x < min (unat offset + unat len) (unat (cm_len m)))"
    using u64_bound [of x] u64_bound [of "cm_len m"]
    by (auto simp: word_less_nat_alt word_le_nat_alt min_def unat_saturating_add unat_eq_zero split: if_splits)
  then show "cm_at m' x =
      (if unat offset \<le> unat x \<and> unat x < min (unat offset + unat len) (unat (cm_len m))
       then Some (cid, coff + (x - offset)) else cm_at m x)"
    by (simp add: m' cm_at_insert [OF assms(1)])
next
  assume "len = 0 \<or> cm_len m \<le> offset"
  then show "m' = m" by (auto simp: m' cm_insert_def)
qed

theorem cm_insert_spec_witness:
  "cm_wf (cm_insert 4 100 [7] 1 demo_map) \<and> cm_len (cm_insert 4 100 [7] 1 demo_map) = 12
   \<and> cm_at (cm_insert 4 100 [7] 1 demo_map) 11 = Some ([7], 8)
   \<and> cm_at (cm_insert 4 100 [7] 1 demo_map) 3 = Some ([1], 4)"
  using cm_insert_spec [OF demo_map_wf refl, of 4 100 "[7]" 1]
  by (auto simp: demo_map_eq cm_at_def)

text \<open>
  C13: the loop of \<open>remove_range\<close>, which starts at the entry at or before the start, stops
  at the first entry past the end and edits the tree afterwards, computes exactly the
  entry-by-entry reference \<open>cut\<close>, on every ordered, disjoint entry list and every pair of
  bounds; and the cut list reads as before outside the range and nothing inside it.
\<close>

theorem remove_range_reference:
  assumes "disjoint_from 0 es"
  shows "remove_range a b es = (if b \<le> a then es else cut a b es)
    \<and> entries_at (remove_range a b es) x =
        (if a \<le> x \<and> x < b then None else entries_at es x)"
proof (cases "b \<le> a")
  case True
  then show ?thesis by (auto simp: remove_range_def)
next
  case False
  then show ?thesis
    using remove_range_cut [OF assms, of a b] entries_at_cut [of a b 0 es x] assms by simp
qed

theorem remove_range_reference_witness:
  "remove_range 4 8 (cm_entries demo_map) =
    [(2, \<lparr>ce_end = 4, ce_chunk_id = [1], ce_chunk_offset = 3\<rparr>),
     (8, \<lparr>ce_end = 10, ce_chunk_id = [2], ce_chunk_offset = 2\<rparr>)]
   \<and> entries_at (remove_range 4 8 (cm_entries demo_map)) 5 = None"
  using remove_range_reference [of "cm_entries demo_map" 4 8 5]
  by (simp add: demo_map_eq touched_def pieces_def)

text \<open>
  C26: resizing. The map stays well-formed and takes the new length; offsets below both
  lengths keep their bytes and all others are holes. So bytes cut off by a truncation do
  not come back when the file is extended again, in whatever order the resizes come.
\<close>

theorem cm_set_len_spec:
  assumes "cm_wf m"
  shows "cm_wf (cm_set_len n m) \<and> cm_len (cm_set_len n m) = n
    \<and> (\<forall>x. cm_at (cm_set_len n m) x = (if x < n \<and> x < cm_len m then cm_at m x else None))
    \<and> (a < n \<longrightarrow> a \<le> x \<longrightarrow> cm_at (cm_set_len n (cm_set_len a m)) x = None)"
  using assms cm_at_beyond [OF assms]
  by (auto simp: view_simps wf_intros not_less)

theorem cm_set_len_spec_witness:
  "cm_at demo_map 5 = Some ([1], 6) \<and> cm_at (cm_set_len 12 (cm_set_len 5 demo_map)) 5 = None"
  using cm_set_len_spec [OF demo_map_wf, of 12 5 5]
  by (simp add: demo_map_eq cm_at_def)

end
