(* ===== verification/Digest.thy ===== *)
theory Digest
  imports Prelude
begin

text \<open>
  Byte-level encodings the content ids are computed from: big-endian integers
  (\<open>to_be_bytes\<close>), ASCII labels, and fixed-width record lists. The hash function itself
  (crate \<open>blake3\<close>, keyed by a context string with \<open>new_derive_key\<close>) is not code of this
  repository: it is a parameter of the definitions that use it.
\<close>

section \<open>Definitions\<close>

type_synonym hasher = "string \<Rightarrow> bytes \<Rightarrow> content_id"

definition be8 :: "u64 \<Rightarrow> bytes" where
  "be8 w = map (\<lambda>k. ucast (drop_bit k w)) [56, 48, 40, 32, 24, 16, 8, 0]"

definition be4 :: "u32 \<Rightarrow> bytes" where
  "be4 w = map (\<lambda>k. ucast (drop_bit k w)) [24, 16, 8, 0]"

definition ascii :: "string \<Rightarrow> bytes" where
  "ascii s = map (\<lambda>c. of_nat (of_char c)) s"

definition nl :: bytes where
  "nl = [10]"

section \<open>Injectivity\<close>

lemma length_be8 [simp]: "length (be8 w) = 8"
  by (simp add: be8_def)

lemma length_be4 [simp]: "length (be4 w) = 4"
  by (simp add: be4_def)

lemma length_ascii [simp]: "length (ascii s) = length s"
  by (simp add: ascii_def)

lemma length_nl [simp]: "length nl = 1"
  by (simp add: nl_def)

lemma bit_from_byte:
  "bit (w :: 'a::len word) n \<longleftrightarrow> bit (ucast (drop_bit (8 * (n div 8)) w) :: u8) (n mod 8)"
  by (simp add: bit_ucast_iff bit_drop_bit_eq)

lemma word_eq_by_bytes:
  assumes "\<And>k. 8 * k < LENGTH('a) \<Longrightarrow>
      (ucast (drop_bit (8 * k) v) :: u8) = ucast (drop_bit (8 * k) (w :: 'a::len word))"
  shows "v = w"
proof (rule bit_word_eqI)
  fix n assume "n < LENGTH('a)"
  then have "8 * (n div 8) < LENGTH('a)" by linarith
  from assms [OF this] show "bit v n = bit w n"
    by (simp only: bit_from_byte [of v n] bit_from_byte [of w n])
qed

lemma be8_inject [simp]: "be8 v = be8 w \<longleftrightarrow> v = w"
proof
  assume eq: "be8 v = be8 w"
  show "v = w"
  proof (rule word_eq_by_bytes)
    fix k :: nat
    assume "8 * k < LENGTH(64)"
    then have "k < 8" by simp
    then have "k = 0 \<or> k = 1 \<or> k = 2 \<or> k = 3 \<or> k = 4 \<or> k = 5 \<or> k = 6 \<or> k = 7" by arith
    with eq show "(ucast (drop_bit (8 * k) v) :: u8) = ucast (drop_bit (8 * k) w)"
      by (auto simp: be8_def)
  qed
qed simp

lemma be4_inject [simp]: "be4 v = be4 w \<longleftrightarrow> v = w"
proof
  assume eq: "be4 v = be4 w"
  show "v = w"
  proof (rule word_eq_by_bytes)
    fix k :: nat
    assume "8 * k < LENGTH(32)"
    then have "k < 4" by simp
    then have "k = 0 \<or> k = 1 \<or> k = 2 \<or> k = 3" by arith
    with eq show "(ucast (drop_bit (8 * k) v) :: u8) = ucast (drop_bit (8 * k) w)"
      by (auto simp: be4_def)
  qed
qed simp

lemma append_inject_prefix: "length xs = length xs' \<Longrightarrow> xs @ ys = xs' @ ys' \<longleftrightarrow> xs = xs' \<and> ys = ys'"
  by (rule append_eq_append_conv) simp

text \<open>A list of records of one positive width is determined by the concatenation.\<close>

lemma concat_fixed_inject:
  assumes "\<And>x. x \<in> set xs \<Longrightarrow> length (f x) = k" and "\<And>y. y \<in> set ys \<Longrightarrow> length (f y) = k"
    and "0 < k" and "concat (map f xs) = concat (map f ys)"
  shows "map f xs = map f ys"
  using assms
proof (induction xs arbitrary: ys)
  case Nil
  then show ?case by (cases ys) auto
next
  case (Cons x xs)
  then obtain y ys' where ys: "ys = y # ys'" by (cases ys) auto
  with Cons.prems have "length (f x) = length (f y)" by simp
  with Cons.prems(4) ys have "f x = f y" "concat (map f xs) = concat (map f ys')"
    by (simp_all add: append_inject_prefix)
  with Cons ys show ?case by auto
qed

text \<open>A field that cannot contain the separator ends at the first separator.\<close>

lemma separator_inject:
  assumes "c \<notin> set xs" and "c \<notin> set ys" and "xs @ c # us = ys @ c # vs"
  shows "xs = ys \<and> us = vs"
  using assms
proof (induction xs arbitrary: ys)
  case Nil
  then show ?case by (cases ys) auto
next
  case (Cons x xs)
  then show ?case by (cases ys) auto
qed

end
