(* ===== verification/Ids.thy ===== *)
theory Ids
  imports Digest
begin

text \<open>
  Identifiers and names: the textual form of content ids (\<open>janus-vfs/src/lib.rs\<close>), inode
  ids, labels, heads and file names (\<open>janus-vfs/src/vfs/mod.rs\<close>) and the page sizes of the
  database (\<open>janus-vfs/src/db.rs\<close>). A Rust \<open>str\<close> is modelled by its Unicode scalar values;
  \<open>utf8\<close> gives the bytes the program measures and hashes.
\<close>

section \<open>Strings\<close>

type_synonym str = "nat list"

definition utf8_char :: "nat \<Rightarrow> bytes" where
  "utf8_char c =
     (if c < 0x80 then [of_nat c]
      else if c < 0x800 then [of_nat (0xC0 + c div 0x40), of_nat (0x80 + c mod 0x40)]
      else if c < 0x10000 then [of_nat (0xE0 + c div 0x1000),
             of_nat (0x80 + c div 0x40 mod 0x40), of_nat (0x80 + c mod 0x40)]
      else [of_nat (0xF0 + c div 0x40000), of_nat (0x80 + c div 0x1000 mod 0x40),
             of_nat (0x80 + c div 0x40 mod 0x40), of_nat (0x80 + c mod 0x40)])"

definition utf8 :: "str \<Rightarrow> bytes" where
  "utf8 s = concat (map utf8_char s)"

text \<open>\<open>char::is_whitespace\<close> (the Unicode property \<open>White_Space\<close>) and \<open>char::is_control\<close>.\<close>

definition is_whitespace :: "nat \<Rightarrow> bool" where
  "is_whitespace c =
     (9 \<le> c \<and> c \<le> 13 \<or> c = 32 \<or> c = 0x85 \<or> c = 0xA0 \<or> c = 0x1680
      \<or> 0x2000 \<le> c \<and> c \<le> 0x200A \<or> c = 0x2028 \<or> c = 0x2029 \<or> c = 0x202F
      \<or> c = 0x205F \<or> c = 0x3000)"

definition is_control :: "nat \<Rightarrow> bool" where
  "is_control c = (c < 32 \<or> 127 \<le> c \<and> c < 160)"

definition trim :: "str \<Rightarrow> str" where
  "trim s = rev (dropWhile is_whitespace (rev (dropWhile is_whitespace s)))"

section \<open>File names\<close>

datatype name_error =
    NameEmpty
  | NameReserved
  | NameInvalidCharacter
  | NameTooLong
  | NameLeadingOrTrailingWhitespace

text \<open>The characters \<open>/\<close>, NUL, \<open>\\<close>, \<open>*\<close>, \<open>"\<close>, \<open><\<close>, \<open>>\<close>, \<open>|\<close> and \<open>:\<close>.\<close>

definition forbidden_chars :: "nat list" where
  "forbidden_chars = [47, 0, 92, 42, 34, 60, 62, 124, 58]"

definition check_valid_filename :: "str \<Rightarrow> name_error + unit" where
  "check_valid_filename name =
     (if name = [] then Inl NameEmpty
      else if trim name \<noteq> name then Inl NameLeadingOrTrailingWhitespace
      else if name = [46] \<or> name = [46, 46] then Inl NameReserved
      else if 255 < length (utf8 name) then Inl NameTooLong
      else if list_ex (\<lambda>c. c \<in> set forbidden_chars \<or> is_control c) name
           then Inl NameInvalidCharacter
      else Inr ())"

definition valid_name :: "str \<Rightarrow> bool" where
  "valid_name s = (check_valid_filename s = Inr ())"

definition owned_name_try_from :: "str \<Rightarrow> name_error + str" where
  "owned_name_try_from s = (case check_valid_filename s of Inl e \<Rightarrow> Inl e | Inr _ \<Rightarrow> Inr s)"

text \<open>
  The \<open>CHECK\<close> the tables \<open>entity\<close> and \<open>vfs\<close> put on a name; SQLite's \<open>LENGTH\<close> counts
  characters up to the first NUL and its \<open>TRIM\<close> removes spaces.
\<close>

definition sql_length :: "str \<Rightarrow> nat" where
  "sql_length s = length (takeWhile (\<lambda>c. c \<noteq> 0) s)"

definition sql_trim :: "str \<Rightarrow> str" where
  "sql_trim s = rev (dropWhile (\<lambda>c. c = 32) (rev (dropWhile (\<lambda>c. c = 32) s)))"

definition name_column_ok :: "str \<Rightarrow> bool" where
  "name_column_ok s = (0 < sql_length s \<and> sql_length s \<le> 255
     \<and> sql_length (sql_trim s) = sql_length s \<and> 47 \<notin> set s)"

section \<open>Heads\<close>

datatype head = Branch (head_name: str) | Tag (head_name: str)

definition label_from_str :: "str \<Rightarrow> name_error + str" where
  "label_from_str s = (case check_valid_filename s of Inl e \<Rightarrow> Inl e | Inr _ \<Rightarrow> Inr s)"

definition default_branch :: str where
  "default_branch = [109, 97, 105, 110]"

definition is_tag :: "head \<Rightarrow> bool" where
  "is_tag h = (case h of Branch _ \<Rightarrow> False | Tag _ \<Rightarrow> True)"

definition maybe_branch_name :: "head \<Rightarrow> str option" where
  "maybe_branch_name h = (case h of Branch b \<Rightarrow> Some b | Tag _ \<Rightarrow> None)"

section \<open>Ids\<close>

type_synonym inode_id = u64
type_synonym object_id = u64
type_synonym entity_id = bytes
type_synonym vfs_id = bytes

definition inode_id_new :: "u64 \<Rightarrow> inode_id" where
  "inode_id_new v = v AND 0x7FFFFFFFFFFFFFFF"

definition ROOT_INODE_ID :: inode_id where
  "ROOT_INODE_ID = 1"

text \<open>\<open>char::to_digit(16)\<close> on a byte.\<close>

definition to_digit16 :: "u8 \<Rightarrow> u32 option" where
  "to_digit16 b =
     (if 48 \<le> b \<and> b \<le> 57 then Some (ucast (b - 48))
      else if 97 \<le> b \<and> b \<le> 102 then Some (ucast (b - 87))
      else if 65 \<le> b \<and> b \<le> 70 then Some (ucast (b - 55))
      else None)"

fun hex_pairs :: "bytes \<Rightarrow> bytes option" where
  "hex_pairs (a # b # rest) =
     (case to_digit16 a of None \<Rightarrow> None
      | Some hi \<Rightarrow> (case to_digit16 b of None \<Rightarrow> None
      | Some lo \<Rightarrow> (case hex_pairs rest of None \<Rightarrow> None
      | Some bs \<Rightarrow> Some (ucast (push_bit 4 hi OR lo) # bs))))"
| "hex_pairs _ = Some []"

definition content_id_try_from_str :: "bytes \<Rightarrow> content_id option" where
  "content_id_try_from_str input = (if length input \<noteq> 64 then None else hex_pairs input)"

definition content_id_try_from_bytes :: "bytes \<Rightarrow> content_id option" where
  "content_id_try_from_bytes input = (if length input = 32 then Some input else None)"

definition typed_uuid_try_from_bytes :: "bytes \<Rightarrow> bytes option" where
  "typed_uuid_try_from_bytes input = (if length input = 16 then Some input else None)"

text \<open>The \<open>{:02x}\<close> format of one byte.\<close>

definition hex_digit :: "u8 \<Rightarrow> u8" where
  "hex_digit d = (if d < 10 then 48 + d else 87 + d)"

definition hex_byte :: "u8 \<Rightarrow> bytes" where
  "hex_byte b = [hex_digit (drop_bit 4 b), hex_digit (b AND 15)]"

definition content_id_display :: "content_id \<Rightarrow> bytes" where
  "content_id_display i = concat (map hex_byte i)"

definition zeroed_id :: content_id where
  "zeroed_id = replicate 32 0"

section \<open>Page sizes\<close>

datatype page_size = Ps512 | Ps1024 | Ps2048 | Ps4096 | Ps8192 | Ps16384 | Ps32768 | Ps65536

fun page_size_value :: "page_size \<Rightarrow> u32" where
  "page_size_value Ps512 = 512"
| "page_size_value Ps1024 = 1024"
| "page_size_value Ps2048 = 2048"
| "page_size_value Ps4096 = 4096"
| "page_size_value Ps8192 = 8192"
| "page_size_value Ps16384 = 16384"
| "page_size_value Ps32768 = 32768"
| "page_size_value Ps65536 = 65536"

definition page_size_try_from :: "u32 \<Rightarrow> u32 + page_size" where
  "page_size_try_from v =
     (if v = 512 then Inr Ps512 else if v = 1024 then Inr Ps1024
      else if v = 2048 then Inr Ps2048 else if v = 4096 then Inr Ps4096
      else if v = 8192 then Inr Ps8192 else if v = 16384 then Inr Ps16384
      else if v = 32768 then Inr Ps32768 else if v = 65536 then Inr Ps65536
      else Inl v)"

section \<open>Hexadecimal ids\<close>

lemma u8_below: "(d :: u8) < of_nat n \<Longrightarrow> n < 256 \<Longrightarrow> \<exists>k < n. d = of_nat k"
  by (rule exI [of _ "unat d"]) (simp add: word_less_nat_alt unat_of_nat)

lemma to_digit16_hex_digit:
  assumes "d < 16"
  shows "to_digit16 (hex_digit d) = Some (ucast d)"
proof -
  obtain k :: nat where "k < 16" "d = of_nat k" using u8_below [of d 16] assms by auto
  moreover have "list_all (\<lambda>k. to_digit16 (hex_digit (of_nat k)) = Some (ucast (of_nat k :: u8))) [0..<16]"
    by code_simp
  ultimately show ?thesis by (simp add: list_all_iff del: upt_rec_numeral)
qed

lemma nibbles: "(ucast (push_bit 4 (ucast (drop_bit 4 b) :: u32) OR ucast (b AND 15)) :: u8) = b"
proof (rule bit_word_eqI)
  fix n assume "n < LENGTH(8)"
  then have n: "n < 8" by simp
  then have "n \<in> {0,1,2,3,4,5,6,7}" by auto
  then show "bit (ucast (push_bit 4 (ucast (drop_bit 4 b) :: u32) OR ucast (b AND 15)) :: u8) n = bit b n"
    by (auto simp: bit_simps bit_numeral_rec)
qed

lemma nibble_bounds: "drop_bit 4 (b :: u8) < 16" "(b :: u8) AND 15 < 16"
proof -
  have "unat b < 256" using unsigned_less [of b, where ?'a = nat] by simp
  then have "unat b div 16 < 16" by simp
  moreover have "unat (drop_bit 4 b) = unat b div 16"
    using \<open>unat b < 256\<close>
    by (simp only: unsigned_drop_bit_eq) (simp add: drop_bit_eq_div take_bit_nat_eq_self)
  ultimately show "drop_bit 4 b < 16" by (simp add: word_less_nat_alt)
  have "b AND 15 \<le> 15" by (rule word_and_le1)
  then show "b AND 15 < 16" by (rule le_less_trans) simp
qed

lemma hex_pairs_display: "hex_pairs (content_id_display i) = Some i"
  by (induction i)
    (simp_all add: content_id_display_def hex_byte_def to_digit16_hex_digit nibble_bounds nibbles)

lemma length_display: "length (content_id_display i) = 2 * length i"
  by (induction i) (simp_all add: content_id_display_def hex_byte_def)

lemma hex_pairs_length: "hex_pairs s = Some i \<Longrightarrow> length i = length s div 2"
  by (induction s arbitrary: i rule: hex_pairs.induct) (auto split: option.splits)

text \<open>
  C32: the textual form of a 32-byte content id parses back to the id, and whatever parses
  is 32 bytes long and has a textual form that parses to the same id; so parsing is onto
  the ids and the remote object names built from the textual form lose nothing.
\<close>

theorem content_id_roundtrip:
  "(length i = 32 \<longrightarrow> content_id_try_from_str (content_id_display i) = Some i)
   \<and> (content_id_try_from_str s = Some j \<longrightarrow>
        length j = 32 \<and> content_id_try_from_str (content_id_display j) = Some j)"
  by (auto simp: content_id_try_from_str_def hex_pairs_display length_display
      dest: hex_pairs_length split: if_splits)

theorem content_id_roundtrip_witness:
  "content_id_try_from_str (content_id_display (replicate 32 171)) = Some (replicate 32 171)"
  using content_id_roundtrip [of "replicate 32 171" "[]" "[]"] by simp

section \<open>UTF-8\<close>

lemma of_nat_u8_eq: "a < 256 \<Longrightarrow> b < 256 \<Longrightarrow> (of_nat a :: u8) = of_nat b \<longleftrightarrow> a = b"
  by (simp add: word_of_nat_eq_iff take_bit_eq_mod)

lemma utf8_char_bytes:
  assumes "c < 0x110000" and "d < 0x110000" and "utf8_char c @ xs = utf8_char d @ ys"
  shows "c = d \<and> xs = ys"
proof -
  define ns where "ns c = (if c < 0x80 then [c]
      else if c < 0x800 then [0xC0 + c div 0x40, 0x80 + c mod 0x40]
      else if c < 0x10000 then [0xE0 + c div 0x1000, 0x80 + c div 0x40 mod 0x40, 0x80 + c mod 0x40]
      else [0xF0 + c div 0x40000, 0x80 + c div 0x1000 mod 0x40,
            0x80 + c div 0x40 mod 0x40, 0x80 + c mod 0x40])" for c :: nat
  have ns: "utf8_char c = map of_nat (ns c)" for c by (simp add: utf8_char_def ns_def)
  have small: "\<forall>n \<in> set (ns c). n < 256" if "c < 0x110000" for c
    using that by (auto simp: ns_def less_mult_imp_div_less)
  have len: "length (ns c) = (if hd (ns c) < 0x80 then 1 else if hd (ns c) < 0xE0 then 2
      else if hd (ns c) < 0xF0 then 3 else 4)" and ne: "ns c \<noteq> []" for c
    by (auto simp: ns_def)
  define dec where "dec l = (case l of [a] \<Rightarrow> a | [a, b] \<Rightarrow> (a - 0xC0) * 0x40 + (b - 0x80)
      | [a, b, e] \<Rightarrow> (a - 0xE0) * 0x1000 + (b - 0x80) * 0x40 + (e - 0x80)
      | [a, b, e, f] \<Rightarrow> (a - 0xF0) * 0x40000 + (b - 0x80) * 0x1000 + (e - 0x80) * 0x40 + (f - 0x80)
      | _ \<Rightarrow> 0)" for l :: "nat list"
  have step: "c div (a * 64) * (a * 64) + c div a mod 64 * a = c div a * a" for a c :: nat
  proof -
    have "c div (a * 64) * (a * 64) + c div a mod 64 * a = (c div a div 64 * 64 + c div a mod 64) * a"
      by (simp only: div_mult2_eq distrib_right mult.assoc mult.commute [of 64 a])
    then show ?thesis by (simp only: div_mult_mod_eq)
  qed
  have p3: "c div 0x1000 * 0x1000 + c div 0x40 mod 0x40 * 0x40 + c mod 0x40 = c" for c :: nat
    using step [of c 64] by simp
  have p4: "c div 0x40000 * 0x40000 + c div 0x1000 mod 0x40 * 0x1000 + c div 0x40 mod 0x40 * 0x40
      + c mod 0x40 = c" for c :: nat
    using step [of c 4096] p3 [of c] by simp
  have "dec (ns c) = c" for c
    using p3 [of c] p4 [of c] by (simp add: dec_def ns_def)
  then have inj: "c = d" if "ns c = ns d" for c d using that by metis
  from assms(3) have "(of_nat (hd (ns c)) :: u8) = of_nat (hd (ns d))"
    using ne [of c] ne [of d] by (auto simp: ns neq_Nil_conv)
  then have "hd (ns c) = hd (ns d)"
    using small [OF assms(1)] small [OF assms(2)] ne [of c] ne [of d] by (simp add: of_nat_u8_eq)
  then have "length (ns c) = length (ns d)" using len [of c] len [of d] by presburger
  with assms(3) have eq: "map of_nat (ns c) = (map of_nat (ns d) :: bytes)" and "xs = ys"
    by (simp_all add: ns append_inject_prefix)
  have "ns c = ns d"
    using eq by (rule map_inj_on) (use small [OF assms(1)] small [OF assms(2)] in
      \<open>auto intro!: inj_onI simp: of_nat_u8_eq\<close>)
  with inj \<open>xs = ys\<close> show ?thesis by blast
qed

definition str_ok :: "str \<Rightarrow> bool" where
  "str_ok s = (\<forall>c \<in> set s. c < 0x110000)"

lemma utf8_simps [simp]: "utf8 [] = []" "utf8 (c # s) = utf8_char c @ utf8 s"
  by (simp_all add: utf8_def)

lemma utf8_char_nonempty [simp]: "utf8_char c \<noteq> []"
  by (simp add: utf8_char_def)

lemma utf8_inject: "str_ok s \<Longrightarrow> str_ok t \<Longrightarrow> utf8 s = utf8 t \<Longrightarrow> s = t"
proof (induction s arbitrary: t)
  case (Cons c s)
  then obtain d t' where t: "t = d # t'" by (cases t) auto
  with Cons.prems utf8_char_bytes [of c d "utf8 s" "utf8 t'"] have "c = d" "utf8 s = utf8 t'"
    by (auto simp: str_ok_def)
  with Cons.IH [of t'] Cons.prems t show ?case by (simp add: str_ok_def)
next
  case Nil
  then show ?case by (cases t) auto
qed

lemma length_utf8_ge: "length s \<le> length (utf8 s)"
proof (induction s)
  case (Cons c s)
  have "1 \<le> length (utf8_char c)" by (simp add: utf8_char_def)
  with Cons show ?case by simp
qed simp

lemma high_byte: "128 \<le> n \<Longrightarrow> n < 256 \<Longrightarrow> (of_nat n :: u8) \<noteq> 10"
  using of_nat_u8_eq [of n 10] by simp

lemma utf8_char_newline:
  assumes "c < 0x110000" and "c \<noteq> 10"
  shows "10 \<notin> set (utf8_char c)"
proof -
  have "c div 0x40000 < 5" using assms(1) by simp
  moreover have "c < 0x10000 \<longrightarrow> c div 0x1000 < 16" "c < 0x800 \<longrightarrow> c div 0x40 < 32" by auto
  moreover have "c < 128 \<longrightarrow> (of_nat c :: u8) \<noteq> 10" using of_nat_u8_eq [of c 10] assms(2) by simp
  moreover have "c div 0x40 mod 0x40 < 64" "c mod 0x40 < 64" "c div 0x1000 mod 0x40 < 64" by simp_all
  ultimately show ?thesis
    using high_byte [of "0xC0 + c div 0x40"] high_byte [of "0x80 + c mod 0x40"]
      high_byte [of "0xE0 + c div 0x1000"] high_byte [of "0x80 + c div 0x40 mod 0x40"]
      high_byte [of "0xF0 + c div 0x40000"] high_byte [of "0x80 + c div 0x1000 mod 0x40"]
    by (auto simp: utf8_char_def simp del: of_nat_add split: if_splits)
qed

lemma utf8_newline: "str_ok s \<Longrightarrow> 10 \<notin> set s \<Longrightarrow> 10 \<notin> set (utf8 s)"
  by (induction s) (auto simp: str_ok_def utf8_char_newline)

section \<open>Accepted names\<close>

lemma valid_nameD:
  assumes "valid_name s"
  shows "s \<noteq> []" and "trim s = s" and "s \<noteq> [46]" and "s \<noteq> [46, 46]" and "length (utf8 s) \<le> 255"
    and "c \<in> set s \<Longrightarrow> c \<notin> set forbidden_chars \<and> \<not> is_control c"
  using assms by (auto simp: valid_name_def check_valid_filename_def list_ex_iff split: if_splits)

lemma dropWhile_length_eq: "length (dropWhile P xs) = length xs \<Longrightarrow> dropWhile P xs = xs"
  by (metis append_eq_append_conv append_self_conv2 takeWhile_dropWhile_id)

lemma dropWhile_fixed:
  assumes "\<And>x. P x \<Longrightarrow> Q x" and "dropWhile Q xs = xs"
  shows "dropWhile P xs = xs"
proof (cases xs)
  case (Cons x ys)
  have "\<not> Q x"
    using assms(2) length_dropWhile_le [of Q ys] Cons by (auto split: if_splits)
  with assms(1) Cons show ?thesis by auto
qed simp

lemma trim_fixed:
  assumes "trim s = s"
  shows "dropWhile is_whitespace s = s" and "dropWhile is_whitespace (rev s) = rev s"
proof -
  have "length (trim s) \<le> length (dropWhile is_whitespace s)"
    by (simp add: trim_def) (metis length_dropWhile_le length_rev)
  with assms length_dropWhile_le [of is_whitespace s] have "length (dropWhile is_whitespace s) = length s"
    by simp
  then show d: "dropWhile is_whitespace s = s" by (rule dropWhile_length_eq)
  with assms show "dropWhile is_whitespace (rev s) = rev s"
    by (simp add: trim_def rev_swap)
qed

lemma sql_trim_fixed:
  assumes "trim s = s"
  shows "sql_trim s = s"
proof -
  have ws: "c = 32 \<Longrightarrow> is_whitespace c" for c by (simp add: is_whitespace_def)
  show ?thesis
    using dropWhile_fixed [OF ws trim_fixed(1) [OF assms]] dropWhile_fixed [OF ws trim_fixed(2) [OF assms]]
    by (simp add: sql_trim_def)
qed

lemma valid_name_columns:
  assumes "valid_name s"
  shows "name_column_ok s"
proof -
  note v = valid_nameD [OF assms]
  have "0 \<notin> set s" "47 \<notin> set s" using v(6) by (auto simp: forbidden_chars_def)
  then have "sql_length s = length s"
    unfolding sql_length_def by (subst iffD2 [OF takeWhile_eq_all_conv]) (auto intro!: gr_zeroI)
  with v(1,5) length_utf8_ge [of s] \<open>47 \<notin> set s\<close> show ?thesis
    by (simp add: name_column_ok_def sql_trim_fixed [OF v(2)])
qed

text \<open>
  C33: a name the program accepts is a safe path component and passes the constraints of the
  tables it is stored in: it is not empty, not \<open>.\<close> or \<open>..\<close>, has no path separator, no line
  break and no NUL, fits 255 bytes, and satisfies the \<open>CHECK\<close> of the columns, so an insert
  of an accepted name never fails on its name.
\<close>

theorem accepted_name_safe:
  assumes "valid_name s" and "str_ok s"
  shows "s \<noteq> [] \<and> s \<noteq> [46] \<and> s \<noteq> [46, 46] \<and> 47 \<notin> set s \<and> 0 \<notin> set s
    \<and> length (utf8 s) \<le> 255 \<and> 10 \<notin> set (utf8 s) \<and> name_column_ok s"
proof -
  note v = valid_nameD [OF assms(1)]
  have "10 \<notin> set s" using v(6) [of 10] by (auto simp: is_control_def)
  then have "10 \<notin> set (utf8 s)" by (rule utf8_newline [OF assms(2)])
  moreover have "47 \<notin> set s" "0 \<notin> set s" using v(6) by (auto simp: forbidden_chars_def)
  ultimately show ?thesis using v(1,3,4,5) valid_name_columns [OF assms(1)] by blast
qed

theorem accepted_name_safe_witness:
  "name_column_ok [82, 79, 0xE9, 84] \<and> 10 \<notin> set (utf8 [82, 79, 0xE9, 84])"
  using accepted_name_safe [of "[82, 79, 0xE9, 84]"]
  by (simp add: valid_name_def check_valid_filename_def trim_def is_whitespace_def
      forbidden_chars_def is_control_def utf8_char_def str_ok_def)

section \<open>Inode ids and page sizes\<close>

lemma inode_id_positive: "0 \<le> sint (inode_id_new v)"
proof -
  have "\<not> bit (inode_id_new v) 63"
    by (simp add: inode_id_new_def bit_and_iff)
  then show ?thesis by (simp add: not_less [symmetric] bit_last_iff [symmetric])
qed

lemma page_size_roundtrip: "page_size_try_from (page_size_value p) = Inr p"
  by (cases p) (simp_all add: page_size_try_from_def)

lemma page_size_inverse: "page_size_try_from v = Inr p \<Longrightarrow> page_size_value p = v"
  by (auto simp: page_size_try_from_def split: if_splits)

end
