(* ===== verification/Metadata.thy ===== *)
theory Metadata
  imports Ids "HOL-Library.AList" "HOL-Library.List_Lexorder"
begin

text \<open>
  Object metadata (\<open>janus-vfs/src/object/metadata.rs\<close>): string pairs attached to every remote
  object, kept either as a hash map or as a flatbuffer behind a magic number. Strings are
  their UTF-8 bytes. A \<open>HashMap\<close> is the list of its pairs in iteration order, with distinct
  keys. The flatbuffers crate and the code generated for the schema are the parameter
  \<open>metadata_format\<close>.
\<close>

section \<open>Data\<close>

type_synonym meta_map = "(bytes \<times> bytes) list"

definition hm_ok :: "meta_map \<Rightarrow> bool" where
  "hm_ok m = distinct (map fst m)"

record flat_entry =
  fe_key :: bytes
  fe_value :: "bytes option"

record flat_metadata =
  fm_entries :: "flat_entry list option"

record metadata_format =
  enc_metadata :: "flat_metadata \<Rightarrow> bytes"
  dec_metadata :: "bytes \<Rightarrow> flat_metadata option"
  lookup_by_key :: "flat_entry list \<Rightarrow> bytes \<Rightarrow> flat_entry option"

datatype metadata_error = FlatbufferError | InvalidMagicNumber | TooShort

datatype metadata =
    MdOwned bytes flat_metadata
  | MdBorrowed flat_metadata
  | MdHashMap meta_map

text \<open>Metadata as a backend hands it over; a flag tells \<open>Cow::Owned\<close> from \<open>Cow::Borrowed\<close>.\<close>

datatype io_metadata = IoIndexd bool bytes | IoRenterd meta_map | IoMock meta_map

definition METADATA_MAGIC_NUMBER :: bytes where
  "METADATA_MAGIC_NUMBER = [0xA8, 0x19, 0xCD, 0x28]"

section \<open>Operations\<close>

definition md_try_from_flatbuffer ::
  "metadata_format \<Rightarrow> bytes \<Rightarrow> metadata_error + flat_metadata" where
  "md_try_from_flatbuffer F value =
     (if length value < length METADATA_MAGIC_NUMBER then Inl TooShort
      else let header = take (length METADATA_MAGIC_NUMBER) value;
               body = drop (length METADATA_MAGIC_NUMBER) value
           in if header \<noteq> METADATA_MAGIC_NUMBER then Inl InvalidMagicNumber
              else case dec_metadata F body of None \<Rightarrow> Inl FlatbufferError | Some fm \<Rightarrow> Inr fm)"

definition md_try_from_slice :: "metadata_format \<Rightarrow> bytes \<Rightarrow> metadata_error + metadata" where
  "md_try_from_slice F value =
     (case md_try_from_flatbuffer F value of Inl e \<Rightarrow> Inl e | Inr fm \<Rightarrow> Inr (MdBorrowed fm))"

definition md_try_from_arc :: "metadata_format \<Rightarrow> bytes \<Rightarrow> metadata_error + metadata" where
  "md_try_from_arc F value =
     (case md_try_from_flatbuffer F value of Inl e \<Rightarrow> Inl e | Inr fm \<Rightarrow> Inr (MdOwned value fm))"

definition md_try_from_io :: "metadata_format \<Rightarrow> io_metadata \<Rightarrow> metadata_error + metadata" where
  "md_try_from_io F v =
     (case v of
        IoIndexd owned bs \<Rightarrow> if owned then md_try_from_arc F bs else md_try_from_slice F bs
      | IoRenterd m \<Rightarrow> Inr (MdHashMap m)
      | IoMock m \<Rightarrow> Inr (MdHashMap m))"

definition flat_of :: "metadata \<Rightarrow> flat_metadata option" where
  "flat_of md = (case md of MdOwned _ fm \<Rightarrow> Some fm | MdBorrowed fm \<Rightarrow> Some fm | MdHashMap _ \<Rightarrow> None)"

definition flat_iter :: "flat_metadata \<Rightarrow> (bytes \<times> bytes) list" where
  "flat_iter fm = (case fm_entries fm of
     None \<Rightarrow> []
   | Some es \<Rightarrow> map (\<lambda>e. (fe_key e, case fe_value e of None \<Rightarrow> [] | Some v \<Rightarrow> v)) es)"

definition md_len :: "metadata \<Rightarrow> nat" where
  "md_len md = (case md of MdHashMap m \<Rightarrow> length m
     | MdOwned _ fm \<Rightarrow> (case fm_entries fm of None \<Rightarrow> 0 | Some es \<Rightarrow> length es)
     | MdBorrowed fm \<Rightarrow> (case fm_entries fm of None \<Rightarrow> 0 | Some es \<Rightarrow> length es))"

definition md_is_empty :: "metadata \<Rightarrow> bool" where
  "md_is_empty md = (md_len md = 0)"

definition flat_get :: "metadata_format \<Rightarrow> flat_metadata \<Rightarrow> bytes \<Rightarrow> bytes option" where
  "flat_get F fm key = (case fm_entries fm of
     None \<Rightarrow> None
   | Some es \<Rightarrow> (case lookup_by_key F es key of None \<Rightarrow> None | Some e \<Rightarrow> fe_value e))"

definition md_get :: "metadata_format \<Rightarrow> metadata \<Rightarrow> bytes \<Rightarrow> bytes option" where
  "md_get F md key = (case md of MdHashMap m \<Rightarrow> map_of m key
     | MdOwned _ fm \<Rightarrow> flat_get F fm key | MdBorrowed fm \<Rightarrow> flat_get F fm key)"

definition md_contains_key :: "metadata_format \<Rightarrow> metadata \<Rightarrow> bytes \<Rightarrow> bool" where
  "md_contains_key F md key = (case md of MdHashMap m \<Rightarrow> map_of m key \<noteq> None
     | _ \<Rightarrow> md_get F md key \<noteq> None)"

definition md_iter :: "metadata \<Rightarrow> (bytes \<times> bytes) list" where
  "md_iter md = (case md of MdHashMap m \<Rightarrow> m
     | MdOwned _ fm \<Rightarrow> flat_iter fm | MdBorrowed fm \<Rightarrow> flat_iter fm)"

text \<open>Collecting pairs into a hash map: the last value of a key wins.\<close>

definition hm_collect :: "(bytes \<times> bytes) list \<Rightarrow> meta_map" where
  "hm_collect ps = fold (\<lambda>(k, v). AList.update k v) ps []"

definition md_into_mut :: "metadata \<Rightarrow> meta_map" where
  "md_into_mut md = (case md of MdHashMap m \<Rightarrow> m
     | MdOwned _ fm \<Rightarrow> hm_collect (flat_iter fm) | MdBorrowed fm \<Rightarrow> hm_collect (flat_iter fm))"

definition md_freeze :: "meta_map \<Rightarrow> metadata" where
  "md_freeze m = MdHashMap m"

definition flat_of_map :: "meta_map \<Rightarrow> flat_metadata" where
  "flat_of_map m = \<lparr>fm_entries = Some (map (\<lambda>(k, v). \<lparr>fe_key = k, fe_value = Some v\<rparr>)
     (sort_key fst m))\<rparr>"

definition md_to_vec :: "metadata_format \<Rightarrow> meta_map \<Rightarrow> bytes" where
  "md_to_vec F m = METADATA_MAGIC_NUMBER @ enc_metadata F (flat_of_map m)"

definition md_to_bytes :: "metadata_format \<Rightarrow> metadata \<Rightarrow> bytes" where
  "md_to_bytes F md = (case md of MdOwned backing _ \<Rightarrow> backing | _ \<Rightarrow> md_to_vec F (md_into_mut md))"

definition md_to_map :: "metadata \<Rightarrow> meta_map" where
  "md_to_map md = (case md of MdHashMap m \<Rightarrow> m | _ \<Rightarrow> md_into_mut md)"

definition METADATA_VFS_VERSION :: bytes where
  "METADATA_VFS_VERSION = ascii ''JANUS-VFS''"

definition METADATA_VFS_ID :: bytes where
  "METADATA_VFS_ID = ascii ''VFS-ID''"

definition METADATA_VFS_OBJECT_TYPE :: bytes where
  "METADATA_VFS_OBJECT_TYPE = ascii ''VFS-OBJECT-TYPE''"

text \<open>The textual form of a UUID is the \<open>uuid\<close> crate's: the parameter is its result.\<close>

definition with_vfs_template :: "bytes \<Rightarrow> bytes \<Rightarrow> meta_map" where
  "with_vfs_template vfs_id_text object_type =
     AList.update METADATA_VFS_OBJECT_TYPE object_type
       (AList.update METADATA_VFS_ID vfs_id_text
         (AList.update METADATA_VFS_VERSION (ascii ''1'') []))"

section \<open>Facts\<close>

lemma map_of_hm_collect: "map_of (hm_collect ps) = map_of (rev ps)"
proof -
  have "map_of (fold (\<lambda>(k, v). AList.update k v) ps m) = map_of m ++ map_of (rev ps)" for m
    by (induction ps arbitrary: m) (auto simp: update_conv' map_add_def fun_eq_iff split: option.splits)
  from this [of "[]"] show ?thesis by (simp add: hm_collect_def)
qed

lemma hm_ok_collect [wf_intros]: "hm_ok (hm_collect ps)"
proof -
  have "distinct (map fst m) \<Longrightarrow> distinct (map fst (fold (\<lambda>(k, v). AList.update k v) ps m))" for m
    by (induction ps arbitrary: m) (auto simp: distinct_update split: prod.splits)
  then show ?thesis by (simp add: hm_ok_def hm_collect_def)
qed

lemma hm_ok_template [wf_intros]: "hm_ok (with_vfs_template i t)"
  by (simp add: hm_ok_def with_vfs_template_def distinct_update)

lemma distinct_sort_key: "hm_ok m \<Longrightarrow> distinct (map fst (sort_key fst m))"
  by (simp add: hm_ok_def distinct_map)

definition demo_metadata_format :: "metadata_format" where
  "demo_metadata_format = \<lparr>enc_metadata = (\<lambda>_. [1]),
     dec_metadata = (\<lambda>bs. if bs = [1] then Some (flat_of_map [([75], [1])]) else None),
     lookup_by_key = (\<lambda>es k. find (\<lambda>e. fe_key e = k) es)\<rparr>"

lemma hm_ok_map_of: "hm_ok m \<Longrightarrow> map_of m k = Some v \<longleftrightarrow> (k, v) \<in> set m"
  by (simp add: hm_ok_def map_of_eq_Some_iff)

lemma sort_key_canonical:
  assumes "hm_ok m" and "hm_ok m'" and "map_of m = map_of m'"
  shows "sort_key fst m = sort_key fst m'"
proof -
  have mem: "p \<in> set m \<longleftrightarrow> p \<in> set m'" for p
    using hm_ok_map_of [OF assms(1), of "fst p" "snd p"] hm_ok_map_of [OF assms(2), of "fst p" "snd p"]
      assms(3) by simp
  then have "set m = set m'" by blast
  moreover have "inj_on fst (set m)" using assms(1) by (simp add: hm_ok_def distinct_map)
  ultimately show ?thesis
    using assms(1,2)
    by (intro map_sorted_distinct_set_unique [of fst]) (simp_all add: distinct_sort_key)
qed

lemma map_of_sort_key: "hm_ok m \<Longrightarrow> map_of (sort_key fst m) = map_of m"
  by (rule map_of_inject_set [THEN iffD2]) (simp_all add: distinct_sort_key, simp add: hm_ok_def)

lemma flat_iter_of_map: "flat_iter (flat_of_map m) = sort_key fst m"
  by (simp add: flat_iter_def flat_of_map_def comp_def case_prod_beta)

lemma map_of_hm_collect_sorted:
  assumes "hm_ok m"
  shows "map_of (hm_collect (sort_key fst m)) = map_of m"
proof -
  have d: "distinct (map fst (sort_key fst m))" using assms by (rule distinct_sort_key)
  then have "map_of (rev (sort_key fst m)) = map_of (sort_key fst m)"
    by (intro map_of_inject_set [THEN iffD2]) (simp_all add: rev_map [symmetric])
  with assms show ?thesis by (simp add: map_of_hm_collect map_of_sort_key)
qed

text \<open>
  C31: the bytes of object metadata do not depend on the iteration order of the hash map:
  two maps with the same keys and values serialise to the same bytes, whatever the
  flatbuffer encoder does.
\<close>

theorem metadata_bytes_canonical:
  assumes "hm_ok m" and "hm_ok m'"
  shows "map_of m = map_of m' \<longrightarrow> md_to_vec F m = md_to_vec F m'"
  using sort_key_canonical [OF assms] by (simp add: md_to_vec_def flat_of_map_def)

theorem metadata_bytes_canonical_witness:
  "md_to_vec demo_metadata_format [([75], [1]), ([76], [2])] = md_to_vec demo_metadata_format [([76], [2]), ([75], [1 :: u8])]"
  using metadata_bytes_canonical [of "[([75], [1]), ([76], [2])]" "[([76], [2]), ([75], [1])]" demo_metadata_format]
  by (simp add: hm_ok_def fun_eq_iff)

text \<open>
  C30: metadata survives the wire. If the flatbuffer crate decodes what it encoded and its
  keyed lookup finds the entry of a vector sorted by key, then parsing the serialised map
  succeeds, answers every \<open>get\<close> as the map does, has as many entries, converts back to the
  same map, and serialises to the same bytes again, both when the bytes are owned and when
  they are borrowed.
\<close>

theorem metadata_roundtrip:
  assumes ok: "hm_ok m"
    and dec: "dec_metadata F (enc_metadata F (flat_of_map m)) = Some (flat_of_map m)"
    and lookup: "\<And>es k. sorted (map fe_key es) \<Longrightarrow> distinct (map fe_key es) \<Longrightarrow>
        lookup_by_key F es k = find (\<lambda>e. fe_key e = k) es"
    and md: "md_try_from_io F (IoIndexd owned (md_to_vec F m)) = r"
  shows "\<exists>md. r = Inr md \<and> (\<forall>k. md_get F md k = map_of m k) \<and> md_len md = length m
    \<and> map_of (md_to_map md) = map_of m \<and> md_to_bytes F md = md_to_vec F m"
proof -
  let ?fm = "flat_of_map m"
  have find_map: "(case find (\<lambda>e. fe_key e = k) (map (\<lambda>(k, v). \<lparr>fe_key = k, fe_value = Some v\<rparr>) ps) of
      None \<Rightarrow> None | Some e \<Rightarrow> fe_value e) = map_of ps k" for k and ps :: meta_map
    by (induction ps) auto
  have keys: "map fe_key (map (\<lambda>(k, v). \<lparr>fe_key = k, fe_value = Some v\<rparr>) ps) = map fst ps"
    for ps :: meta_map by (induction ps) auto
  have get: "flat_get F ?fm k = map_of m k" for k
    using lookup [of "map (\<lambda>(k, v). \<lparr>fe_key = k, fe_value = Some v\<rparr>) (sort_key fst m)" k]
      distinct_sort_key [OF ok] find_map [of k "sort_key fst m"]
    by (simp add: flat_get_def flat_of_map_def keys map_of_sort_key [OF ok] del: map_map)
  have same: "map_of (hm_collect (flat_iter ?fm)) = map_of m"
    by (simp add: flat_iter_of_map map_of_hm_collect_sorted [OF ok])
  then have again: "md_to_vec F (hm_collect (flat_iter ?fm)) = md_to_vec F m"
    using sort_key_canonical [OF hm_ok_collect ok same] by (simp add: md_to_vec_def flat_of_map_def)
  have "md_try_from_flatbuffer F (md_to_vec F m) = Inr ?fm"
    using dec by (simp add: md_try_from_flatbuffer_def md_to_vec_def Let_def)
  then have "r = Inr (if owned then MdOwned (md_to_vec F m) ?fm else MdBorrowed ?fm)"
    by (simp add: md [symmetric] md_try_from_io_def md_try_from_arc_def md_try_from_slice_def)
  then show ?thesis
    using get same again
    by (auto simp: md_get_def md_len_def md_to_map_def md_into_mut_def md_to_bytes_def flat_of_map_def)
qed

theorem metadata_roundtrip_witness:
  "\<exists>md. md_try_from_io demo_metadata_format
       (IoIndexd True (md_to_vec demo_metadata_format [([75], [1])])) = Inr md
     \<and> md_get demo_metadata_format md [75] = Some [1] \<and> md_len md = 1"
  using metadata_roundtrip [of "[([75], [1])]" demo_metadata_format True, OF _ _ _ refl]
  by (force simp: hm_ok_def demo_metadata_format_def)

end
