(* ===== verification/Chunk.thy ===== *)
theory Chunk
  imports Metadata
begin

text \<open>
  Chunks (\<open>janus-vfs/src/chunk/mod.rs\<close>) and their compressed form
  (\<open>janus-vfs/src/chunk/compression.rs\<close>). A chunk is a byte string named by the hash of a
  framed transcript of it; the hash function and the two compressors are parameters.
\<close>

section \<open>Chunks\<close>

record chunk =
  ch_id :: content_id
  ch_content :: bytes

definition chunk_transcript :: "bytes \<Rightarrow> bytes" where
  "chunk_transcript content =
     ascii ''begin'' @ nl @ ascii ''length:'' @ be8 (of_nat (length content)) @
     nl @ ascii ''content:'' @ content @ nl @ ascii ''end''"

definition chunk_hash :: "hasher \<Rightarrow> bytes \<Rightarrow> content_id" where
  "chunk_hash H content = H ''[janus-vfs]/[v1]/[chunk_id]'' (chunk_transcript content)"

definition chunk_from :: "hasher \<Rightarrow> bytes \<Rightarrow> chunk" where
  "chunk_from H content = \<lparr>ch_id = chunk_hash H content, ch_content = content\<rparr>"

text \<open>
  \<open>is_zeroed\<close> compares the content eight bytes at a time as a 64-bit integer and the rest
  byte by byte. The value of a word read from memory depends on the byte order, whether it
  is zero does not; it is read here in big-endian order.
\<close>

definition word_of_bytes :: "bytes \<Rightarrow> u64" where
  "word_of_bytes bs = fold (\<lambda>b w. push_bit 8 w OR ucast b) bs 0"

definition is_zeroed :: "chunk \<Rightarrow> bool" where
  "is_zeroed c =
     (let content = ch_content c; num_words = length content div 8
      in list_all (\<lambda>i. word_of_bytes (take 8 (drop (i * 8) content)) = 0) [0..<num_words]
         \<and> list_all (\<lambda>b. b = 0) (drop (num_words * 8) content))"

section \<open>Chunks as remote objects\<close>

text \<open>
  The remote storage of \<open>janus-io\<close>, as far as the file system sees it when it downloads an
  object: an error, or the metadata and the outcome of reading the content to its end.
\<close>

type_synonym remote_oid = bytes

record download =
  dl_metadata :: io_metadata
  dl_content :: "io_error + bytes"

type_synonym remote_storage = "remote_oid \<Rightarrow> io_error + download"

record uploadable =
  up_path :: bytes
  up_content :: bytes
  up_metadata :: metadata

definition CHUNK_OBJECT_TYPE :: bytes where
  "CHUNK_OBJECT_TYPE = ascii ''CHUNK''"

definition METADATA_CHUNK_ID :: bytes where
  "METADATA_CHUNK_ID = ascii ''CHUNK-ID''"

definition chunk_load_from_backend ::
  "hasher \<Rightarrow> metadata_format \<Rightarrow> remote_oid \<Rightarrow> remote_storage \<Rightarrow> io_error + chunk" where
  "chunk_load_from_backend H F oid remote =
     (case remote oid of
        Inl e \<Rightarrow> Inl e
      | Inr dl \<Rightarrow>
          (case md_try_from_io F (dl_metadata dl) of
             Inl e \<Rightarrow> Inl (IoError KOther ''invalid metadata'')
           | Inr md \<Rightarrow>
               if md_get F md METADATA_VFS_OBJECT_TYPE \<noteq> Some CHUNK_OBJECT_TYPE
               then Inl (IoError KOther ''METADATA_OBJECT_TYPE mismatch'')
               else (case dl_content dl of
                       Inl e \<Rightarrow> Inl e
                     | Inr buffer \<Rightarrow>
                         let this = chunk_from H buffer
                         in if md_get F md METADATA_CHUNK_ID \<noteq> Some (content_id_display (ch_id this))
                            then Inl (IoError KOther ''METADATA_CHUNK_ID mismatch'')
                            else Inr this)))"

definition chunk_to_uploadable_object :: "bytes \<Rightarrow> chunk \<Rightarrow> uploadable" where
  "chunk_to_uploadable_object vfs_id_text c =
     (let md = AList.update METADATA_CHUNK_ID (content_id_display (ch_id c))
                 (with_vfs_template vfs_id_text CHUNK_OBJECT_TYPE)
      in \<lparr>up_path = ascii ''/chunks/'' @ content_id_display (ch_id c) @ ascii ''.chunk'',
          up_content = ch_content c, up_metadata = md_freeze md\<rparr>)"

section \<open>Compressed chunks\<close>

datatype compressor = Lz4 | Zstd

datatype compression_error =
    UnsupportedCompressor compressor
  | Lz4DecompressionError
  | ZstdDecompressionError
  | CChunkIdMismatch (expected_id: content_id) (actual_id: content_id)

record compressed_chunk =
  cc_id :: content_id
  cc_uncompressed_len :: nat
  cc_compressor :: compressor
  cc_data :: bytes

text \<open>
  The crates \<open>lz4_flex\<close> and \<open>zstd\<close>: \<open>pack\<close> compresses, \<open>unpack\<close> takes the compressed
  bytes and the expected length and answers nothing on an error.
\<close>

record codec =
  pack :: "compressor \<Rightarrow> bytes \<Rightarrow> bytes"
  unpack :: "compressor \<Rightarrow> bytes \<Rightarrow> nat \<Rightarrow> bytes option"

definition compress :: "codec \<Rightarrow> chunk \<Rightarrow> compressor \<Rightarrow> compressed_chunk" where
  "compress k c z = \<lparr>cc_id = ch_id c, cc_uncompressed_len = length (ch_content c),
     cc_compressor = z, cc_data = pack k z (ch_content c)\<rparr>"

definition from_decompressed ::
  "hasher \<Rightarrow> content_id \<Rightarrow> bytes \<Rightarrow> compression_error + chunk" where
  "from_decompressed H expected decompressed =
     (let c = chunk_from H decompressed
      in if ch_id c \<noteq> expected then Inl (CChunkIdMismatch expected (ch_id c)) else Inr c)"

definition decompress :: "hasher \<Rightarrow> codec \<Rightarrow> compressed_chunk \<Rightarrow> compression_error + chunk" where
  "decompress H k cc =
     (case unpack k (cc_compressor cc) (cc_data cc) (cc_uncompressed_len cc) of
        None \<Rightarrow> Inl (case cc_compressor cc of Lz4 \<Rightarrow> Lz4DecompressionError
                      | Zstd \<Rightarrow> ZstdDecompressionError)
      | Some bs \<Rightarrow> from_decompressed H (cc_id cc) bs)"

text \<open>Every chunk the program holds was built by \<open>Chunk::from\<close>.\<close>

definition chunk_ok :: "hasher \<Rightarrow> chunk \<Rightarrow> bool" where
  "chunk_ok H c = (ch_id c = chunk_hash H (ch_content c))"

section \<open>Facts\<close>

lemma chunk_ok_from [wf_intros]: "chunk_ok H (chunk_from H bs)"
  by (simp add: chunk_ok_def chunk_from_def)

lemma chunk_ok_eq: "chunk_ok H c \<Longrightarrow> chunk_from H (ch_content c) = c"
  by (cases c) (simp add: chunk_ok_def chunk_from_def)

lemma ch_content_from [simp]: "ch_content (chunk_from H bs) = bs"
  by (simp add: chunk_from_def)

lemma ch_id_from [simp]: "ch_id (chunk_from H bs) = chunk_hash H bs"
  by (simp add: chunk_from_def)

lemma chunk_transcript_inject: "chunk_transcript a = chunk_transcript b \<Longrightarrow> a = b"
  by (simp add: chunk_transcript_def append_inject_prefix)

text \<open>
  C22: the transcript a chunk is hashed over is injective, so two contents with one chunk id
  are either equal or a collision of the hash function itself, on two distinct inputs.
\<close>

theorem chunk_id_collision_free:
  assumes "chunk_hash H a = chunk_hash H b"
  shows "a = b \<or> (\<exists>x y k. x \<noteq> y \<and> H k x = H k y)"
  using assms chunk_transcript_inject [of a b] by (auto simp: chunk_hash_def)

theorem chunk_id_collision_free_witness:
  "\<exists>x y k. x \<noteq> y \<and> (\<lambda>_ bs. take 5 bs) (k :: string) x = (\<lambda>_ bs. take 5 bs) k (y :: bytes)"
  using chunk_id_collision_free [of "\<lambda>_ bs. take 5 bs" "[1]" "[2]"]
  by (simp add: chunk_hash_def chunk_transcript_def ascii_def)

lemma word_of_bytes_snoc:
  "word_of_bytes (bs @ [b]) = push_bit 8 (word_of_bytes bs) OR ucast b"
  by (simp add: word_of_bytes_def)

lemma word_of_bytes_bit:
  "length bs \<le> 8 \<Longrightarrow> n < 64 \<Longrightarrow>
   bit (word_of_bytes bs) n \<longleftrightarrow> n div 8 < length bs \<and> bit (rev bs ! (n div 8)) (n mod 8)"
proof (induction bs arbitrary: n rule: rev_induct)
  case (snoc b bs)
  show ?case
  proof (cases "n < 8")
    case True
    then show ?thesis
      by (simp add: word_of_bytes_snoc bit_or_iff bit_push_bit_iff bit_ucast_iff)
  next
    case False
    then have "\<not> bit b n" using bit_imp_le_length [of b n] by auto
    moreover have "(n - 8) div 8 = n div 8 - 1" "(n - 8) mod 8 = n mod 8" "0 < n div 8"
      using False by (simp_all add: le_div_geq le_mod_geq div_greater_zero_iff)
    moreover from this have "n div 8 - Suc 0 < length bs \<longleftrightarrow> n div 8 < Suc (length bs)"
      by arith
    ultimately show ?thesis
      using snoc False
      by (auto simp: word_of_bytes_snoc bit_or_iff bit_push_bit_iff bit_ucast_iff nth_Cons')
  qed
qed (simp add: word_of_bytes_def)

lemma word_of_bytes_zero:
  assumes "length bs \<le> 8"
  shows "word_of_bytes bs = 0 \<longleftrightarrow> (\<forall>b \<in> set bs. b = 0)"
proof
  assume z: "word_of_bytes bs = 0"
  have "rev bs ! i = 0" if i: "i < length bs" for i
  proof (rule bit_word_eqI)
    fix n assume "n < LENGTH(8)"
    then have "8 * i + n < 64" "(8 * i + n) div 8 = i" "(8 * i + n) mod 8 = n"
      using i assms by simp_all
    with word_of_bytes_bit [OF assms, of "8 * i + n"] z i
    show "bit (rev bs ! i) n = bit 0 n" by simp
  qed
  then show "\<forall>b \<in> set bs. b = 0"
    by (metis in_set_conv_nth length_rev set_rev)
next
  assume "\<forall>b \<in> set bs. b = 0"
  then show "word_of_bytes bs = 0"
    by (induction bs rule: rev_induct) (auto simp: word_of_bytes_snoc, simp add: word_of_bytes_def)
qed


text \<open>
  C28: compressing a chunk and decompressing the result gives the chunk back, for either
  compressor, as long as the compressor undoes itself when told the original length; the
  id check of \<open>from_decompressed\<close> never rejects it.
\<close>

theorem compress_roundtrip:
  assumes "chunk_ok H c"
    and "\<And>z bs. unpack k z (pack k z bs) (length bs) = Some bs"
  shows "decompress H k (compress k c z) = Inr c"
  using assms
  by (simp add: decompress_def compress_def from_decompressed_def chunk_ok_eq chunk_ok_def)

definition stored_codec :: codec where
  "stored_codec = \<lparr>pack = (\<lambda>z bs. bs), unpack = (\<lambda>z bs n. if length bs = n then Some bs else None)\<rparr>"

theorem compress_roundtrip_witness:
  "decompress (\<lambda>k bs. take 32 bs) stored_codec
     (compress stored_codec (chunk_from (\<lambda>k bs. take 32 bs) [7, 8]) Zstd)
   = Inr (chunk_from (\<lambda>k bs. take 32 bs) [7, 8])"
  by (rule compress_roundtrip) (simp_all add: wf_intros stored_codec_def)

text \<open>
  C29: decompression is checked. Whatever bytes a compressed chunk carries, a successful
  decompression is a well-formed chunk with the id the caller asked for.
\<close>

theorem decompress_checked:
  assumes "decompress H k cc = Inr c"
  shows "ch_id c = cc_id cc \<and> chunk_ok H c"
  using assms
  by (auto simp: decompress_def from_decompressed_def Let_def wf_intros split: option.splits if_splits)

theorem decompress_checked_witness:
  "ch_id (chunk_from (\<lambda>k bs. bs) [5]) =
     cc_id (compress stored_codec (chunk_from (\<lambda>k bs. bs) [5]) Lz4)
   \<and> chunk_ok (\<lambda>k bs. bs) (chunk_from (\<lambda>k bs. bs) [5])"
  by (rule decompress_checked [where k = stored_codec])
    (simp add: decompress_def compress_def from_decompressed_def stored_codec_def)

text \<open>
  What a backend hands back for an object it stored: its bytes, and its metadata either as
  the map (renterd, the mock) or as the serialised bytes (indexd).
\<close>

definition stored_as_map :: "uploadable \<Rightarrow> download" where
  "stored_as_map u = \<lparr>dl_metadata = IoRenterd (md_to_map (up_metadata u)), dl_content = Inr (up_content u)\<rparr>"

definition stored_as_bytes :: "metadata_format \<Rightarrow> uploadable \<Rightarrow> download" where
  "stored_as_bytes F u =
     \<lparr>dl_metadata = IoIndexd True (md_to_bytes F (up_metadata u)), dl_content = Inr (up_content u)\<rparr>"

lemma metadata_keys_distinct:
  "METADATA_CHUNK_ID \<noteq> METADATA_VFS_OBJECT_TYPE" "METADATA_VFS_OBJECT_TYPE \<noteq> METADATA_CHUNK_ID"
  by (simp_all add: METADATA_CHUNK_ID_def METADATA_VFS_OBJECT_TYPE_def ascii_def)


text \<open>
  C18: whatever a backend answers, a chunk loaded from it is well-formed, so its id is the
  hash of its content, and the metadata of the object named exactly that id; a swapped or
  corrupted object is an error.
\<close>

theorem chunk_load_checked:
  assumes "chunk_load_from_backend H F oid remote = Inr c"
  shows "chunk_ok H c \<and> (\<exists>dl md. remote oid = Inr dl \<and> md_try_from_io F (dl_metadata dl) = Inr md
    \<and> dl_content dl = Inr (ch_content c) \<and> md_get F md METADATA_CHUNK_ID = Some (content_id_display (ch_id c)))"
  using assms
  by (auto simp: chunk_load_from_backend_def Let_def wf_intros split: sum.splits if_splits)

definition demo_remote :: "hasher \<Rightarrow> remote_storage" where
  "demo_remote H oid = (if oid = [9]
     then Inr (stored_as_map (chunk_to_uploadable_object [118] (chunk_from H [1, 2, 3])))
     else Inl (IoError KNotFound ''no object''))"


theorem chunk_load_checked_witness:
  "chunk_ok (\<lambda>k bs. take 32 bs) (chunk_from (\<lambda>k bs. take 32 bs) [1, 2, 3])"
proof -
  have "chunk_load_from_backend (\<lambda>k bs. take 32 bs) demo_metadata_format [9]
      (demo_remote (\<lambda>k bs. take 32 bs)) = Inr (chunk_from (\<lambda>k bs. take 32 bs) [1, 2, 3])"
    by code_simp
  from chunk_load_checked [OF this] show ?thesis by blast
qed

end
