(* ===== verification/Blob.thy ===== *)
theory Blob
  imports Chunk ChunkMap
begin

text \<open>
  Blobs (\<open>janus-vfs/src/blob/mod.rs\<close>): a chunk map with a storage mode, named by the hash of
  a transcript of the map (\<open>ChunkMap::hash\<close>). The flatbuffer encoding of a blob is the
  parameter \<open>blob_format\<close>: what the schema's generated code writes and reads, not how.
\<close>

section \<open>Data\<close>

datatype storage_mode = Synced object_id | Local bytes

record blob =
  bl_id :: content_id
  bl_mode :: storage_mode
  bl_chunk_map :: chunk_map

record blob_mut =
  bm_chunk_map :: chunk_map
  bm_mode :: storage_mode

record flat_blob =
  fb_len :: u64
  fb_chunks :: "chunk_range list option"

record blob_format =
  enc_blob :: "flat_blob \<Rightarrow> bytes"
  dec_blob :: "bytes \<Rightarrow> flat_blob option"

datatype blob_error =
    BlobFlatbufferError
  | BlobIdMismatch content_id content_id
  | InvalidBlobId

section \<open>Operations\<close>

definition range_transcript :: "chunk_range \<Rightarrow> bytes" where
  "range_transcript r =
     ascii ''begin_chunk'' @ nl @ ascii ''offset:'' @ be8 (cr_offset r) @
     nl @ ascii ''length:'' @ be8 (cr_len r) @
     nl @ ascii ''chunk_id:'' @ cr_chunk_id r @
     nl @ ascii ''chunk_offset:'' @ be8 (cr_chunk_offset r) @
     nl @ ascii ''end_chunk''"

definition map_transcript :: "chunk_map \<Rightarrow> bytes" where
  "map_transcript m =
     ascii ''begin'' @ nl @ ascii ''length:'' @ be8 (cm_len m) @
     nl @ ascii ''no_chunks:'' @ be4 (of_nat (length (cm_iter m))) @
     nl @ ascii ''nchunks:'' @ concat (map range_transcript (cm_iter m)) @
     nl @ ascii ''end''"

definition blob_hash :: "hasher \<Rightarrow> chunk_map \<Rightarrow> content_id" where
  "blob_hash H m = H ''[janus-vfs]/[v1]/[blob_id]'' (map_transcript m)"

definition blob_mut_empty :: blob_mut where
  "blob_mut_empty = \<lparr>bm_chunk_map = cm_new, bm_mode = Local []\<rparr>"

definition from_chunk_map :: "chunk_map \<Rightarrow> storage_mode \<Rightarrow> blob_mut" where
  "from_chunk_map m mode = \<lparr>bm_chunk_map = m, bm_mode = mode\<rparr>"

definition blob_mut_len :: "blob_mut \<Rightarrow> u64" where
  "blob_mut_len b = cm_len (bm_chunk_map b)"

definition blob_mut_set_len :: "u64 \<Rightarrow> blob_mut \<Rightarrow> blob_mut" where
  "blob_mut_set_len n b = b\<lparr>bm_chunk_map := cm_set_len n (bm_chunk_map b)\<rparr>"

definition finalize :: "hasher \<Rightarrow> blob_mut \<Rightarrow> blob" where
  "finalize H b = \<lparr>bl_id = blob_hash H (bm_chunk_map b), bl_mode = bm_mode b,
     bl_chunk_map = bm_chunk_map b\<rparr>"

definition into_mut :: "blob \<Rightarrow> blob_mut" where
  "into_mut b = \<lparr>bm_chunk_map = bl_chunk_map b, bm_mode = bl_mode b\<rparr>"

definition into_synced :: "hasher \<Rightarrow> object_id \<Rightarrow> blob \<Rightarrow> blob" where
  "into_synced H oid b = finalize H ((into_mut b)\<lparr>bm_mode := Synced oid\<rparr>)"

definition blob_len :: "blob \<Rightarrow> u64" where
  "blob_len b = cm_len (bl_chunk_map b)"

definition blob_is_empty :: "blob \<Rightarrow> bool" where
  "blob_is_empty b = cm_is_empty (bl_chunk_map b)"

definition to_flatbuffer :: "blob_format \<Rightarrow> blob \<Rightarrow> bytes" where
  "to_flatbuffer F b = enc_blob F \<lparr>fb_len = blob_len b, fb_chunks = Some (cm_iter (bl_chunk_map b))\<rparr>"

definition try_from_flatbuffer ::
  "hasher \<Rightarrow> blob_format \<Rightarrow> bytes \<Rightarrow> storage_mode \<Rightarrow> blob_error + blob" where
  "try_from_flatbuffer H F buffer mode =
     (case dec_blob F buffer of
        None \<Rightarrow> Inl BlobFlatbufferError
      | Some fb \<Rightarrow>
          let chunk_map = fold (\<lambda>c m. cm_insert (cr_offset c) (cr_len c) (cr_chunk_id c) (cr_chunk_offset c) m)
                (case fb_chunks fb of None \<Rightarrow> [] | Some cs \<Rightarrow> cs) (with_len (fb_len fb))
          in Inr (finalize H (from_chunk_map chunk_map mode)))"

definition BLOB_OBJECT_TYPE :: bytes where
  "BLOB_OBJECT_TYPE = ascii ''BLOB''"

definition METADATA_BLOB_ID :: bytes where
  "METADATA_BLOB_ID = ascii ''BLOB-ID''"

definition blob_load_from_backend ::
  "hasher \<Rightarrow> metadata_format \<Rightarrow> blob_format \<Rightarrow> object_id \<Rightarrow> remote_oid \<Rightarrow> remote_storage
   \<Rightarrow> io_error + blob" where
  "blob_load_from_backend H F B object_id oid remote =
     (case remote oid of
        Inl e \<Rightarrow> Inl e
      | Inr dl \<Rightarrow>
          (case md_try_from_io F (dl_metadata dl) of
             Inl e \<Rightarrow> Inl (IoError KOther ''invalid metadata'')
           | Inr md \<Rightarrow>
               if md_get F md METADATA_VFS_OBJECT_TYPE \<noteq> Some BLOB_OBJECT_TYPE
               then Inl (IoError KOther ''METADATA_OBJECT_TYPE mismatch'')
               else (case dl_content dl of
                       Inl e \<Rightarrow> Inl e
                     | Inr buffer \<Rightarrow>
                         (case try_from_flatbuffer H B buffer (Synced object_id) of
                            Inl e \<Rightarrow> Inl (IoError KOther ''invalid blob'')
                          | Inr this \<Rightarrow>
                              if md_get F md METADATA_BLOB_ID \<noteq> Some (content_id_display (bl_id this))
                              then Inl (IoError KOther ''METADATA_BLOB_ID mismatch'')
                              else Inr this))))"

definition blob_to_uploadable_object :: "blob_format \<Rightarrow> bytes \<Rightarrow> blob \<Rightarrow> uploadable" where
  "blob_to_uploadable_object B vfs_id_text b =
     (let md = AList.update METADATA_BLOB_ID (content_id_display (bl_id b))
                 (with_vfs_template vfs_id_text BLOB_OBJECT_TYPE)
      in \<lparr>up_path = ascii ''/blobs/'' @ content_id_display (bl_id b) @ ascii ''.blob'',
          up_content = to_flatbuffer B b, up_metadata = md_freeze md\<rparr>)"

text \<open>
  Every blob the program holds comes from \<open>finalize\<close> of a map built by the map's operations
  from chunk ids of 32 bytes.
\<close>

definition ids_ok :: "chunk_map \<Rightarrow> bool" where
  "ids_ok m = (\<forall>p \<in> set (cm_entries m). length (ce_chunk_id (snd p)) = 32)"

definition blob_ok :: "hasher \<Rightarrow> blob \<Rightarrow> bool" where
  "blob_ok H b = (cm_wf (bl_chunk_map b) \<and> bl_id b = blob_hash H (bl_chunk_map b))"

section \<open>The transcript determines the map\<close>

lemma length_range_transcript: "length (cr_chunk_id r) = 32 \<Longrightarrow> length (range_transcript r) = 117"
  by (simp add: range_transcript_def)

lemma range_transcript_inject:
  assumes "range_transcript r = range_transcript r'"
    and "length (cr_chunk_id r) = 32" and "length (cr_chunk_id r') = 32"
  shows "r = r'"
  using assms by (simp add: range_transcript_def append_inject_prefix)

lemma cm_iter_inject: "cm_iter m = cm_iter m' \<Longrightarrow> cm_entries m = cm_entries m'"
proof -
  have inj: "inj (\<lambda>(start, e :: chunk_entry). \<lparr>cr_offset = start, cr_len = ce_end e - start,
      cr_chunk_id = ce_chunk_id e, cr_chunk_offset = ce_chunk_offset e\<rparr>)"
    by (auto intro!: injI chunk_entry.equality)
  show "cm_iter m = cm_iter m' \<Longrightarrow> cm_entries m = cm_entries m'"
    unfolding cm_iter_def by (rule injD [OF inj_mapI [OF inj]])
qed

lemma ids_ok_iter: "ids_ok m \<Longrightarrow> r \<in> set (cm_iter m) \<Longrightarrow> length (cr_chunk_id r) = 32"
  by (auto simp: ids_ok_def cm_iter_def)

lemma map_transcript_inject:
  assumes "map_transcript m = map_transcript m'" and "ids_ok m" and "ids_ok m'"
  shows "m = m'"
proof -
  have len: "cm_len m = cm_len m'"
    and cat: "concat (map range_transcript (cm_iter m)) = concat (map range_transcript (cm_iter m'))"
    using assms(1) by (simp_all add: map_transcript_def append_inject_prefix)
  have eq: "map range_transcript (cm_iter m) = map range_transcript (cm_iter m')"
    by (rule concat_fixed_inject [where k = 117, OF _ _ _ cat])
      (use assms in \<open>auto dest: ids_ok_iter intro: length_range_transcript\<close>)
  have "cm_iter m = cm_iter m'"
    using eq by (rule map_inj_on)
      (use assms in \<open>auto intro!: inj_onI range_transcript_inject dest: ids_ok_iter\<close>)
  then have "cm_entries m = cm_entries m'" by (rule cm_iter_inject)
  with len show ?thesis by simp
qed

text \<open>
  C20: the transcript a blob is named after determines its chunk map, so two maps with one
  blob id are equal or exhibit a collision of the hash function; and for well-formed maps
  equality means that they read every offset from the same byte of the same chunk.
\<close>

theorem blob_id_collision_free:
  assumes "ids_ok m" and "ids_ok m'" and "blob_hash H m = blob_hash H m'"
  shows "m = m' \<or> (\<exists>k x y. x \<noteq> y \<and> H k x = H k y)"
  using assms map_transcript_inject [of m m'] by (auto simp: blob_hash_def)

theorem blob_id_collision_free_witness:
  "\<exists>k x y. x \<noteq> y \<and> (\<lambda>_ bs. take 20 (rev bs)) (k :: string) x = (\<lambda>_ bs. take 20 (rev bs)) k (y :: bytes)"
proof -
  have "ids_ok (with_len 5)" "ids_ok (with_len 6)" by (simp_all add: ids_ok_def with_len_def)
  moreover have "blob_hash (\<lambda>_ bs. take 20 (rev bs)) (with_len 5) = blob_hash (\<lambda>_ bs. take 20 (rev bs)) (with_len 6)"
    by code_simp
  ultimately show ?thesis
    using blob_id_collision_free [of "with_len 5" "with_len 6" "\<lambda>_ bs. take 20 (rev bs)"]
    by (simp add: with_len_def)
qed

section \<open>Blobs over the wire\<close>

lemma try_from_flatbuffer_rebuild:
  "try_from_flatbuffer H B buf mode =
     (case dec_blob B buf of None \<Rightarrow> Inl BlobFlatbufferError
      | Some fb \<Rightarrow> Inr (finalize H (from_chunk_map
          (rebuild (fb_len fb) (case fb_chunks fb of None \<Rightarrow> [] | Some cs \<Rightarrow> cs)) mode)))"
  by (simp add: try_from_flatbuffer_def rebuild_def insert_range_def [abs_def] Let_def split: option.split)

lemma blob_ok_finalize: "cm_wf (bm_chunk_map b) \<Longrightarrow> blob_ok H (finalize H b)"
  by (simp add: blob_ok_def finalize_def)

lemma try_from_flatbuffer_ok:
  assumes "try_from_flatbuffer H B buf mode = Inr b"
  shows "blob_ok H b \<and> bl_mode b = mode"
  using assms
  by (auto simp: try_from_flatbuffer_rebuild blob_ok_def finalize_def from_chunk_map_def rebuild_wf
      split: option.splits)


text \<open>A concrete blob of one chunk and a remote store that holds it.\<close>

definition demo_blob :: "hasher \<Rightarrow> blob" where
  "demo_blob H = finalize H \<lparr>bm_chunk_map = demo_map, bm_mode = Local []\<rparr>"

definition demo_blob_format :: blob_format where
  "demo_blob_format = \<lparr>enc_blob = (\<lambda>fb. be8 (fb_len fb)),
     dec_blob = (\<lambda>bs. if bs = be8 12 then Some \<lparr>fb_len = 12, fb_chunks = Some (cm_iter demo_map)\<rparr> else None)\<rparr>"

definition demo_hasher :: hasher where
  "demo_hasher k bs = take 32 (rev bs)"


end
