(* ===== verification/BlobIo.thy ===== *)
theory BlobIo
  imports Blob
begin

text \<open>
  Reading and writing the content of a blob (\<open>janus-vfs/src/blob/io.rs\<close>): the chunk fetcher,
  the write buffer and pipeline, the reader and the writer. The asynchronous code is
  modelled poll by poll: a poll takes the state and the world and answers \<open>Pending\<close>, a
  result or an error, together with the new state, or panics. A future that has completed
  and is polled again panics, as an \<open>async\<close> block does. Buffers a caller passes for reading
  are their length; the bytes copied are the result.
\<close>

section \<open>Polling\<close>

type_synonym ('s, 'a) pollm = "'s \<Rightarrow> ((io_error + 'a) poll \<times> 's) outcome"

text \<open>\<open>ready!(m)?\<close> followed by the rest of the function.\<close>

definition pbind :: "('s, 'a) pollm \<Rightarrow> ('a \<Rightarrow> ('s, 'b) pollm) \<Rightarrow> ('s, 'b) pollm" where
  "pbind m f s = (case m s of
     Panics \<Rightarrow> Panics
   | Returns (Pending, s') \<Rightarrow> Returns (Pending, s')
   | Returns (Ready (Inl e), s') \<Rightarrow> Returns (Ready (Inl e), s')
   | Returns (Ready (Inr a), s') \<Rightarrow> f a s')"

definition pret :: "'a \<Rightarrow> ('s, 'a) pollm" where
  "pret a s = Returns (Ready (Inr a), s)"

definition pfail :: "io_error \<Rightarrow> ('s, 'a) pollm" where
  "pfail e s = Returns (Ready (Inl e), s)"

text \<open>
  Awaiting a poll function: it is polled until it is ready, at most \<open>n\<close> times.
\<close>

fun drive :: "nat \<Rightarrow> ('s, 'a) pollm \<Rightarrow> 's \<Rightarrow> ((io_error + 'a) \<times> 's) outcome option" where
  "drive 0 m s = None"
| "drive (Suc n) m s = (case m s of
     Panics \<Rightarrow> Some Panics
   | Returns (Pending, s') \<Rightarrow> drive n m s'
   | Returns (Ready r, s') \<Rightarrow> Some (Returns (r, s')))"

text \<open>The traits \<open>ChunkSource\<close> and \<open>ChunkSink\<close>: one poll of the future each method returns.\<close>

record 'w backend =
  poll_get_chunk :: "content_id \<Rightarrow> 'w \<Rightarrow> (io_error + chunk option) poll \<times> 'w"
  poll_insert_chunk :: "chunk \<Rightarrow> 'w \<Rightarrow> (io_error + unit) poll \<times> 'w"

section \<open>Fetching chunks\<close>

text \<open>An in-flight fetch carries the id it was started for and whether its future completed.\<close>

record chunk_fetch =
  cf_cached :: "chunk option"
  cf_inflight :: "(content_id \<times> bool) option"

definition chunk_fetch_new :: chunk_fetch where
  "chunk_fetch_new = \<lparr>cf_cached = None, cf_inflight = None\<rparr>"

definition poll_ensure :: "'w backend \<Rightarrow> content_id \<Rightarrow> (chunk_fetch \<times> 'w, unit) pollm" where
  "poll_ensure B chunk_id = (\<lambda>(f, w).
     if (case cf_cached f of Some c \<Rightarrow> ch_id c = chunk_id | None \<Rightarrow> False)
     then Returns (Ready (Inr ()), f, w)
     else
       let completed = (case cf_inflight f of Some (i, d) \<Rightarrow> i = chunk_id \<and> d | None \<Rightarrow> False);
           f1 = (if (case cf_inflight f of Some (i, _) \<Rightarrow> i = chunk_id | None \<Rightarrow> False) then f
                 else f\<lparr>cf_inflight := Some (chunk_id, False)\<rparr>)
       in if completed then Panics
          else (case poll_get_chunk B chunk_id w of
                  (Pending, w') \<Rightarrow> Returns (Pending, f1, w')
                | (Ready (Inl e), w') \<Rightarrow>
                    Returns (Ready (Inl e), f1\<lparr>cf_inflight := Some (chunk_id, True)\<rparr>, w')
                | (Ready (Inr None), w') \<Rightarrow>
                    Returns (Ready (Inl (IoError KNotFound ''chunk not found'')),
                             f1\<lparr>cf_inflight := Some (chunk_id, True)\<rparr>, w')
                | (Ready (Inr (Some chunk)), w') \<Rightarrow>
                    Returns (Ready (Inr ()), f1\<lparr>cf_inflight := None, cf_cached := Some chunk\<rparr>, w')))"

definition invalidate :: "chunk_fetch \<Rightarrow> chunk_fetch" where
  "invalidate f = f\<lparr>cf_cached := None, cf_inflight := None\<rparr>"

section \<open>The write buffer\<close>

text \<open>
  \<open>Vec<u8>\<close> with its capacity, which the buffer's window depends on. \<open>vec_extend_cap\<close> is the
  growth of \<open>extend_from_slice\<close>: none when the data fits, else at least doubling.
\<close>

record write_buffer =
  wb_start_pos :: u64
  wb_content :: bytes
  wb_capacity :: nat
  wb_dirty :: bool

definition vec_extend_cap :: "nat \<Rightarrow> nat \<Rightarrow> nat" where
  "vec_extend_cap cap len = (if len \<le> cap then cap else max 8 (max (2 * cap) len))"

definition write_buffer_new :: "u64 \<Rightarrow> usize \<Rightarrow> write_buffer" where
  "write_buffer_new start_pos capacity =
     \<lparr>wb_start_pos = start_pos, wb_content = [], wb_capacity = unat capacity, wb_dirty = False\<rparr>"

definition from_data :: "u64 \<Rightarrow> usize \<Rightarrow> bytes \<Rightarrow> write_buffer" where
  "from_data start_pos capacity data =
     (write_buffer_new start_pos capacity)
       \<lparr>wb_content := data, wb_capacity := vec_extend_cap (unat capacity) (length data)\<rparr>"

definition end_pos :: "write_buffer \<Rightarrow> u64" where
  "end_pos b = wb_start_pos b + of_nat (length (wb_content b))"

definition capacity_end :: "write_buffer \<Rightarrow> u64" where
  "capacity_end b = wb_start_pos b + of_nat (wb_capacity b)"

definition wb_contains :: "write_buffer \<Rightarrow> u64 \<Rightarrow> bool" where
  "wb_contains b pos = (wb_start_pos b \<le> pos \<and> pos < capacity_end b)"

definition read_at :: "write_buffer \<Rightarrow> u64 \<Rightarrow> nat \<Rightarrow> bytes" where
  "read_at b pos buf_len =
     (if pos < wb_start_pos b \<or> end_pos b \<le> pos then []
      else take buf_len (drop (unat (pos - wb_start_pos b)) (wb_content b)))"

definition write_into_vec :: "nat \<Rightarrow> bytes \<Rightarrow> nat \<Rightarrow> bytes \<Rightarrow> (nat \<times> bytes) outcome" where
  "write_into_vec cap vec offset data =
     (if cap < offset then Panics
      else let writable = min (length data) (cap - offset);
               fin = offset + writable;
               prev_len = length vec
           in if prev_len < fin
              then Returns (writable, take offset (vec @ replicate (offset - prev_len) 0) @ take writable data)
              else Returns (writable, take offset vec @ take writable data @ drop fin vec))"

definition write_at :: "write_buffer \<Rightarrow> u64 \<Rightarrow> bytes \<Rightarrow> (nat \<times> write_buffer) outcome" where
  "write_at b pos data =
     (case write_into_vec (wb_capacity b) (wb_content b) (unat (pos - wb_start_pos b)) data of
        Panics \<Rightarrow> Panics
      | Returns (n, content) \<Rightarrow>
          Returns (n, b\<lparr>wb_content := content, wb_dirty := wb_dirty b \<or> 0 < n\<rparr>))"

section \<open>The write pipeline\<close>

text \<open>
  A submission in flight: the chunk its future owns, where it goes, and whether the future
  has completed (with an error, since a success removes the submission).
\<close>

record submit_in_flight =
  si_chunk_id :: content_id
  si_pos :: u64
  si_len :: usize
  si_chunk :: chunk
  si_completed :: bool

record write_pipeline =
  wp_buffer :: "write_buffer option"
  wp_submit :: "submit_in_flight option"

definition write_pipeline_new :: write_pipeline where
  "write_pipeline_new = \<lparr>wp_buffer = None, wp_submit = None\<rparr>"

definition is_dirty :: "write_pipeline \<Rightarrow> bool" where
  "is_dirty p = (wp_submit p \<noteq> None
     \<or> (case wp_buffer p of Some b \<Rightarrow> wb_dirty b | None \<Rightarrow> False))"

definition poll_submit_complete ::
  "'w backend \<Rightarrow> (write_pipeline \<times> 'w, (content_id \<times> u64 \<times> usize) option) pollm" where
  "poll_submit_complete B = (\<lambda>(p, w).
     case wp_submit p of
       None \<Rightarrow> Returns (Ready (Inr None), p, w)
     | Some s \<Rightarrow>
         if si_completed s then Panics
         else (case poll_insert_chunk B (si_chunk s) w of
                 (Pending, w') \<Rightarrow> Returns (Pending, p, w')
               | (Ready (Inl e), w') \<Rightarrow>
                   Returns (Ready (Inl e), p\<lparr>wp_submit := Some (s\<lparr>si_completed := True\<rparr>)\<rparr>, w')
               | (Ready (Inr _), w') \<Rightarrow>
                   Returns (Ready (Inr (Some (si_chunk_id s, si_pos s, si_len s))),
                            p\<lparr>wp_submit := None\<rparr>, w')))"

definition submit_of :: "hasher \<Rightarrow> write_buffer \<Rightarrow> submit_in_flight" where
  "submit_of H b = (let chunk = chunk_from H (wb_content b)
     in \<lparr>si_chunk_id = ch_id chunk, si_pos = wb_start_pos b,
         si_len = of_nat (length (wb_content b)), si_chunk = chunk, si_completed = False\<rparr>)"

definition poll_flush ::
  "hasher \<Rightarrow> 'w backend \<Rightarrow> (write_pipeline \<times> 'w, (content_id \<times> u64 \<times> usize) option) pollm" where
  "poll_flush H B = (\<lambda>(p, w).
     if wp_submit p \<noteq> None then poll_submit_complete B (p, w)
     else (case wp_buffer p of
             Some buf \<Rightarrow>
               if wb_dirty buf
               then poll_submit_complete B (p\<lparr>wp_buffer := None, wp_submit := Some (submit_of H buf)\<rparr>, w)
               else Returns (Ready (Inr None), p\<lparr>wp_buffer := None\<rparr>, w)
           | None \<Rightarrow> Returns (Ready (Inr None), p, w)))"

section \<open>Resolving a read\<close>

datatype chunk_map_result =
    RChunk content_id usize u64
  | RZero nat
  | REof

definition resolve_read :: "chunk_map \<Rightarrow> u64 \<Rightarrow> nat \<Rightarrow> chunk_map_result" where
  "resolve_read m pos buf_len =
     (case cm_get pos m of
        Some (CChunk chunk_id chunk_offset len) \<Rightarrow> RChunk chunk_id chunk_offset len
      | Some (CHole len) \<Rightarrow> RZero (min (unat len) buf_len)
      | None \<Rightarrow> REof)"

definition copy_from_chunk :: "chunk \<Rightarrow> usize \<Rightarrow> u64 \<Rightarrow> nat \<Rightarrow> bytes outcome" where
  "copy_from_chunk chunk chunk_offset max_len buf_len =
     (if length (ch_content chunk) < unat chunk_offset then Panics
      else let content = drop (unat chunk_offset) (ch_content chunk);
               n = min (min (unat max_len) buf_len) (length content)
           in Returns (take n content))"

datatype seek_from = SeekStart u64 | SeekCurrent int | SeekEnd int

definition compute_seek_target :: "bool \<Rightarrow> u64 \<Rightarrow> u64 \<Rightarrow> seek_from \<Rightarrow> io_error + u64" where
  "compute_seek_target allow_beyond_eof current len pos =
     (let underflow = IoError KInvalidInput ''seek underflow'';
          target = (case pos of
             SeekStart n \<Rightarrow> Inr n
           | SeekCurrent n \<Rightarrow> (case checked_add_signed current n of None \<Rightarrow> Inl underflow | Some t \<Rightarrow> Inr t)
           | SeekEnd n \<Rightarrow> (case checked_add_signed len n of None \<Rightarrow> Inl underflow | Some t \<Rightarrow> Inr t))
      in case target of
           Inl e \<Rightarrow> Inl e
         | Inr t \<Rightarrow> if len < t \<and> \<not> allow_beyond_eof
                    then Inl (IoError KInvalidInput ''seeking beyond EOF unsupported'')
                    else Inr t)"

section \<open>The reader\<close>

record 'w blob_reader =
  br_blob :: blob
  br_fetch :: chunk_fetch
  br_pos :: u64
  br_error_count :: usize
  br_world :: 'w

definition new_reader :: "blob \<Rightarrow> 'w \<Rightarrow> 'w blob_reader" where
  "new_reader b w = \<lparr>br_blob = b, br_fetch = chunk_fetch_new, br_pos = 0, br_error_count = 0, br_world = w\<rparr>"

definition reader_poll_read :: "'w backend \<Rightarrow> nat \<Rightarrow> ('w blob_reader, bytes) pollm" where
  "reader_poll_read B buf_len r =
     (let pos = br_pos r
      in if blob_len (br_blob r) \<le> pos then Returns (Ready (Inr []), r)
         else (case resolve_read (bl_chunk_map (br_blob r)) pos buf_len of
                 RZero n \<Rightarrow> Returns (Ready (Inr (replicate n 0)), r\<lparr>br_pos := pos + of_nat n\<rparr>)
               | REof \<Rightarrow> Returns (Ready (Inr []), r)
               | RChunk chunk_id chunk_offset len \<Rightarrow>
                   (case poll_ensure B chunk_id (br_fetch r, br_world r) of
                      Panics \<Rightarrow> Panics
                    | Returns (Pending, f, w) \<Rightarrow> Returns (Pending, r\<lparr>br_fetch := f, br_world := w\<rparr>)
                    | Returns (Ready (Inl e), f, w) \<Rightarrow>
                        Returns (Ready (Inl e), r\<lparr>br_fetch := f, br_world := w,
                                                 br_error_count := br_error_count r + 1\<rparr>)
                    | Returns (Ready (Inr _), f, w) \<Rightarrow>
                        (case cf_cached f of
                           None \<Rightarrow> Panics
                         | Some chunk \<Rightarrow>
                             (case copy_from_chunk chunk chunk_offset len buf_len of
                                Panics \<Rightarrow> Panics
                              | Returns bs \<Rightarrow>
                                  Returns (Ready (Inr bs), r\<lparr>br_fetch := f, br_world := w,
                                             br_pos := pos + of_nat (length bs)\<rparr>))))))"

definition reader_poll_seek :: "seek_from \<Rightarrow> ('w blob_reader, u64) pollm" where
  "reader_poll_seek pos r =
     (case compute_seek_target False (br_pos r) (blob_len (br_blob r)) pos of
        Inl e \<Rightarrow> Returns (Ready (Inl e), r\<lparr>br_error_count := br_error_count r + 1\<rparr>)
      | Inr t \<Rightarrow> Returns (Ready (Inr t), r\<lparr>br_pos := t\<rparr>))"

section \<open>The writer\<close>

record 'w read_write =
  rw_blob :: blob_mut
  rw_fetch :: chunk_fetch
  rw_pipeline :: write_pipeline
  rw_max_chunk_size :: usize
  rw_closed :: bool
  rw_world :: 'w

record 'w blob_writer =
  bw_mode :: "'w read_write"
  bw_pos :: u64
  bw_error_count :: usize

definition new_writer :: "blob_mut \<Rightarrow> 'w \<Rightarrow> usize \<Rightarrow> 'w blob_writer" where
  "new_writer b w max_chunk_size =
     \<lparr>bw_mode = \<lparr>rw_blob = b, rw_fetch = chunk_fetch_new, rw_pipeline = write_pipeline_new,
        rw_max_chunk_size = max_chunk_size, rw_closed = False, rw_world = w\<rparr>,
      bw_pos = 0, bw_error_count = 0\<rparr>"

definition check_closed :: "('w read_write, unit) pollm" where
  "check_closed rw = (if rw_closed rw then pfail (IoError KOther ''already closed'') rw else pret () rw)"

text \<open>Running a poll of the pipeline, or of the fetcher, inside the writer.\<close>

definition on_pipeline :: "(write_pipeline \<times> 'w, 'a) pollm \<Rightarrow> ('w read_write, 'a) pollm" where
  "on_pipeline m rw = (case m (rw_pipeline rw, rw_world rw) of
     Panics \<Rightarrow> Panics
   | Returns (r, p, w) \<Rightarrow> Returns (r, rw\<lparr>rw_pipeline := p, rw_world := w\<rparr>))"

definition on_fetch :: "(chunk_fetch \<times> 'w, 'a) pollm \<Rightarrow> ('w read_write, 'a) pollm" where
  "on_fetch m rw = (case m (rw_fetch rw, rw_world rw) of
     Panics \<Rightarrow> Panics
   | Returns (r, f, w) \<Rightarrow> Returns (r, rw\<lparr>rw_fetch := f, rw_world := w\<rparr>))"

text \<open>What both flushing and completing do with a submitted chunk: grow the blob, map it in.\<close>

definition apply_submitted :: "content_id \<times> u64 \<times> usize \<Rightarrow> blob_mut \<Rightarrow> blob_mut" where
  "apply_submitted = (\<lambda>(chunk_id, pos, len) b.
     let new_len = pos + len;
         b1 = (if blob_mut_len b < new_len then blob_mut_set_len new_len b else b)
     in b1\<lparr>bm_chunk_map := cm_insert pos len chunk_id 0 (bm_chunk_map b1)\<rparr>)"

definition pipeline_work :: "write_pipeline \<Rightarrow> nat" where
  "pipeline_work p = (case wp_submit p of None \<Rightarrow> 0 | Some _ \<Rightarrow> 1) + (case wp_buffer p of None \<Rightarrow> 0 | Some _ \<Rightarrow> 1)"

lemma submit_complete_work:
  "poll_submit_complete B (p, w) = Returns (Ready (Inr (Some x)), p', w') \<Longrightarrow>
   wp_submit p \<noteq> None \<and> wp_submit p' = None \<and> wp_buffer p' = wp_buffer p"
  by (auto simp: poll_submit_complete_def split: option.splits poll.splits sum.splits prod.splits if_splits)

lemma flush_work:
  "poll_flush H B (p, w) = Returns (Ready (Inr (Some x)), p', w') \<Longrightarrow> pipeline_work p' < pipeline_work p"
  by (auto simp: poll_flush_def pipeline_work_def dest!: submit_complete_work
      split: option.splits if_splits)

function poll_flush_pipeline :: "hasher \<Rightarrow> 'w backend \<Rightarrow> ('w read_write, unit) pollm" where
  "poll_flush_pipeline H B rw =
     (case on_pipeline (poll_flush H B) rw of
        Panics \<Rightarrow> Panics
      | Returns (Pending, rw') \<Rightarrow> Returns (Pending, rw')
      | Returns (Ready (Inl e), rw') \<Rightarrow> Returns (Ready (Inl e), rw')
      | Returns (Ready (Inr None), rw') \<Rightarrow> Returns (Ready (Inr ()), rw')
      | Returns (Ready (Inr (Some done)), rw') \<Rightarrow>
          poll_flush_pipeline H B (rw'\<lparr>rw_blob := apply_submitted done (rw_blob rw')\<rparr>))"
  by pat_completeness auto
termination
  by (relation "measure (\<lambda>(H, B, rw). pipeline_work (rw_pipeline rw))")
    (auto simp: on_pipeline_def dest!: flush_work split: outcome.splits prod.splits)

declare poll_flush_pipeline.simps [simp del]

definition poll_ensure_submit_complete :: "'w backend \<Rightarrow> ('w read_write, unit) pollm" where
  "poll_ensure_submit_complete B =
     pbind (on_pipeline (poll_submit_complete B)) (\<lambda>r rw.
       case r of
         Some done \<Rightarrow> pret () (rw\<lparr>rw_blob := apply_submitted done (rw_blob rw)\<rparr>)
       | None \<Rightarrow> pret () rw)"

definition poll_read_impl :: "'w backend \<Rightarrow> u64 \<Rightarrow> nat \<Rightarrow> ('w read_write, bytes) pollm" where
  "poll_read_impl B pos buf_len =
     pbind check_closed (\<lambda>_.
     pbind (poll_ensure_submit_complete B) (\<lambda>_ rw.
       let buffered = (case wp_buffer (rw_pipeline rw) of
                         Some b \<Rightarrow> read_at b pos buf_len | None \<Rightarrow> [])
       in if buffered \<noteq> [] then pret buffered rw
          else (case resolve_read (bm_chunk_map (rw_blob rw)) pos buf_len of
                  RZero n \<Rightarrow> pret (replicate n 0) rw
                | REof \<Rightarrow> pret [] rw
                | RChunk chunk_id chunk_offset len \<Rightarrow>
                    pbind (on_fetch (poll_ensure B chunk_id)) (\<lambda>_ rw.
                      case cf_cached (rw_fetch rw) of
                        None \<Rightarrow> Panics
                      | Some chunk \<Rightarrow>
                          (case copy_from_chunk chunk chunk_offset len buf_len of
                             Panics \<Rightarrow> Panics
                           | Returns bs \<Rightarrow> pret bs rw)) rw)))"

definition set_buffer :: "write_buffer \<Rightarrow> 'w read_write \<Rightarrow> 'w read_write" where
  "set_buffer b rw = rw\<lparr>rw_pipeline := (rw_pipeline rw)\<lparr>wp_buffer := Some b\<rparr>\<rparr>"

text \<open>The step \<open>if no buffer, create one\<close> of \<open>poll_write_impl\<close>.\<close>

definition make_buffer :: "'w backend \<Rightarrow> u64 \<Rightarrow> ('w read_write, unit) pollm" where
  "make_buffer B pos rw =
     (if rw_max_chunk_size rw = 0 then Panics
      else let aligned_pos = pos - pos mod rw_max_chunk_size rw
           in case cm_get aligned_pos (bm_chunk_map (rw_blob rw)) of
                Some (CChunk chunk_id chunk_offset _) \<Rightarrow>
                  if chunk_offset = 0
                  then pbind (on_fetch (poll_ensure B chunk_id)) (\<lambda>_ rw.
                         case cf_cached (rw_fetch rw) of
                           None \<Rightarrow> Panics
                         | Some chunk \<Rightarrow>
                             pret () (set_buffer (from_data aligned_pos (rw_max_chunk_size rw)
                                                    (ch_content chunk)) rw)) rw
                  else pfail (IoError KOther ''unexpected mid-chunk alignment'') rw
              | Some (CHole len) \<Rightarrow>
                  pret () (set_buffer (write_buffer_new aligned_pos (min len (rw_max_chunk_size rw))) rw)
              | None \<Rightarrow>
                  pret () (set_buffer (write_buffer_new aligned_pos (rw_max_chunk_size rw)) rw))"

definition poll_write_impl :: "hasher \<Rightarrow> 'w backend \<Rightarrow> u64 \<Rightarrow> bytes \<Rightarrow> ('w read_write, nat) pollm" where
  "poll_write_impl H B pos buf =
     pbind check_closed (\<lambda>_.
     pbind (poll_ensure_submit_complete B) (\<lambda>_.
     pbind (\<lambda>rw. case wp_buffer (rw_pipeline rw) of
              Some b \<Rightarrow> if wb_contains b pos then pret () rw
                        else pbind (poll_flush_pipeline H B)
                               (\<lambda>_ rw. pret () (rw\<lparr>rw_fetch := invalidate (rw_fetch rw)\<rparr>)) rw
            | None \<Rightarrow> pret () rw) (\<lambda>_.
     pbind (\<lambda>rw. if wp_buffer (rw_pipeline rw) = None then make_buffer B pos rw else pret () rw) (\<lambda>_ rw.
       case wp_buffer (rw_pipeline rw) of
         None \<Rightarrow> Panics
       | Some b \<Rightarrow> (case write_at b pos buf of
                     Panics \<Rightarrow> Panics
                   | Returns (n, b') \<Rightarrow> pret n (set_buffer b' rw))))))"

text \<open>\<open>map_err(|e| { self.error_count += 1; e })\<close> around a poll of the mode.\<close>

definition on_mode :: "('w read_write, 'a) pollm \<Rightarrow> ('w blob_writer, 'a) pollm" where
  "on_mode m bw = (case m (bw_mode bw) of
     Panics \<Rightarrow> Panics
   | Returns (Ready (Inl e), rw) \<Rightarrow>
       Returns (Ready (Inl e), bw\<lparr>bw_mode := rw, bw_error_count := bw_error_count bw + 1\<rparr>)
   | Returns (r, rw) \<Rightarrow> Returns (r, bw\<lparr>bw_mode := rw\<rparr>))"

definition bw_len :: "'w blob_writer \<Rightarrow> u64" where
  "bw_len bw = max (blob_mut_len (rw_blob (bw_mode bw)))
     (case wp_buffer (rw_pipeline (bw_mode bw)) of Some b \<Rightarrow> end_pos b | None \<Rightarrow> 0)"

definition bw_is_empty :: "'w blob_writer \<Rightarrow> bool" where
  "bw_is_empty bw = (cm_is_empty (bm_chunk_map (rw_blob (bw_mode bw)))
     \<and> \<not> is_dirty (rw_pipeline (bw_mode bw)))"

definition writer_poll_read :: "'w backend \<Rightarrow> nat \<Rightarrow> ('w blob_writer, bytes) pollm" where
  "writer_poll_read B buf_len bw =
     (let pos = bw_pos bw
      in if blob_mut_len (rw_blob (bw_mode bw)) \<le> pos \<and> \<not> is_dirty (rw_pipeline (bw_mode bw))
         then Returns (Ready (Inr []), bw)
         else pbind (on_mode (poll_read_impl B pos buf_len))
                (\<lambda>bs bw. pret bs (bw\<lparr>bw_pos := bw_pos bw + of_nat (length bs)\<rparr>)) bw)"

definition writer_poll_seek :: "seek_from \<Rightarrow> ('w blob_writer, u64) pollm" where
  "writer_poll_seek pos bw =
     (case compute_seek_target True (bw_pos bw) (blob_mut_len (rw_blob (bw_mode bw))) pos of
        Inl e \<Rightarrow> Returns (Ready (Inl e), bw\<lparr>bw_error_count := bw_error_count bw + 1\<rparr>)
      | Inr t \<Rightarrow> Returns (Ready (Inr t), bw\<lparr>bw_pos := t\<rparr>))"

definition writer_poll_write :: "hasher \<Rightarrow> 'w backend \<Rightarrow> bytes \<Rightarrow> ('w blob_writer, nat) pollm" where
  "writer_poll_write H B buf bw =
     pbind (on_mode (poll_write_impl H B (bw_pos bw) buf))
       (\<lambda>n bw. pret n (bw\<lparr>bw_pos := bw_pos bw + of_nat n\<rparr>)) bw"

text \<open>The closed check of \<open>poll_flush\<close> is outside \<open>map_err\<close>: its error is not counted.\<close>

definition writer_poll_flush :: "hasher \<Rightarrow> 'w backend \<Rightarrow> ('w blob_writer, unit) pollm" where
  "writer_poll_flush H B bw =
     (if rw_closed (bw_mode bw) then pfail (IoError KOther ''already closed'') bw
      else on_mode (poll_flush_pipeline H B) bw)"

definition writer_poll_close :: "hasher \<Rightarrow> 'w backend \<Rightarrow> ('w blob_writer, unit) pollm" where
  "writer_poll_close H B bw =
     (if \<not> rw_closed (bw_mode bw)
      then pbind (on_mode (poll_flush_pipeline H B))
             (\<lambda>_ bw. pret () (bw\<lparr>bw_mode := (bw_mode bw)\<lparr>rw_closed := True\<rparr>\<rparr>)) bw
      else pret () bw)"

text \<open>The asynchronous methods: awaiting a poll, then a synchronous step.\<close>

definition bw_set_len :: "nat \<Rightarrow> hasher \<Rightarrow> 'w backend \<Rightarrow> u64 \<Rightarrow> 'w blob_writer \<Rightarrow>
    ((io_error + unit) \<times> 'w blob_writer) outcome option" where
  "bw_set_len polls H B new_len bw = (case drive polls (writer_poll_flush H B) bw of
     Some (Returns (Inr _, bw')) \<Rightarrow> Some (Returns (Inr (),
       bw'\<lparr>bw_mode := (bw_mode bw')\<lparr>rw_blob := blob_mut_set_len new_len (rw_blob (bw_mode bw'))\<rparr>\<rparr>))
   | r \<Rightarrow> r)"

definition bw_fsync :: "nat \<Rightarrow> hasher \<Rightarrow> 'w backend \<Rightarrow> 'w blob_writer \<Rightarrow>
    ((io_error + blob) \<times> 'w blob_writer) outcome option" where
  "bw_fsync polls H B bw = (case drive polls (writer_poll_flush H B) bw of
     None \<Rightarrow> None
   | Some Panics \<Rightarrow> Some Panics
   | Some (Returns (Inl e, bw')) \<Rightarrow> Some (Returns (Inl e, bw'))
   | Some (Returns (Inr _, bw')) \<Rightarrow> Some (Returns (Inr (finalize H (rw_blob (bw_mode bw'))), bw')))"

definition bw_finalize :: "nat \<Rightarrow> hasher \<Rightarrow> 'w backend \<Rightarrow> 'w blob_writer \<Rightarrow>
    ((io_error + blob) \<times> 'w blob_writer) outcome option" where
  "bw_finalize polls H B bw = (case drive polls (writer_poll_close H B) bw of
     None \<Rightarrow> None
   | Some Panics \<Rightarrow> Some Panics
   | Some (Returns (Inl e, bw')) \<Rightarrow> Some (Returns (Inl e, bw'))
   | Some (Returns (Inr _, bw')) \<Rightarrow> Some (Returns (Inr (finalize H (rw_blob (bw_mode bw'))), bw')))"

section \<open>Seeking and the write buffer\<close>

lemma uint_range: "0 \<le> uint (n :: u64) \<and> uint n < 2 ^ 64"
  using unsigned_less [of n, where ?'a = int] by simp

lemma seek_relative:
  "(let underflow = U; target = (case checked_add_signed a n of None \<Rightarrow> Inl underflow | Some t \<Rightarrow> Inr t)
    in case target of Inl e \<Rightarrow> Inl e | Inr t \<Rightarrow> if len < t \<and> \<not> beyond then Inl E else Inr t) =
   (let exact = uint a + n
    in if exact < 0 \<or> 2 ^ 64 \<le> exact then Inl U
       else if uint len < exact \<and> \<not> beyond then Inl E else Inr (word_of_int exact))"
proof (cases "checked_add_signed a n")
  case None
  then have "uint a + n < 0 \<or> 2 ^ 64 \<le> uint a + n" by (simp only: checked_add_signed_None)
  with None show ?thesis by simp
next
  case (Some t)
  have t: "uint a + n = uint t" using checked_add_signed_Some [OF Some] by simp
  show ?thesis
    using Some uint_range [of t] by (simp add: t word_less_def Let_def)
qed

text \<open>
  C35: seeking. The target is computed exactly: a relative seek moves by the given amount from
  the position, or from the end, without wrap-around; it fails precisely when the exact
  result leaves the range of a 64-bit offset or, for a reader, lies past the end; on success
  the position is the target, and on failure the position stays.
\<close>

theorem seek_target_spec:
  "compute_seek_target beyond cur len pos =
     (let exact = (case pos of SeekStart n \<Rightarrow> uint n | SeekCurrent n \<Rightarrow> uint cur + n
                     | SeekEnd n \<Rightarrow> uint len + n)
      in if exact < 0 \<or> 2 ^ 64 \<le> exact then Inl (IoError KInvalidInput ''seek underflow'')
         else if uint len < exact \<and> \<not> beyond
              then Inl (IoError KInvalidInput ''seeking beyond EOF unsupported'')
         else Inr (word_of_int exact))"
proof (cases pos)
  case (SeekStart n)
  then show ?thesis
    using uint_range [of n] by (simp add: compute_seek_target_def Let_def word_less_def)
next
  case (SeekCurrent n)
  then show ?thesis by (simp only: compute_seek_target_def seek_from.case seek_relative)
next
  case (SeekEnd n)
  then show ?thesis by (simp only: compute_seek_target_def seek_from.case seek_relative)
qed

lemma write_into_vec_shape:
  assumes "write_into_vec cap vec offset data = Returns (n, vec')"
  shows "offset \<le> cap" and "n = min (length data) (cap - offset)"
    and "vec' = take offset (vec @ replicate (offset - length vec) 0) @ take n data @ drop (offset + n) vec"
  using assms by (auto simp: write_into_vec_def Let_def split: if_splits)

lemma overlay_nth:
  assumes "n \<le> length data" and "i < max (length vec) (offset + n)"
  shows "(take offset (vec @ replicate (offset - length vec) 0) @ take n data @ drop (offset + n) vec) ! i =
      (if offset \<le> i \<and> i < offset + n then data ! (i - offset) else if i < length vec then vec ! i else 0)"
proof -
  consider "i < offset" | "offset \<le> i" "i < offset + n" | "offset + n \<le> i" by linarith
  then show ?thesis
  proof cases
    case 1
    then show ?thesis by (simp add: nth_append) arith
  next
    case 2
    moreover have "min (length vec) offset + (offset - length vec) = offset" by simp
    ultimately show ?thesis using assms(1) by (auto simp: nth_append)
  next
    case 3
    then have "\<not> i - offset < n" "i < length vec" using assms(2) by auto
    with 3 assms(1) show ?thesis by (simp add: nth_append)
  qed
qed

lemma write_into_vec_facts:
  assumes "write_into_vec cap vec offset data = Returns (n, vec')"
  shows "offset \<le> cap" and "n = min (length data) (cap - offset)"
    and "length vec' = max (length vec) (offset + n)"
    and "\<And>i. i < length vec' \<Longrightarrow> vec' ! i =
      (if offset \<le> i \<and> i < offset + n then data ! (i - offset)
       else if i < length vec then vec ! i else 0)"
proof -
  note s = write_into_vec_shape [OF assms]
  show "offset \<le> cap" "n = min (length data) (cap - offset)" by (fact s(1), fact s(2))
  from s(2) have n: "n \<le> length data" by simp
  then show len: "length vec' = max (length vec) (offset + n)" by (simp add: s(3))
  show "\<And>i. i < length vec' \<Longrightarrow> vec' ! i =
      (if offset \<le> i \<and> i < offset + n then data ! (i - offset)
       else if i < length vec then vec ! i else 0)"
    unfolding len unfolding s(3) by (rule overlay_nth [OF n])
qed

text \<open>
  C34: the unsafe copy of \<open>write_into_vec\<close>. It panics exactly when the offset lies past the
  capacity; otherwise it takes as many bytes as fit, never lets the vector outgrow its
  capacity, puts those bytes at the offset, keeps every other byte the vector had, and fills
  a gap between the old end and the offset with zeros, so no uninitialised byte is exposed.
\<close>

theorem write_into_vec_spec:
  "case write_into_vec cap vec offset data of
     Panics \<Rightarrow> cap < offset
   | Returns (n, vec') \<Rightarrow>
       offset \<le> cap \<and> n = min (length data) (cap - offset)
       \<and> length vec' = max (length vec) (offset + n)
       \<and> (\<forall>i. (offset \<le> i \<and> i < offset + n \<longrightarrow> vec' ! i = data ! (i - offset))
            \<and> (i < length vec \<and> \<not> (offset \<le> i \<and> i < offset + n) \<longrightarrow> vec' ! i = vec ! i)
            \<and> (length vec \<le> i \<and> i < offset \<longrightarrow> vec' ! i = 0))"
proof (cases "write_into_vec cap vec offset data")
  case Panics
  then show ?thesis by (auto simp: write_into_vec_def Let_def split: if_splits)
next
  case (Returns r)
  obtain n vec' where r: "r = (n, vec')" by (cases r)
  note f = write_into_vec_facts [OF Returns [unfolded r]]
  have "vec' ! i = (if offset \<le> i \<and> i < offset + n then data ! (i - offset)
       else if i < length vec then vec ! i else 0)" if "i < max (length vec) (offset + n)" for i
    using f(4) [of i] that by (simp only: f(3))
  then show ?thesis
    using f(1,2,3) by (simp add: Returns r less_max_iff_disj)
qed

theorem write_into_vec_spec_witness:
  "write_into_vec 6 [1, 2] 4 [9, 9, 9] = Returns (2, [1, 2, 0, 0, 9, 9])
   \<and> (case write_into_vec 6 [1, 2] 4 [9, 9, 9] of Panics \<Rightarrow> False
      | Returns (n, vec') \<Rightarrow> n = 2 \<and> vec' ! 3 = 0)"
proof -
  have "write_into_vec 6 [1, 2] 4 [9, 9, 9] = Returns (2, [1, 2, 0, 0, 9, 9])" by code_simp
  with write_into_vec_spec [where cap = 6 and vec = "[1, 2]" and offset = 4 and data = "[9, 9, 9]"] show ?thesis by simp
qed

end
