(* ===== verification/BlobRead.thy ===== *)
theory BlobRead
  imports BlobIo
begin

text \<open>
  The contract the blob code relies on (the traits \<open>ChunkSource\<close> and \<open>ChunkSink\<close>), as a
  locale, and what a reader returns under it: the bytes of the blob.
\<close>

section \<open>The contract of a chunk store\<close>

text \<open>
  \<open>stored w\<close> is the content the world can deliver for each chunk id. Polls only add to it; a
  chunk handed out has the id that was asked for; an insert that reports success has stored
  the chunk's id.
\<close>

locale chunk_store =
  fixes B :: "'w backend"
    and H :: hasher
    and winv :: "'w \<Rightarrow> bool"
    and stored :: "'w \<Rightarrow> content_id \<Rightarrow> bytes option"
  assumes stored_hash: "winv w \<Longrightarrow> stored w i = Some bs \<Longrightarrow> chunk_hash H bs = i"
    and get_keeps: "winv w \<Longrightarrow> poll_get_chunk B i w = (r, w') \<Longrightarrow> winv w' \<and> stored w \<subseteq>\<^sub>m stored w'"
    and get_answer: "winv w \<Longrightarrow> poll_get_chunk B i w = (Ready (Inr (Some c)), w') \<Longrightarrow>
          ch_id c = i \<and> stored w' i = Some (ch_content c)"
    and insert_keeps: "winv w \<Longrightarrow> chunk_ok H c \<Longrightarrow> poll_insert_chunk B c w = (q, w') \<Longrightarrow>
          winv w' \<and> stored w \<subseteq>\<^sub>m stored w'"
    and insert_stores: "winv w \<Longrightarrow> chunk_ok H c \<Longrightarrow>
          poll_insert_chunk B c w = (Ready (Inr u), w') \<Longrightarrow> stored w' (ch_id c) \<noteq> None"

section \<open>The content of a blob\<close>

definition byte_at :: "(content_id \<Rightarrow> bytes option) \<Rightarrow> chunk_map \<Rightarrow> u64 \<Rightarrow> u8 option" where
  "byte_at st m x = (case cm_at m x of
     None \<Rightarrow> Some 0
   | Some (i, off) \<Rightarrow> (case st i of None \<Rightarrow> None
       | Some bs \<Rightarrow> if unat off < length bs then Some (bs ! unat off) else None))"

text \<open>Every mapped byte is there: the chunk is stored and long enough (and fits in memory).\<close>

definition backed :: "(content_id \<Rightarrow> bytes option) \<Rightarrow> chunk_map \<Rightarrow> bool" where
  "backed st m = (\<forall>x i off. cm_at m x = Some (i, off) \<longrightarrow>
     (\<exists>bs. st i = Some bs \<and> unat off < length bs \<and> length bs < 2 ^ 64))"

lemma backed_byte: "backed st m \<Longrightarrow> byte_at st m x \<noteq> None"
  by (fastforce simp: backed_def byte_at_def split: option.splits prod.splits)

lemma backed_mono: "backed st m \<Longrightarrow> st \<subseteq>\<^sub>m st' \<Longrightarrow> backed st' m"
  unfolding backed_def map_le_def by (metis domI)

lemma byte_at_mono: "backed st m \<Longrightarrow> st \<subseteq>\<^sub>m st' \<Longrightarrow> byte_at st' m x = byte_at st m x"
proof (cases "cm_at m x")
  case (Some p)
  obtain i off where p: "p = (i, off)" by (cases p)
  assume "backed st m" "st \<subseteq>\<^sub>m st'"
  with Some p obtain bs where "st i = Some bs" unfolding backed_def by blast
  moreover from this \<open>st \<subseteq>\<^sub>m st'\<close> have "st' i = Some bs" by (auto simp: map_le_def dom_def)
  ultimately show ?thesis by (simp add: byte_at_def Some p)
qed (simp add: byte_at_def)

lemma unat_add_nat:
  "unat (x :: u64) + k < 2 ^ 64 \<Longrightarrow> unat (x + of_nat k) = unat x + k"
  by (simp add: unat_word_ariths unat_of_nat)

text \<open>A run a lookup returned, byte by byte.\<close>

lemma run_bytes:
  assumes "cm_wf m" and "cm_get x m = Some (CChunk i off len)" and "k < unat len"
  shows "cm_at m (x + of_nat k) = Some (i, off + of_nat k)"
    and "x < cm_len m" and "unat x + unat len \<le> unat (cm_len m)"
proof -
  note g = cm_get_run [OF assms(1), of x]
  have "of_nat k < len"
    using assms(3) u64_bound [of len] by (simp add: word_less_nat_alt unat_of_nat)
  with g assms(2) show "cm_at m (x + of_nat k) = Some (i, off + of_nat k)" by simp
  from g assms(2) have lt: "x < cm_len m" "len \<le> cm_len m - x" by simp_all
  then show "x < cm_len m" by simp
  from lt have "unat len \<le> unat (cm_len m) - unat x"
    using unat_diff_le [of x "cm_len m"] by (simp add: word_le_nat_alt word_less_nat_alt)
  with lt(1) show "unat x + unat len \<le> unat (cm_len m)" by (simp add: word_less_nat_alt)
qed

section \<open>One read\<close>

text \<open>
  A fetcher is sound when its cached chunk is a stored chunk; it is fresh when it will not
  poll a completed future again.
\<close>

definition fetch_ok :: "(content_id \<Rightarrow> bytes option) \<Rightarrow> chunk_fetch \<Rightarrow> bool" where
  "fetch_ok st f = (case cf_cached f of None \<Rightarrow> True | Some c \<Rightarrow> st (ch_id c) = Some (ch_content c))"

definition fetch_fresh :: "chunk_fetch \<Rightarrow> bool" where
  "fetch_fresh f = (case cf_inflight f of None \<Rightarrow> True | Some (_, completed) \<Rightarrow> \<not> completed)"

lemma fetch_ok_new [wf_intros]: "fetch_ok st chunk_fetch_new" "fetch_fresh chunk_fetch_new"
  by (simp_all add: fetch_ok_def fetch_fresh_def chunk_fetch_new_def)

lemma fetch_ok_mono: "fetch_ok st f \<Longrightarrow> st \<subseteq>\<^sub>m st' \<Longrightarrow> fetch_ok st' f"
  by (auto simp: fetch_ok_def map_le_def dom_def split: option.splits)

context chunk_store
begin

lemma poll_ensure_facts:
  assumes w: "winv w" and f: "fetch_ok (stored w) f"
    and r: "poll_ensure B i (f, w) = Returns (r, f', w')"
  shows "winv w'" and "stored w \<subseteq>\<^sub>m stored w'" and "fetch_ok (stored w') f'"
    and "r = Ready (Inr u) \<Longrightarrow> \<exists>c. cf_cached f' = Some c \<and> ch_id c = i \<and> stored w' i = Some (ch_content c)"
    and "fetch_fresh f \<Longrightarrow> \<forall>e. r \<noteq> Ready (Inl e) \<Longrightarrow> fetch_fresh f'"
proof -
  show "winv w'" and le: "stored w \<subseteq>\<^sub>m stored w'"
    using w r get_keeps by (auto simp: poll_ensure_def Let_def
        split: if_splits option.splits poll.splits sum.splits prod.splits)
  show "fetch_ok (stored w') f'"
    using w r fetch_ok_mono [OF f le]
    by (auto simp: poll_ensure_def Let_def fetch_ok_def dest: get_answer
        split: if_splits option.splits poll.splits sum.splits prod.splits)
  show "r = Ready (Inr u) \<Longrightarrow> \<exists>c. cf_cached f' = Some c \<and> ch_id c = i \<and> stored w' i = Some (ch_content c)"
    using w r fetch_ok_mono [OF f le]
    by (auto simp: poll_ensure_def Let_def fetch_ok_def dest: get_answer
        split: if_splits option.splits poll.splits sum.splits prod.splits)
  show "fetch_fresh f \<Longrightarrow> \<forall>e. r \<noteq> Ready (Inl e) \<Longrightarrow> fetch_fresh f'"
    using r by (auto simp: poll_ensure_def Let_def fetch_fresh_def
        split: if_splits option.splits poll.splits sum.splits prod.splits)
qed

lemma poll_ensure_no_panic: "fetch_fresh f \<Longrightarrow> poll_ensure B i (f, w) \<noteq> Panics"
  by (auto simp: poll_ensure_def Let_def fetch_fresh_def
      split: if_splits option.splits poll.splits sum.splits prod.splits)

end

definition reader_inv ::
  "('w \<Rightarrow> bool) \<Rightarrow> ('w \<Rightarrow> content_id \<Rightarrow> bytes option) \<Rightarrow> 'w blob_reader \<Rightarrow> bool" where
  "reader_inv winv stored r = (winv (br_world r) \<and> cm_wf (bl_chunk_map (br_blob r))
     \<and> backed (stored (br_world r)) (bl_chunk_map (br_blob r)) \<and> fetch_ok (stored (br_world r)) (br_fetch r))"

text \<open>The byte of the blob a reader should deliver at an offset.\<close>

definition reader_byte ::
  "('w \<Rightarrow> content_id \<Rightarrow> bytes option) \<Rightarrow> 'w blob_reader \<Rightarrow> u64 \<Rightarrow> u8 option" where
  "reader_byte stored r x = byte_at (stored (br_world r)) (bl_chunk_map (br_blob r)) x"

lemma copy_run:
  assumes wf: "cm_wf m" and b: "backed st m" and get: "cm_get x m = Some (CChunk i off len)"
    and st: "st i = Some bs"
  shows "copy_from_chunk c off len n \<noteq> Panics \<or> ch_content c \<noteq> bs"
    and "ch_content c = bs \<Longrightarrow> copy_from_chunk c off len n = Returns out \<Longrightarrow>
      length out = min (unat len) n \<and> (\<forall>k < length out. byte_at st m (x + of_nat k) = Some (out ! k))"
proof -
  have g: "0 < len" using cm_get_run [OF wf, of x] get by simp
  have fits: "unat off + k < length bs \<and> unat (off + of_nat k) = unat off + k \<and> length bs < 2 ^ 64"
    if "k < unat len" for k
    using that
  proof (induction k)
    case 0
    with run_bytes(1) [OF wf get, of 0] b st show ?case by (force simp: backed_def)
  next
    case (Suc k)
    then have IH: "unat off + k < length bs" "unat (off + of_nat k) = unat off + k" "length bs < 2 ^ 64" by simp_all
    then have "unat (off + of_nat (Suc k)) = unat off + Suc k" by (intro unat_add_nat) simp
    moreover have "unat (off + of_nat (Suc k)) < length bs"
      using run_bytes(1) [OF wf get Suc.prems] b st unfolding backed_def by force
    ultimately show ?case using IH by simp
  qed
  have "0 < unat len" using g by (simp add: word_less_nat_alt)
  have "unat off + (unat len - 1) < length bs" using fits [of "unat len - 1"] \<open>0 < unat len\<close> by simp
  with \<open>0 < unat len\<close> have room: "unat off < length bs" "unat off + unat len \<le> length bs"
    by linarith+
  then show "copy_from_chunk c off len n \<noteq> Panics \<or> ch_content c \<noteq> bs"
    by (auto simp: copy_from_chunk_def Let_def)
  assume c: "ch_content c = bs" and out: "copy_from_chunk c off len n = Returns out"
  have o: "out = take (min (unat len) n) (drop (unat off) bs)"
    using out room c by (auto simp: copy_from_chunk_def Let_def min_def split: if_splits)
  have "byte_at st m (x + of_nat k) = Some (out ! k)" if k: "k < length out" for k
  proof -
    have kl: "k < unat len" using k o by simp
    then show ?thesis
      using run_bytes(1) [OF wf get kl] fits [OF kl] st k by (simp add: byte_at_def o)
  qed
  moreover have "length out = min (unat len) n" using room by (simp add: o)
  ultimately show "length out = min (unat len) n \<and> (\<forall>k < length out. byte_at st m (x + of_nat k) = Some (out ! k))"
    by blast
qed

context chunk_store
begin

lemma reader_poll_read_facts:
  assumes inv: "reader_inv winv stored r" and run: "reader_poll_read B n r = Returns (p, r')"
  shows "reader_inv winv stored r' \<and> br_blob r' = br_blob r \<and> stored (br_world r) \<subseteq>\<^sub>m stored (br_world r')
    \<and> (fetch_fresh (br_fetch r) \<and> (\<forall>e. p \<noteq> Ready (Inl e)) \<longrightarrow> fetch_fresh (br_fetch r'))
    \<and> (case p of
         Ready (Inr bs) \<Rightarrow> br_pos r' = br_pos r + of_nat (length bs) \<and> length bs \<le> n
           \<and> (\<forall>k < length bs. reader_byte stored r (br_pos r + of_nat k) = Some (bs ! k))
           \<and> (if br_pos r < blob_len (br_blob r)
              then unat (br_pos r) + length bs \<le> unat (blob_len (br_blob r)) \<and> (0 < n \<longrightarrow> bs \<noteq> [])
              else bs = [])
       | _ \<Rightarrow> br_pos r' = br_pos r)"
proof -
  let ?m = "bl_chunk_map (br_blob r)" and ?pos = "br_pos r"
  from inv have wf: "cm_wf ?m" and w: "winv (br_world r)" and b: "backed (stored (br_world r)) ?m"
    and f: "fetch_ok (stored (br_world r)) (br_fetch r)" by (auto simp: reader_inv_def)
  note g = cm_get_run [OF wf, of ?pos]
  show ?thesis
  proof (cases "blob_len (br_blob r) \<le> ?pos")
    case True
    with run inv show ?thesis by (auto simp: reader_poll_read_def)
  next
    case lt: False
    with g obtain e where e: "cm_get ?pos ?m = Some e" by (cases "cm_get ?pos ?m") (auto simp: blob_len_def)
    show ?thesis
    proof (cases e)
      case (CHole l)
      with g e have l: "0 < l" "l \<le> cm_len ?m - ?pos"
          and hole: "\<And>i. i < l \<Longrightarrow> cm_at ?m (?pos + i) = None" by auto
      let ?k = "min (unat l) n"
      have "unat l \<le> unat (cm_len ?m) - unat ?pos"
        using l(2) lt unat_diff_le [of ?pos "cm_len ?m"]
        by (simp add: word_le_nat_alt blob_len_def)
      moreover have "byte_at (stored (br_world r)) ?m (?pos + of_nat k) = Some 0" if "k < ?k" for k
      proof -
        have "of_nat k < l"
          using that u64_bound [of l] by (simp add: word_less_nat_alt unat_of_nat)
        then show ?thesis by (simp add: byte_at_def hole)
      qed
      moreover have "p = Ready (Inr (replicate ?k 0))" "r' = r\<lparr>br_pos := ?pos + of_nat ?k\<rparr>"
        using run lt e CHole by (simp_all add: reader_poll_read_def resolve_read_def)
      ultimately show ?thesis
        using inv lt l(1) by (auto simp: reader_inv_def reader_byte_def blob_len_def word_less_nat_alt)
    next
      case (CChunk i off l)
      with e have get: "cm_get ?pos ?m = Some (CChunk i off l)" by simp
      from run lt get obtain q f' w' where q: "poll_ensure B i (br_fetch r, br_world r) = Returns (q, f', w')"
        by (cases "poll_ensure B i (br_fetch r, br_world r)") (auto simp: reader_poll_read_def resolve_read_def)
      note E = poll_ensure_facts [OF w f q]
      have inv': "reader_inv winv stored (r\<lparr>br_fetch := f', br_world := w', br_pos := x, br_error_count := c\<rparr>)" for x c
        using E(1-3) wf backed_mono [OF b E(2)] by (simp add: reader_inv_def)
      note unf = reader_poll_read_def resolve_read_def Let_def
      show ?thesis
      proof (cases q)
        case Pending
        then have "p = Pending" "r' = r\<lparr>br_fetch := f', br_world := w'\<rparr>"
          using run lt get q by (simp_all add: unf)
        with inv' [where x = ?pos and c = "br_error_count r"] E(2,5) Pending show ?thesis by simp
      next
        case (Ready res)
        show ?thesis
        proof (cases res)
          case (Inl e)
          then have "p = Ready (Inl e)"
              "r' = r\<lparr>br_fetch := f', br_world := w', br_error_count := br_error_count r + 1\<rparr>"
            using run lt get q Ready by (simp_all add: unf)
          with inv' [where x = ?pos and c = "br_error_count r + 1"] E(2) show ?thesis by simp
        next
          case (Inr u)
          with Ready E(4) obtain c where c: "cf_cached f' = Some c" "stored w' i = Some (ch_content c)" by blast
          note b' = backed_mono [OF b E(2)]
          from copy_run(1) [OF wf b' get c(2), of c n] obtain out
            where out: "copy_from_chunk c off l n = Returns out" by (cases "copy_from_chunk c off l n") auto
          then have p: "p = Ready (Inr out)"
              "r' = r\<lparr>br_fetch := f', br_world := w', br_pos := ?pos + of_nat (length out)\<rparr>"
            using run lt get q Ready Inr c(1) by (simp_all add: unf)
          have "length out = min (unat l) n" and
              "\<forall>k < length out. byte_at (stored w') ?m (?pos + of_nat k) = Some (out ! k)"
            using copy_run(2) [OF wf b' get c(2) refl out] by auto
          moreover have "0 < unat l" using g get by (simp add: word_less_nat_alt)
          moreover have "0 < unat l \<Longrightarrow> unat ?pos + unat l \<le> unat (cm_len ?m)"
            using run_bytes(3) [OF wf get] by simp
          ultimately show ?thesis
            using p inv' [where x = "?pos + of_nat (length out)" and c = "br_error_count r"] E(2,5) Ready Inr lt
            by (auto simp: reader_byte_def blob_len_def byte_at_mono [OF b E(2)] not_le)
        qed
      qed
    qed
  qed
qed

lemma resolve_read_chunk: "resolve_read m pos n = RChunk i off l \<longleftrightarrow> cm_get pos m = Some (CChunk i off l)"
  by (simp add: resolve_read_def split: option.split chunk_map_entry.split)

lemma reader_poll_read_no_panic:
  assumes inv: "reader_inv winv stored r" and fresh: "fetch_fresh (br_fetch r)"
  shows "reader_poll_read B n r \<noteq> Panics"
proof -
  let ?m = "bl_chunk_map (br_blob r)"
  from inv have wf: "cm_wf ?m" and w: "winv (br_world r)" and b: "backed (stored (br_world r)) ?m"
    and f: "fetch_ok (stored (br_world r)) (br_fetch r)" by (auto simp: reader_inv_def)
  have nocopy: "copy_from_chunk c off l n \<noteq> Panics"
    if "poll_ensure B i (br_fetch r, br_world r) = Returns (Ready (Inr u), f', w')"
      and get: "cm_get (br_pos r) ?m = Some (CChunk i off l)" and c: "cf_cached f' = Some c" for i off l u f' w' c
  proof -
    note E = poll_ensure_facts [OF w f that(1)]
    from E(4) c have "stored w' i = Some (ch_content c)" by auto
    with copy_run(1) [OF wf backed_mono [OF b E(2)] get] show ?thesis by blast
  qed
  have hasc: "\<exists>c. cf_cached f' = Some c"
    if "poll_ensure B i (br_fetch r, br_world r) = Returns (Ready (Inr u), f', w')" for i u f' w'
    using poll_ensure_facts(4) [OF w f that] by blast
  have False if P: "reader_poll_read B n r = Panics"
  proof -
    from P obtain i off l where rr: "resolve_read ?m (br_pos r) n = RChunk i off l"
      by (auto simp: reader_poll_read_def Let_def split: chunk_map_result.splits if_splits)
    obtain q f' w' where q: "poll_ensure B i (br_fetch r, br_world r) = Returns (q, f', w')"
      using poll_ensure_no_panic [OF fresh, of i "br_world r"]
      by (cases "poll_ensure B i (br_fetch r, br_world r)") auto
    with P rr obtain u where "q = Ready (Inr u)"
      by (auto simp: reader_poll_read_def Let_def split: if_splits poll.splits sum.splits)
    with q obtain c where c: "cf_cached f' = Some c" using hasc by blast
    from rr have "cm_get (br_pos r) ?m = Some (CChunk i off l)" by (simp add: resolve_read_chunk)
    with nocopy q \<open>q = Ready (Inr u)\<close> c obtain out where "copy_from_chunk c off l n = Returns out"
      by (cases "copy_from_chunk c off l n") blast+
    with P rr q \<open>q = Ready (Inr u)\<close> c show False
      by (simp add: reader_poll_read_def Let_def split: if_splits)
  qed
  then show ?thesis by blast
qed

end

section \<open>Reading to the end\<close>

text \<open>
  A caller that reads a blob with buffers of \<open>n\<close> bytes until it gets nothing, as
  \<open>read_to_end\<close> does; it makes at most \<open>polls\<close> polls.
\<close>

fun read_to_end :: "nat \<Rightarrow> 'w backend \<Rightarrow> nat \<Rightarrow> 'w blob_reader \<Rightarrow> bytes \<Rightarrow>
    ((io_error + bytes) \<times> 'w blob_reader) outcome option" where
  "read_to_end 0 B n r acc = None"
| "read_to_end (Suc polls) B n r acc = (case reader_poll_read B n r of
     Panics \<Rightarrow> Some Panics
   | Returns (Pending, r') \<Rightarrow> read_to_end polls B n r' acc
   | Returns (Ready (Inl e), r') \<Rightarrow> Some (Returns (Inl e, r'))
   | Returns (Ready (Inr bs), r') \<Rightarrow>
       if bs = [] then Some (Returns (Inr acc, r')) else read_to_end polls B n r' (acc @ bs))"

definition blob_bytes :: "('w \<Rightarrow> content_id \<Rightarrow> bytes option) \<Rightarrow> 'w blob_reader \<Rightarrow> nat \<Rightarrow> nat \<Rightarrow> u8 option list" where
  "blob_bytes stored r a b = map (\<lambda>k. reader_byte stored r (of_nat k)) [a..<b]"

context chunk_store
begin

lemma read_to_end_correct:
  assumes "reader_inv winv stored r" and "br_pos r \<le> blob_len (br_blob r)" and "0 < n"
    and "read_to_end polls B n r acc = Some (Returns (Inr out, r'))"
  shows "map Some out = map Some acc @ blob_bytes stored r (unat (br_pos r)) (unat (blob_len (br_blob r)))"
  using assms
proof (induction polls arbitrary: r acc)
  case (Suc polls)
  let ?len = "unat (blob_len (br_blob r))" and ?pos = "unat (br_pos r)"
  from Suc.prems(4) obtain p r1 where run: "reader_poll_read B n r = Returns (p, r1)"
    by (auto split: outcome.splits)
  note F = reader_poll_read_facts [OF Suc.prems(1) run]
  from F have inv1: "reader_inv winv stored r1" and blob1: "br_blob r1 = br_blob r" by auto
  have same: "reader_byte stored r1 x = reader_byte stored r x" for x
    using F Suc.prems(1) by (auto simp: reader_byte_def reader_inv_def byte_at_mono)
  show ?case
  proof (cases "\<exists>bs. p = Ready (Inr bs)")
    case False
    with run Suc.prems(4) have go: "read_to_end polls B n r1 acc = Some (Returns (Inr out, r'))"
      and pos: "br_pos r1 = br_pos r"
      using F by (auto split: poll.splits sum.splits)
    show ?thesis
      using Suc.IH [OF inv1 _ Suc.prems(3) go] Suc.prems(2) blob1 pos same by (simp add: blob_bytes_def)
  next
    case True
    then obtain bs where p: "p = Ready (Inr bs)" by blast
    show ?thesis
    proof (cases "bs = []")
      case True
      with F p Suc.prems(2,3) have "\<not> br_pos r < blob_len (br_blob r)" by (auto split: if_splits)
      with Suc.prems(2) have "br_pos r = blob_len (br_blob r)" by simp
      with run p True Suc.prems(4) show ?thesis by (simp add: blob_bytes_def)
    next
      case False
      with F p have lt: "br_pos r < blob_len (br_blob r)" and fit: "?pos + length bs \<le> ?len"
        and bytes: "\<forall>k < length bs. reader_byte stored r (br_pos r + of_nat k) = Some (bs ! k)"
        and pos1: "br_pos r1 = br_pos r + of_nat (length bs)"
        by (auto split: if_splits)
      have upos: "unat (br_pos r1) = ?pos + length bs"
        unfolding pos1 using fit u64_bound [of "blob_len (br_blob r)"] by (intro unat_add_nat) simp
      have go: "read_to_end polls B n r1 (acc @ bs) = Some (Returns (Inr out, r'))"
        using run p False Suc.prems(4) by simp
      have "br_pos r1 \<le> blob_len (br_blob r1)"
        using upos fit blob1 by (simp add: word_le_nat_alt)
      from Suc.IH [OF inv1 this Suc.prems(3) go]
      have "map Some out = map Some acc @ map Some bs @ blob_bytes stored r (?pos + length bs) ?len"
        by (simp add: blob_bytes_def blob1 same upos)
      moreover have "map Some bs = blob_bytes stored r ?pos (?pos + length bs)"
        using bytes by (intro nth_equalityI) (simp_all add: blob_bytes_def)
      moreover have "[?pos..<?len] = [?pos..<?pos + length bs] @ [?pos + length bs..<?len]"
        using fit upt_add_eq_append [of ?pos "?pos + length bs" "?len - (?pos + length bs)"] by simp
      ultimately show ?thesis by (simp add: blob_bytes_def)
    qed
  qed
qed simp

end

text \<open>
  A store that delivers every stored chunk after finitely many \<open>Pending\<close> answers: a budget
  bounds how many are still to come.
\<close>

locale patient_store = chunk_store +
  fixes patience :: "'a \<Rightarrow> nat"
  assumes get_patient: "winv w \<Longrightarrow> stored w i \<noteq> None \<Longrightarrow> poll_get_chunk B i w = (r, w') \<Longrightarrow>
    (r = Pending \<and> patience w' < patience w) \<or> ((\<exists>c. r = Ready (Inr (Some c))) \<and> patience w' \<le> patience w)"
begin

lemma poll_ensure_patient:
  assumes "winv w" and "stored w i \<noteq> None" and "poll_ensure B i (f, w) = Returns (r, f', w')"
  shows "(r = Pending \<and> patience w' < patience w) \<or> (r = Ready (Inr ()) \<and> patience w' \<le> patience w)"
proof (cases "case cf_cached f of Some c \<Rightarrow> ch_id c = i | None \<Rightarrow> False")
  case True
  with assms(3) show ?thesis by (simp add: poll_ensure_def)
next
  case False
  obtain q w'' where g: "poll_get_chunk B i w = (q, w'')" by (cases "poll_get_chunk B i w")
  with get_patient [OF assms(1,2) g] assms(3) False show ?thesis
    by (auto simp: poll_ensure_def Let_def split: if_splits)
qed

lemma reader_poll_patient:
  assumes inv: "reader_inv winv stored r" and run: "reader_poll_read B n r = Returns (p, r')"
  shows "(p = Pending \<and> patience (br_world r') < patience (br_world r))
    \<or> (\<exists>bs. p = Ready (Inr bs) \<and> patience (br_world r') \<le> patience (br_world r))"
proof (cases "\<exists>i off l. resolve_read (bl_chunk_map (br_blob r)) (br_pos r) n = RChunk i off l")
  case False
  with run show ?thesis
    by (auto simp: reader_poll_read_def Let_def split: chunk_map_result.splits if_splits)
next
  case True
  then obtain i off l where rr: "resolve_read (bl_chunk_map (br_blob r)) (br_pos r) n = RChunk i off l"
    by blast
  then have get: "cm_get (br_pos r) (bl_chunk_map (br_blob r)) = Some (CChunk i off l)"
    by (simp add: resolve_read_chunk)
  from inv have wf: "cm_wf (bl_chunk_map (br_blob r))" and w: "winv (br_world r)"
    and b: "backed (stored (br_world r)) (bl_chunk_map (br_blob r))" by (auto simp: reader_inv_def)
  have "0 < unat l" using cm_get_run [OF wf, of "br_pos r"] get by (simp add: word_less_nat_alt)
  from run_bytes(1) [OF wf get this] b have st: "stored (br_world r) i \<noteq> None"
    unfolding backed_def by fastforce
  show ?thesis
  proof (cases "poll_ensure B i (br_fetch r, br_world r)")
    case Panics
    with run rr show ?thesis by (auto simp: reader_poll_read_def Let_def split: if_splits)
  next
    case (Returns t)
    obtain q f' w' where t: "t = (q, f', w')" by (cases t)
    with Returns poll_ensure_patient [OF w st, of "br_fetch r" q f' w'] run rr show ?thesis
      by (auto simp: reader_poll_read_def Let_def split: if_splits option.splits outcome.splits)
  qed
qed

lemma read_to_end_returns:
  assumes "reader_inv winv stored r" and "fetch_fresh (br_fetch r)" and "0 < n"
    and "br_pos r \<le> blob_len (br_blob r)"
    and "unat (blob_len (br_blob r)) - unat (br_pos r) + patience (br_world r) < polls"
  shows "\<exists>out r'. read_to_end polls B n r acc = Some (Returns (Inr out, r'))"
  using assms
proof (induction polls arbitrary: r acc)
  case (Suc polls)
  let ?len = "unat (blob_len (br_blob r))" and ?pos = "unat (br_pos r)"
  obtain p r1 where run: "reader_poll_read B n r = Returns (p, r1)"
    using reader_poll_read_no_panic [OF Suc.prems(1,2)] by (cases "reader_poll_read B n r") auto
  note F = reader_poll_read_facts [OF Suc.prems(1) run]
  note P = reader_poll_patient [OF Suc.prems(1) run]
  have inv1: "reader_inv winv stored r1" and blob1: "br_blob r1 = br_blob r" using F by auto
  have fresh1: "fetch_fresh (br_fetch r1)" using F P Suc.prems(2) by auto
  from P consider "p = Pending" "patience (br_world r1) < patience (br_world r)"
    | bs where "p = Ready (Inr bs)" "patience (br_world r1) \<le> patience (br_world r)" by blast
  then show ?case
  proof cases
    case 1
    with F have "br_pos r1 = br_pos r" by simp
    with 1 Suc.prems have "\<exists>out r'. read_to_end polls B n r1 acc = Some (Returns (Inr out, r'))"
      by (intro Suc.IH [OF inv1 fresh1]) (simp_all add: blob1)
    with run 1 show ?thesis by simp
  next
    case 2
    show ?thesis
    proof (cases "bs = []")
      case True
      with run 2 show ?thesis by simp
    next
      case False
      with F 2 have fit: "?pos + length bs \<le> ?len" and pos1: "br_pos r1 = br_pos r + of_nat (length bs)"
        by (auto split: if_splits)
      have upos: "unat (br_pos r1) = ?pos + length bs"
        unfolding pos1 using fit u64_bound [of "blob_len (br_blob r)"] by (intro unat_add_nat) simp
      have "0 < length bs" using False by simp
      with fit Suc.prems(5) 2(2) have "?len - (?pos + length bs) + patience (br_world r1) < polls"
        by linarith
      with upos fit Suc.prems(3)
      have "\<exists>out r'. read_to_end polls B n r1 (acc @ bs) = Some (Returns (Inr out, r'))"
        by (intro Suc.IH [OF inv1 fresh1]) (simp_all add: blob1 word_le_nat_alt)
      with run 2 False show ?thesis by simp
    qed
  qed
qed simp

end

end
