(* ===== verification/BlobWrite.thy ===== *)
theory BlobWrite
  imports BlobRead
begin

text \<open>
  What a writer does to the content of a blob. The logical content of a writer is its blob
  overlaid by the submission in flight and the buffer. Under the invariant below, which
  holds for writers that only append, overwrite and seek, every step keeps the logical
  content except a write, which changes exactly the bytes it reports.
\<close>

section \<open>Windows\<close>

text \<open>
  The map is cut into windows of the chunk size \<open>c\<close>. The window at \<open>a\<close> holds \<open>bs\<close> when its
  first bytes are exactly a stored chunk \<open>bs\<close>, from its beginning, and the rest is unmapped.
\<close>

definition window_is :: "(content_id \<Rightarrow> bytes option) \<Rightarrow> nat \<Rightarrow> chunk_map \<Rightarrow> u64 \<Rightarrow> bytes \<Rightarrow> bool" where
  "window_is st c m a bs = (length bs \<le> c \<and> (\<exists>i. (bs \<noteq> [] \<longrightarrow> st i = Some bs) \<and>
     (\<forall>k < c. cm_at m (a + of_nat k) = (if k < length bs then Some (i, of_nat k) else None))))"

definition window_start :: "nat \<Rightarrow> u64 \<Rightarrow> bool" where
  "window_start c a = (unat a mod c = 0 \<and> unat a + c < 2 ^ 64)"

text \<open>
  The regime of a writer: every window holds a chunk or nothing, and the file does not end
  in a hole.
\<close>

definition aligned_map :: "(content_id \<Rightarrow> bytes option) \<Rightarrow> nat \<Rightarrow> chunk_map \<Rightarrow> bool" where
  "aligned_map st c m = (cm_wf m \<and> unat (cm_len m) + c < 2 ^ 64
     \<and> (cm_len m = 0 \<or> cm_at m (cm_len m - 1) \<noteq> None)
     \<and> (\<forall>a. window_start c a \<longrightarrow> (\<exists>bs. window_is st c m a bs)))"

definition overlay :: "u64 \<Rightarrow> bytes \<Rightarrow> (u64 \<Rightarrow> u8 option) \<Rightarrow> u64 \<Rightarrow> u8 option" where
  "overlay start bs f x = (if unat start \<le> unat x \<and> unat x < unat start + length bs
     then Some (bs ! (unat x - unat start)) else f x)"

lemma unat_window: "window_start c a \<Longrightarrow> k < c \<Longrightarrow> unat (a + of_nat k) = unat a + k"
  by (intro unat_add_nat) (simp add: window_start_def)

lemma window_small: "window_start c a \<Longrightarrow> k < c \<Longrightarrow> unat (of_nat k :: u64) = k"
  by (simp add: window_start_def unat_of_nat)

lemma window_byte:
  assumes "window_is st c m a bs" and "window_start c a" and "k < c"
  shows "byte_at st m (a + of_nat k) = Some (if k < length bs then bs ! k else 0)"
  using assms window_small [OF assms(2,3)] by (fastforce simp: window_is_def byte_at_def)

lemma window_unique:
  assumes "window_is st c m a bs" and "window_is st c m a bs'" and "0 < c"
  shows "bs = bs'"
proof -
  obtain i where
    i: "bs \<noteq> [] \<longrightarrow> st i = Some bs"
      "\<forall>k < c. cm_at m (a + of_nat k) = (if k < length bs then Some (i, of_nat k) else None)"
    using assms(1) unfolding window_is_def by blast
  obtain j where
    j: "bs' \<noteq> [] \<longrightarrow> st j = Some bs'"
      "\<forall>k < c. cm_at m (a + of_nat k) = (if k < length bs' then Some (j, of_nat k) else None)"
    using assms(2) unfolding window_is_def by blast
  have "(if 0 < length bs then Some (i, 0 :: u64) else None)
      = (if 0 < length bs' then Some (j, 0) else None)"
    using i(2) [rule_format, OF assms(3)] j(2) [rule_format, OF assms(3)] by (simp split: if_splits)
  with i(1) j(1) show ?thesis by (auto split: if_splits)
qed

text \<open>Every offset of an addressable file lies in a window.\<close>

lemma window_of:
  fixes x C :: u64
  assumes "0 < unat C" and "unat x + unat C < 2 ^ 64"
  defines "a \<equiv> x - x mod C" and "k \<equiv> unat x mod unat C"
  shows "window_start (unat C) a" and "k < unat C" and "x = a + of_nat k" and "unat a = unat x - k"
    and "unat a \<le> unat x"
proof -
  have m: "unat (x mod C) = k" by (simp add: k_def unat_mod)
  have le: "x mod C \<le> x" by (simp add: word_le_nat_alt unat_mod)
  then show ua: "unat a = unat x - k" using m by (simp add: a_def unat_diff_le)
  then show "unat a \<le> unat x" by simp
  show k: "k < unat C" using assms(1) by (simp add: k_def)
  have "(unat x - k) mod unat C = 0" by (simp add: k_def minus_mod_eq_mult_div)
  with ua assms(2) show "window_start (unat C) a" by (simp add: window_start_def)
  have "of_nat k = (of_nat (unat (x mod C)) :: u64)" by (simp only: m)
  then have "of_nat k = x mod C" by simp
  then show "x = a + of_nat k" by (simp add: a_def)
qed

section \<open>Mapping a submitted chunk in\<close>

lemma mapped_below:
  assumes "cm_wf m" and "cm_at m x \<noteq> None"
  shows "x < cm_len m"
  using cm_at_beyond [OF assms(1), of x] assms(2) by (meson not_le)

lemma unat_add_u64: "unat (x :: u64) + unat y < 2 ^ 64 \<Longrightarrow> unat (x + y) = unat x + unat y"
  by (simp add: unat_word_ariths)

lemma apply_submitted_view:
  fixes b :: blob_mut
  defines "m \<equiv> bm_chunk_map b"
  assumes wf: "cm_wf m" and len: "unat pos + unat n < 2 ^ 64"
  shows "cm_wf (bm_chunk_map (apply_submitted (i, pos, n) b))"
    and "unat (cm_len (bm_chunk_map (apply_submitted (i, pos, n) b))) = max (unat (cm_len m)) (unat pos + unat n)"
    and "cm_at (bm_chunk_map (apply_submitted (i, pos, n) b)) x =
      (if unat pos \<le> unat x \<and> unat x < unat pos + unat n then Some (i, x - pos) else cm_at m x)"
    and "bm_mode (apply_submitted (i, pos, n) b) = bm_mode b"
proof -
  define m1 where "m1 = (if cm_len m < pos + n then cm_set_len (pos + n) m else m)"
  have u: "unat (pos + n) = unat pos + unat n" using len by (rule unat_add_u64)
  have m': "bm_chunk_map (apply_submitted (i, pos, n) b) = cm_insert pos n i 0 m1"
    by (simp add: apply_submitted_def m1_def m_def blob_mut_len_def blob_mut_set_len_def Let_def)
  have wf1: "cm_wf m1" using wf by (simp add: m1_def wf_intros)
  then show "cm_wf (bm_chunk_map (apply_submitted (i, pos, n) b))" by (simp add: m' wf_intros)
  have len1: "unat (cm_len m1) = max (unat (cm_len m)) (unat pos + unat n)"
    using u by (auto simp: m1_def word_less_nat_alt max_def)
  then show "unat (cm_len (bm_chunk_map (apply_submitted (i, pos, n) b))) =
      max (unat (cm_len m)) (unat pos + unat n)" by (simp add: m')
  have at1: "cm_at m1 x = cm_at m x"
    using wf cm_at_beyond [OF wf, of x] by (auto simp: m1_def view_simps not_less)
  have "(n \<noteq> 0 \<and> pos \<le> x \<and> x < min (saturating_add pos n) (cm_len m1)) \<longleftrightarrow>
      (unat pos \<le> unat x \<and> unat x < unat pos + unat n)"
    using len1 len u by (auto simp: saturating_add_exact min_def word_less_nat_alt word_le_nat_alt unat_eq_zero)
  then show "cm_at (bm_chunk_map (apply_submitted (i, pos, n) b)) x =
      (if unat pos \<le> unat x \<and> unat x < unat pos + unat n then Some (i, x - pos) else cm_at m x)"
    by (simp add: m' cm_at_insert [OF wf1] at1)
  show "bm_mode (apply_submitted (i, pos, n) b) = bm_mode b"
    by (simp add: apply_submitted_def blob_mut_set_len_def Let_def)
qed

lemma windows_apart:
  assumes "window_start c a" and "window_start c b" and "a \<noteq> b"
  shows "unat a + c \<le> unat b \<or> unat b + c \<le> unat a"
proof -
  obtain i j where ij: "unat a = c * i" "unat b = c * j"
    using assms(1,2) by (auto simp: window_start_def mod_eq_0_iff_dvd dvd_def)
  with assms(3) have "i \<noteq> j" by (auto simp: word_unat_eq_iff)
  then consider "i + 1 \<le> j" | "j + 1 \<le> i" by linarith
  then show ?thesis
  proof cases
    case 1
    then have "c * (i + 1) \<le> c * j" by (rule mult_le_mono2)
    with ij show ?thesis by simp
  next
    case 2
    then have "c * (j + 1) \<le> c * i" by (rule mult_le_mono2)
    with ij show ?thesis by simp
  qed
qed

lemma apply_submitted_window:
  fixes b :: blob_mut
  defines "m \<equiv> bm_chunk_map b"
  assumes al: "aligned_map st c m" and ws: "window_start c pos" "unat pos + 2 * c < 2 ^ 64" and old: "window_is st c m pos old"
    and len: "length old \<le> length bs" "length bs \<le> c" "bs \<noteq> []" and st: "st i = Some bs"
    and m': "m' = bm_chunk_map (apply_submitted (i, pos, of_nat (length bs)) b)"
  shows "aligned_map st c m'" and "window_is st c m' pos bs"
    and "byte_at st m' = overlay pos bs (byte_at st m)"
    and "unat (cm_len m') = max (unat (cm_len m)) (unat pos + length bs)"
proof -
  from al have wf: "cm_wf m" by (simp add: aligned_map_def)
  have n: "unat (of_nat (length bs) :: u64) = length bs" and fit: "unat pos + length bs < 2 ^ 64"
    using ws(1) len(2) by (simp_all add: window_start_def unat_of_nat)
  note V = apply_submitted_view [OF wf [unfolded m_def], of pos "of_nat (length bs)" i, folded m_def m', unfolded n, OF fit]
  show lens: "unat (cm_len m') = max (unat (cm_len m)) (unat pos + length bs)" by (rule V(2))
  have off: "unat (x - pos) = unat x - unat pos" if "unat pos \<le> unat x" for x
    using that by (simp add: unat_diff_le word_le_nat_alt)
  show "byte_at st m' = overlay pos bs (byte_at st m)"
  proof
    fix x
    show "byte_at st m' x = overlay pos bs (byte_at st m) x"
    proof (cases "unat pos \<le> unat x \<and> unat x < unat pos + length bs")
      case True
      then have "unat x - unat pos < length bs" by linarith
      with True st off [of x] show ?thesis by (simp add: byte_at_def overlay_def V(3))
    next
      case False
      then show ?thesis by (auto simp: byte_at_def overlay_def V(3))
    qed
  qed
  have out: "cm_at m' (a + of_nat k) = cm_at m (a + of_nat k)"
    if "window_start c a" "a \<noteq> pos" "k < c" for a k
    using windows_apart [OF that(1) ws(1) that(2)] unat_window [OF that(1,3)] that(3) len(2)
    by (auto simp: V(3))
  show this_window: "window_is st c m' pos bs"
    unfolding window_is_def
  proof (intro conjI exI [of _ i] allI impI)
    fix k assume k: "k < c"
    have "cm_at m (pos + of_nat k) = None" if "length bs \<le> k"
      using old that len(1) k by (auto simp: window_is_def)
    moreover have "pos + of_nat k - pos = (of_nat k :: u64)" by simp
    ultimately show "cm_at m' (pos + of_nat k) = (if k < length bs then Some (i, of_nat k) else None)"
      using unat_window [OF ws(1) k] by (auto simp: V(3) not_less)
  qed (use len st in simp_all)
  have windows: "\<exists>bs'. window_is st c m' a bs'" if "window_start c a" for a
  proof (cases "a = pos")
    case True
    with this_window show ?thesis by blast
  next
    case False
    from al that obtain bs' where "window_is st c m a bs'" by (auto simp: aligned_map_def)
    then have "window_is st c m' a bs'"
      using out [OF that False] unfolding window_is_def by simp
    then show ?thesis by blast
  qed
  have last: "cm_at m' (cm_len m' - 1) \<noteq> None"
  proof (cases "unat (cm_len m) \<le> unat pos + length bs")
    case True
    have "0 < length bs" using len(3) by simp
    then have "unat (cm_len m' - 1) = unat pos + length bs - 1"
      using True lens unat_diff_le [of 1 "cm_len m'"] by (simp add: word_le_nat_alt max_def Suc_le_eq)
    with \<open>0 < length bs\<close> have "unat pos \<le> unat (cm_len m' - 1) \<and> unat (cm_len m' - 1) < unat pos + length bs"
      by linarith
    then show ?thesis by (simp add: V(3))
  next
    case False
    then have eq: "cm_len m' = cm_len m" using lens by (simp add: word_unat_eq_iff)
    with False al have "cm_at m (cm_len m - 1) \<noteq> None" by (auto simp: aligned_map_def)
    then show ?thesis by (auto simp: eq V(3))
  qed
  from al ws(2) lens len(2) have "unat (cm_len m') + c < 2 ^ 64" by (auto simp: aligned_map_def max_def)
  with V(1) windows last show "aligned_map st c m'" by (simp add: aligned_map_def)
qed

lemma window_mono: "window_is st c m a bs \<Longrightarrow> st \<subseteq>\<^sub>m st' \<Longrightarrow> window_is st' c m a bs"
  unfolding window_is_def map_le_def by (metis domI)

lemma aligned_mono: "aligned_map st c m \<Longrightarrow> st \<subseteq>\<^sub>m st' \<Longrightarrow> aligned_map st' c m"
  unfolding aligned_map_def by (blast intro: window_mono)

lemma aligned_backed:
  fixes C :: u64
  assumes al: "aligned_map st (unat C) m" and c: "0 < unat C"
  shows "backed st m"
  unfolding backed_def
proof (intro allI impI)
  fix x i off assume at: "cm_at m x = Some (i, off)"
  from al at have "x < cm_len m" by (intro mapped_below) (auto simp: aligned_map_def)
  then have "unat x + unat C < 2 ^ 64" using al by (simp add: aligned_map_def word_less_nat_alt)
  note W = window_of [OF c this]
  from al W(1) obtain bs where bs: "window_is st (unat C) m (x - x mod C) bs" by (auto simp: aligned_map_def)
  let ?k = "unat x mod unat C"
  from bs obtain j where j: "length bs \<le> unat C" "bs \<noteq> [] \<longrightarrow> st j = Some bs"
      "\<forall>k < unat C. cm_at m (x - x mod C + of_nat k) = (if k < length bs then Some (j, of_nat k) else None)"
    unfolding window_is_def by blast
  have "cm_at m x = (if ?k < length bs then Some (j, of_nat ?k) else None)"
    using j(3) [rule_format, OF W(2)] by (simp only: W(3) [symmetric])
  with at have "?k < length bs" "i = j" "off = of_nat ?k" by (simp_all split: if_splits)
  with j window_small [OF W(1,2)] u64_bound [of C]
  show "\<exists>bs. st i = Some bs \<and> unat off < length bs \<and> length bs < 2 ^ 64" by auto
qed

section \<open>The invariant and the content of a writer\<close>

definition buffer_ok :: "(content_id \<Rightarrow> bytes option) \<Rightarrow> nat \<Rightarrow> chunk_map \<Rightarrow> write_buffer \<Rightarrow> bool" where
  "buffer_ok st c m b = (window_start c (wb_start_pos b) \<and> unat (wb_start_pos b) + 2 * c < 2 ^ 64
     \<and> wb_capacity b = c \<and> length (wb_content b) \<le> c
     \<and> (\<exists>bs. window_is st c m (wb_start_pos b) bs \<and> length bs \<le> length (wb_content b))
     \<and> (if wb_dirty b then wb_content b \<noteq> []
        else (wb_content b = [] \<or> unat (wb_start_pos b) + length (wb_content b) \<le> unat (cm_len m))
          \<and> (\<forall>k < length (wb_content b). byte_at st m (wb_start_pos b + of_nat k) = Some (wb_content b ! k))))"

definition submit_ok ::
  "hasher \<Rightarrow> (content_id \<Rightarrow> bytes option) \<Rightarrow> nat \<Rightarrow> chunk_map \<Rightarrow> submit_in_flight \<Rightarrow> bool" where
  "submit_ok H st c m s = (window_start c (si_pos s) \<and> unat (si_pos s) + 2 * c < 2 ^ 64
     \<and> chunk_ok H (si_chunk s) \<and> si_chunk_id s = ch_id (si_chunk s)
     \<and> si_len s = of_nat (length (ch_content (si_chunk s)))
     \<and> ch_content (si_chunk s) \<noteq> [] \<and> length (ch_content (si_chunk s)) \<le> c
     \<and> (\<exists>bs. window_is st c m (si_pos s) bs \<and> length bs \<le> length (ch_content (si_chunk s))))"

definition writer_inv ::
  "('w \<Rightarrow> bool) \<Rightarrow> ('w \<Rightarrow> content_id \<Rightarrow> bytes option) \<Rightarrow> hasher \<Rightarrow> 'w read_write \<Rightarrow> bool" where
  "writer_inv winv stored H rw =
     (let st = stored (rw_world rw); c = unat (rw_max_chunk_size rw); m = bm_chunk_map (rw_blob rw);
          p = rw_pipeline rw
      in winv (rw_world rw) \<and> 0 < c \<and> aligned_map st c m \<and> fetch_ok st (rw_fetch rw)
         \<and> (wp_submit p = None \<or> wp_buffer p = None)
         \<and> pred_option (submit_ok H st c m) (wp_submit p) \<and> pred_option (buffer_ok st c m) (wp_buffer p))"

text \<open>The logical content and length.\<close>

definition writer_byte ::
  "('w \<Rightarrow> content_id \<Rightarrow> bytes option) \<Rightarrow> 'w read_write \<Rightarrow> u64 \<Rightarrow> u8 option" where
  "writer_byte stored rw =
     (case wp_buffer (rw_pipeline rw) of None \<Rightarrow> (\<lambda>f. f)
      | Some b \<Rightarrow> overlay (wb_start_pos b) (wb_content b))
     ((case wp_submit (rw_pipeline rw) of None \<Rightarrow> (\<lambda>f. f)
       | Some s \<Rightarrow> overlay (si_pos s) (ch_content (si_chunk s)))
      (byte_at (stored (rw_world rw)) (bm_chunk_map (rw_blob rw))))"

definition writer_len :: "'w read_write \<Rightarrow> nat" where
  "writer_len rw = max (unat (cm_len (bm_chunk_map (rw_blob rw))))
     (max (case wp_submit (rw_pipeline rw) of None \<Rightarrow> 0
           | Some s \<Rightarrow> unat (si_pos s) + length (ch_content (si_chunk s)))
          (case wp_buffer (rw_pipeline rw) of None \<Rightarrow> 0
           | Some b \<Rightarrow> if wb_dirty b then unat (wb_start_pos b) + length (wb_content b) else 0))"

text \<open>A step that keeps the invariant, the logical content and the settings.\<close>

definition keeps_content ::
  "('w \<Rightarrow> bool) \<Rightarrow> ('w \<Rightarrow> content_id \<Rightarrow> bytes option) \<Rightarrow> hasher \<Rightarrow> 'w read_write \<Rightarrow> 'w read_write \<Rightarrow> bool" where
  "keeps_content winv stored H rw rw' = (writer_inv winv stored H rw'
     \<and> writer_byte stored rw' = writer_byte stored rw \<and> writer_len rw' = writer_len rw
     \<and> rw_max_chunk_size rw' = rw_max_chunk_size rw \<and> rw_closed rw' = rw_closed rw)"

lemma keeps_refl: "writer_inv winv stored H rw \<Longrightarrow> keeps_content winv stored H rw rw"
  by (simp add: keeps_content_def)

lemma keeps_trans:
  "keeps_content winv stored H a b \<Longrightarrow> keeps_content winv stored H b c \<Longrightarrow> keeps_content winv stored H a c"
  by (simp add: keeps_content_def)

lemma buffer_mono: "buffer_ok st c m b \<Longrightarrow> backed st m \<Longrightarrow> st \<subseteq>\<^sub>m st' \<Longrightarrow> buffer_ok st' c m b"
  using byte_at_mono [of st m st'] window_mono [of st c m "wb_start_pos b" _ st']
  unfolding buffer_ok_def by (simp split: if_splits) blast+

lemma submit_mono: "submit_ok H st c m s \<Longrightarrow> st \<subseteq>\<^sub>m st' \<Longrightarrow> submit_ok H st' c m s"
  unfolding submit_ok_def by (blast intro: window_mono)

text \<open>A change of the world that only adds chunks keeps everything.\<close>

lemma keeps_world:
  assumes inv: "writer_inv winv stored H rw" and w: "winv w'" and le: "stored (rw_world rw) \<subseteq>\<^sub>m stored w'"
  shows "keeps_content winv stored H rw (rw\<lparr>rw_world := w'\<rparr>)"
proof -
  let ?m = "bm_chunk_map (rw_blob rw)" and ?c = "unat (rw_max_chunk_size rw)"
  from inv have b: "backed (stored (rw_world rw)) ?m"
    by (intro aligned_backed) (auto simp: writer_inv_def Let_def)
  have "writer_inv winv stored H (rw\<lparr>rw_world := w'\<rparr>)"
    using inv w unfolding writer_inv_def Let_def
    by (simp add: aligned_mono [OF _ le] fetch_ok_mono [OF _ le])
      (auto simp: pred_option_def intro: buffer_mono [OF _ b le] submit_mono [OF _ le])
  moreover have "byte_at (stored w') ?m = byte_at (stored (rw_world rw)) ?m"
    using byte_at_mono [OF b le] by blast
  ultimately show ?thesis
    by (simp add: keeps_content_def writer_byte_def writer_len_def)
qed

section \<open>Completing a submission\<close>

context chunk_store
begin

lemma submit_step:
  assumes cf: "inj (chunk_hash H)" and inv: "writer_inv winv stored H rw"
    and run: "on_pipeline (poll_submit_complete B) rw = Returns (r, rw1)"
  shows "case r of
      Ready (Inr (Some d)) \<Rightarrow> keeps_content winv stored H rw (rw1\<lparr>rw_blob := apply_submitted d (rw_blob rw1)\<rparr>)
        \<and> wp_submit (rw_pipeline rw) \<noteq> None \<and> wp_submit (rw_pipeline rw1) = None
        \<and> wp_buffer (rw_pipeline rw1) = wp_buffer (rw_pipeline rw)
    | Ready (Inr None) \<Rightarrow> rw1 = rw \<and> wp_submit (rw_pipeline rw) = None
    | _ \<Rightarrow> keeps_content winv stored H rw rw1"
proof (cases "wp_submit (rw_pipeline rw)")
  case None
  with run show ?thesis by (auto simp: on_pipeline_def poll_submit_complete_def)
next
  case (Some s)
  let ?c = "unat (rw_max_chunk_size rw)" and ?m = "bm_chunk_map (rw_blob rw)" and ?st = "stored (rw_world rw)"
  have sub: "submit_ok H ?st ?c ?m s" and w: "winv (rw_world rw)" and al: "aligned_map ?st ?c ?m"
    and nobuf: "wp_buffer (rw_pipeline rw) = None"
    using inv Some by (auto simp: writer_inv_def Let_def)
  then have ok: "chunk_ok H (si_chunk s)" by (simp add: submit_ok_def)
  obtain q w' where q: "poll_insert_chunk B (si_chunk s) (rw_world rw) = (q, w')"
    by (cases "poll_insert_chunk B (si_chunk s) (rw_world rw)")
  from insert_keeps [OF w ok q] have w': "winv w'" and le: "?st \<subseteq>\<^sub>m stored w'" by auto
  note K = keeps_world [OF inv w' le]
  from run Some have nc: "\<not> si_completed s" by (auto simp: on_pipeline_def poll_submit_complete_def)
  show ?thesis
  proof (cases q)
    case Pending
    with run Some nc q have "r = Pending" "rw1 = rw\<lparr>rw_world := w'\<rparr>"
      by (auto simp: on_pipeline_def poll_submit_complete_def)
    with K show ?thesis by simp
  next
    case (Ready res)
    show ?thesis
    proof (cases res)
      case (Inl e)
      with run Some nc q Ready have r: "r = Ready (Inl e)"
          "rw1 = rw\<lparr>rw_world := w', rw_pipeline := (rw_pipeline rw)\<lparr>wp_submit := Some (s\<lparr>si_completed := True\<rparr>)\<rparr>\<rparr>"
        by (auto simp: on_pipeline_def poll_submit_complete_def)
      with K Some nobuf show ?thesis
        by (simp add: keeps_content_def writer_inv_def Let_def submit_ok_def writer_byte_def writer_len_def)
    next
      case (Inr u)
      let ?bs = "ch_content (si_chunk s)" and ?st' = "stored w'"
      let ?rw2 = "rw1\<lparr>rw_blob := apply_submitted (si_chunk_id s, si_pos s, si_len s) (rw_blob rw1)\<rparr>"
      from run Some nc q Ready Inr have r: "r = Ready (Inr (Some (si_chunk_id s, si_pos s, si_len s)))"
          "rw1 = rw\<lparr>rw_world := w', rw_pipeline := (rw_pipeline rw)\<lparr>wp_submit := None\<rparr>\<rparr>"
        by (auto simp: on_pipeline_def poll_submit_complete_def)
      from insert_stores [OF w ok] q Ready Inr obtain bs' where bs': "?st' (ch_id (si_chunk s)) = Some bs'"
        by fastforce
      have "chunk_hash H bs' = chunk_hash H ?bs"
        using stored_hash [OF w' bs'] ok by (simp add: chunk_ok_def)
      with cf have "bs' = ?bs" by (rule injD)
      with bs' sub have st': "?st' (si_chunk_id s) = Some ?bs" by (simp add: submit_ok_def)
      from sub obtain old where old: "window_is ?st ?c ?m (si_pos s) old" "length old \<le> length ?bs"
        by (auto simp: submit_ok_def)
      from sub have len: "length ?bs \<le> ?c" "?bs \<noteq> []" and n: "si_len s = of_nat (length ?bs)"
        and ws: "window_start ?c (si_pos s)" "unat (si_pos s) + 2 * ?c < 2 ^ 64"
        by (auto simp: submit_ok_def)
      note A = apply_submitted_window [OF aligned_mono [OF al le] ws window_mono [OF old(1) le] old(2) len st' refl]
      have blob2: "rw_blob ?rw2 = apply_submitted (si_chunk_id s, si_pos s, of_nat (length ?bs)) (rw_blob rw)"
        by (simp add: r n)
      have bytes: "byte_at ?st' ?m = byte_at ?st ?m"
        using byte_at_mono [OF aligned_backed [OF al] le] inv by (auto simp: writer_inv_def Let_def)
      have "writer_inv winv stored H ?rw2"
        using inv w' A(1) fetch_ok_mono [OF _ le] nobuf blob2
        by (simp add: writer_inv_def Let_def r)
      moreover have "writer_byte stored ?rw2 = writer_byte stored rw"
        using A(3) blob2 Some nobuf by (simp add: writer_byte_def bytes r)
      moreover have "writer_len ?rw2 = writer_len rw"
        using A(4) blob2 Some nobuf by (simp add: writer_len_def r)
      ultimately show ?thesis
        using r Some by (simp add: keeps_content_def)
    qed
  qed
qed

end

section \<open>Flushing\<close>

lemma submit_buffer_keeps:
  assumes inv: "writer_inv winv stored H rw" and b: "wp_buffer (rw_pipeline rw) = Some b" "wb_dirty b"
  shows "keeps_content winv stored H rw
    (rw\<lparr>rw_pipeline := (rw_pipeline rw)\<lparr>wp_buffer := None, wp_submit := Some (submit_of H b)\<rparr>\<rparr>)"
proof -
  have ns: "wp_submit (rw_pipeline rw) = None" using inv b by (auto simp: writer_inv_def Let_def)
  have "buffer_ok (stored (rw_world rw)) (unat (rw_max_chunk_size rw)) (bm_chunk_map (rw_blob rw)) b"
    using inv b by (simp add: writer_inv_def Let_def)
  then have "submit_ok H (stored (rw_world rw)) (unat (rw_max_chunk_size rw)) (bm_chunk_map (rw_blob rw)) (submit_of H b)"
    using b(2) by (simp add: buffer_ok_def submit_ok_def submit_of_def Let_def wf_intros)
  with inv b ns show ?thesis
    by (simp add: keeps_content_def writer_inv_def Let_def writer_byte_def writer_len_def submit_of_def)
qed

lemma overlay_same:
  assumes "window_start c start" and "length bs \<le> c"
    and "\<forall>k < length bs. f (start + of_nat k) = Some (bs ! k)"
  shows "overlay start bs f = f"
proof
  fix x
  show "overlay start bs f x = f x"
  proof (cases "unat start \<le> unat x \<and> unat x < unat start + length bs")
    case True
    let ?k = "unat x - unat start"
    from True have k: "?k < length bs" by linarith
    with assms(2) have "unat (start + of_nat ?k) = unat start + ?k" by (intro unat_window [OF assms(1)]) simp
    with True have "start + of_nat ?k = x" by (simp add: word_unat_eq_iff)
    with assms(3) k True show ?thesis by (auto simp: overlay_def)
  qed (auto simp: overlay_def)
qed

lemma drop_buffer_keeps:
  assumes inv: "writer_inv winv stored H rw" and b: "wp_buffer (rw_pipeline rw) = Some b" "\<not> wb_dirty b"
  shows "keeps_content winv stored H rw (rw\<lparr>rw_pipeline := (rw_pipeline rw)\<lparr>wp_buffer := None\<rparr>\<rparr>)"
proof -
  have ns: "wp_submit (rw_pipeline rw) = None" using inv b by (auto simp: writer_inv_def Let_def)
  have "buffer_ok (stored (rw_world rw)) (unat (rw_max_chunk_size rw)) (bm_chunk_map (rw_blob rw)) b"
    using inv b by (simp add: writer_inv_def Let_def)
  with b(2) have "overlay (wb_start_pos b) (wb_content b)
      (byte_at (stored (rw_world rw)) (bm_chunk_map (rw_blob rw)))
      = byte_at (stored (rw_world rw)) (bm_chunk_map (rw_blob rw))"
    by (intro overlay_same [of "unat (rw_max_chunk_size rw)"]) (auto simp: buffer_ok_def)
  with inv b ns show ?thesis
    by (simp add: keeps_content_def writer_inv_def Let_def writer_byte_def writer_len_def)
qed

context chunk_store
begin

lemma flush_step:
  assumes cf: "inj (chunk_hash H)" and inv: "writer_inv winv stored H rw"
    and run: "on_pipeline (poll_flush H B) rw = Returns (r, rw1)"
  shows "case r of
      Ready (Inr (Some d)) \<Rightarrow> keeps_content winv stored H rw (rw1\<lparr>rw_blob := apply_submitted d (rw_blob rw1)\<rparr>)
    | Ready (Inr None) \<Rightarrow> keeps_content winv stored H rw rw1
        \<and> wp_submit (rw_pipeline rw1) = None \<and> wp_buffer (rw_pipeline rw1) = None
    | _ \<Rightarrow> keeps_content winv stored H rw rw1"
proof (cases "wp_submit (rw_pipeline rw)")
  case (Some s)
  then have "on_pipeline (poll_flush H B) rw = on_pipeline (poll_submit_complete B) rw"
    by (simp add: on_pipeline_def poll_flush_def)
  with submit_step [OF cf inv] run Some show ?thesis
    by (auto split: poll.splits sum.splits option.splits)
next
  case ns: None
  show ?thesis
  proof (cases "wp_buffer (rw_pipeline rw)")
    case None
    with ns run inv show ?thesis
      by (auto simp: on_pipeline_def poll_flush_def keeps_refl)
  next
    case (Some b)
    show ?thesis
    proof (cases "wb_dirty b")
      case False
      with Some ns run have "r = Ready (Inr None)"
          "rw1 = rw\<lparr>rw_pipeline := (rw_pipeline rw)\<lparr>wp_buffer := None\<rparr>\<rparr>"
        by (auto simp: on_pipeline_def poll_flush_def)
      with drop_buffer_keeps [OF inv Some False] ns show ?thesis by simp
    next
      case True
      let ?rw = "rw\<lparr>rw_pipeline := (rw_pipeline rw)\<lparr>wp_buffer := None, wp_submit := Some (submit_of H b)\<rparr>\<rparr>"
      note K = submit_buffer_keeps [OF inv Some True]
      then have inv': "writer_inv winv stored H ?rw" by (simp add: keeps_content_def)
      have run': "on_pipeline (poll_submit_complete B) ?rw = Returns (r, rw1)"
        using run Some True ns by (auto simp: on_pipeline_def poll_flush_def split: outcome.splits prod.splits)
      show ?thesis
        using submit_step [OF cf inv' run']
        by (auto split: poll.splits sum.splits option.splits intro: keeps_trans [OF K])
    qed
  qed
qed

lemma flush_pipeline_keeps:
  assumes cf: "inj (chunk_hash H)"
  shows "writer_inv winv stored H rw \<Longrightarrow> poll_flush_pipeline H B rw = Returns (r, rw') \<Longrightarrow>
    keeps_content winv stored H rw rw'
    \<and> (r = Ready (Inr u) \<longrightarrow> wp_submit (rw_pipeline rw') = None \<and> wp_buffer (rw_pipeline rw') = None)"
proof (induction rw rule: measure_induct_rule [where f = "\<lambda>rw. pipeline_work (rw_pipeline rw)"])
  case (less rw)
  obtain q rw1 where q: "on_pipeline (poll_flush H B) rw = Returns (q, rw1)"
    using less.prems(2) by (cases "on_pipeline (poll_flush H B) rw") (auto simp: poll_flush_pipeline.simps)
  note S = flush_step [OF cf less.prems(1) q]
  show ?case
  proof (cases "\<exists>d. q = Ready (Inr (Some d))")
    case False
    with less.prems(2) q S show ?thesis
      by (auto simp: poll_flush_pipeline.simps split: poll.splits sum.splits option.splits)
  next
    case True
    then obtain d where d: "q = Ready (Inr (Some d))" by blast
    let ?rw2 = "rw1\<lparr>rw_blob := apply_submitted d (rw_blob rw1)\<rparr>"
    from S d have K: "keeps_content winv stored H rw ?rw2" by simp
    have run: "poll_flush_pipeline H B ?rw2 = Returns (r, rw')"
      using less.prems(2) q d by (simp add: poll_flush_pipeline.simps)
    have "pipeline_work (rw_pipeline ?rw2) < pipeline_work (rw_pipeline rw)"
      using q d by (auto simp: on_pipeline_def dest!: flush_work split: outcome.splits prod.splits)
    from less.IH [OF this _ run] K show ?thesis
      by (auto simp: keeps_content_def)
  qed
qed

lemma ensure_submit_keeps:
  assumes cf: "inj (chunk_hash H)" and inv: "writer_inv winv stored H rw"
    and run: "poll_ensure_submit_complete B rw = Returns (r, rw')"
  shows "keeps_content winv stored H rw rw'
    \<and> (r = Ready (Inr u) \<longrightarrow> wp_submit (rw_pipeline rw') = None
         \<and> wp_buffer (rw_pipeline rw') = wp_buffer (rw_pipeline rw))"
proof -
  obtain q rw1 where q: "on_pipeline (poll_submit_complete B) rw = Returns (q, rw1)"
    using run by (cases "on_pipeline (poll_submit_complete B) rw")
      (auto simp: poll_ensure_submit_complete_def pbind_def)
  show ?thesis
    using submit_step [OF cf inv q] run q keeps_refl [OF inv]
    by (auto simp: poll_ensure_submit_complete_def pbind_def pret_def split: poll.splits sum.splits option.splits)
qed

end

section \<open>Creating a buffer\<close>

text \<open>The holes a lookup reports end at a mapped byte or at the end of the file.\<close>

lemma cm_get_hole_end:
  assumes wf: "cm_wf m" and get: "cm_get x m = Some (CHole l)"
  shows "x + l = cm_len m \<or> cm_at m (x + l) \<noteq> None"
proof -
  let ?es = "cm_entries m"
  from wf have d: "disjoint_from 0 ?es" by (simp add: cm_wf_def)
  note ok = disjoint_bt_ok [OF d]
  define h where "h = (case bt_above x ?es of Some (s, _) \<Rightarrow> min s (cm_len m) | None \<Rightarrow> cm_len m)"
  from get have "l = h - x"
    by (auto simp: cm_get_def Let_def h_def split: if_splits option.splits)
  then have xl: "x + l = h" by simp
  show ?thesis
  proof (cases "bt_above x ?es")
    case None
    then show ?thesis by (simp add: xl h_def)
  next
    case (Some p)
    obtain s e where p: "p = (s, e)" by (cases p)
    from bt_above_memD(1) [OF ok Some [unfolded p]] have mem: "(s, e) \<in> set ?es" .
    have "\<not> (\<forall>(s', e') \<in> set ?es. \<not> (s' \<le> s \<and> s < ce_end e'))"
      using mem disjoint_start [OF d mem] by (auto intro!: bexI [of _ "(s, e)"])
    then have "entries_at ?es s \<noteq> None" by (simp only: entries_at_None [OF d] simp_thms)
    then show ?thesis by (auto simp: xl h_def Some p min_def cm_at_def)
  qed
qed

lemma hole_fills_window:
  assumes al: "aligned_map st c m" and ws: "window_start c a" and c: "0 < c"
    and get: "cm_get a m = Some (CHole l)"
  shows "c \<le> unat l" and "window_is st c m a []"
proof -
  from al have wf: "cm_wf m" by (simp add: aligned_map_def)
  from cm_get_run [OF wf, of a] get have r: "a < cm_len m" "0 < l" "l \<le> cm_len m - a"
    and hole: "\<And>i. i < l \<Longrightarrow> cm_at m (a + i) = None" by auto
  from al ws obtain bs where bs: "window_is st c m a bs" by (auto simp: aligned_map_def)
  have "cm_at m (a + of_nat 0) = None" using hole [of 0] r(2) by simp
  with bs c have e: "bs = []" by (auto simp: window_is_def split: if_splits)
  with bs show w: "window_is st c m a []" by simp
  then have none: "cm_at m (a + of_nat k) = None" if "k < c" for k using that by (simp add: window_is_def)
  show "c \<le> unat l"
  proof (rule ccontr)
    assume "\<not> c \<le> unat l"
    then have l: "unat l < c" by simp
    with none [of "unat l"] cm_get_hole_end [OF wf get] have fin: "a + l = cm_len m" by simp
    have lpos: "0 < unat l" using r(2) by (simp add: word_less_nat_alt)
    have "a + of_nat (unat l - 1) = cm_len m - 1"
      using lpos by (simp add: of_nat_diff fin [symmetric] Suc_le_eq)
    moreover have "cm_at m (a + of_nat (unat l - 1)) = None" using l lpos by (intro none) simp
    ultimately have "cm_at m (cm_len m - 1) = None" by (simp only:)
    with al r(1) show False by (auto simp: aligned_map_def)
  qed
qed

lemma set_buffer_inv:
  assumes inv: "writer_inv winv stored H rw" and free: "wp_submit (rw_pipeline rw) = None" "wp_buffer (rw_pipeline rw) = None"
    and ok: "buffer_ok (stored (rw_world rw)) (unat (rw_max_chunk_size rw)) (bm_chunk_map (rw_blob rw)) b"
    and clean: "\<not> wb_dirty b"
  shows "keeps_content winv stored H rw (set_buffer b rw)"
proof -
  have "overlay (wb_start_pos b) (wb_content b)
      (byte_at (stored (rw_world rw)) (bm_chunk_map (rw_blob rw)))
      = byte_at (stored (rw_world rw)) (bm_chunk_map (rw_blob rw))"
    using ok clean by (intro overlay_same [of "unat (rw_max_chunk_size rw)"]) (auto simp: buffer_ok_def)
  with assms show ?thesis
    by (simp add: keeps_content_def set_buffer_def writer_inv_def Let_def writer_byte_def writer_len_def)
qed

context chunk_store
begin

lemma fetch_keeps:
  assumes inv: "writer_inv winv stored H rw" and run: "on_fetch (poll_ensure B i) rw = Returns (r, rw')"
  shows "keeps_content winv stored H rw rw'" and "rw_pipeline rw' = rw_pipeline rw" and "rw_blob rw' = rw_blob rw"
    and "stored (rw_world rw) \<subseteq>\<^sub>m stored (rw_world rw')"
    and "r = Ready (Inr u) \<Longrightarrow> \<exists>c. cf_cached (rw_fetch rw') = Some c \<and> stored (rw_world rw') i = Some (ch_content c)"
proof -
  from run obtain f w where q: "poll_ensure B i (rw_fetch rw, rw_world rw) = Returns (r, f, w)"
    and rw': "rw' = rw\<lparr>rw_fetch := f, rw_world := w\<rparr>"
    by (auto simp: on_fetch_def split: outcome.splits)
  from inv have w0: "winv (rw_world rw)" and f0: "fetch_ok (stored (rw_world rw)) (rw_fetch rw)"
    by (auto simp: writer_inv_def Let_def)
  note E = poll_ensure_facts [OF w0 f0 q]
  have "keeps_content winv stored H rw (rw\<lparr>rw_world := w\<rparr>)" by (rule keeps_world [OF inv E(1,2)])
  then show "keeps_content winv stored H rw rw'"
    using E(3) by (simp add: rw' keeps_content_def writer_inv_def Let_def writer_byte_def writer_len_def)
  show "rw_pipeline rw' = rw_pipeline rw" "rw_blob rw' = rw_blob rw"
    "stored (rw_world rw) \<subseteq>\<^sub>m stored (rw_world rw')" using E(2) by (simp_all add: rw')
  show "r = Ready (Inr u) \<Longrightarrow> \<exists>c. cf_cached (rw_fetch rw') = Some c \<and> stored (rw_world rw') i = Some (ch_content c)"
    using E(4) by (auto simp: rw')
qed

lemma make_buffer_keeps:
  assumes inv: "writer_inv winv stored H rw" and free: "wp_submit (rw_pipeline rw) = None" "wp_buffer (rw_pipeline rw) = None"
    and room: "unat pos + 2 * unat (rw_max_chunk_size rw) < 2 ^ 64"
    and run: "make_buffer B pos rw = Returns (r, rw')"
  shows "keeps_content winv stored H rw rw'
    \<and> (r = Ready (Inr u) \<longrightarrow> (\<exists>b. wp_submit (rw_pipeline rw') = None \<and> wp_buffer (rw_pipeline rw') = Some b
         \<and> wb_start_pos b = pos - pos mod rw_max_chunk_size rw))"
proof -
  let ?C = "rw_max_chunk_size rw" let ?a = "pos - pos mod ?C"
  let ?m = "bm_chunk_map (rw_blob rw)" and ?st = "stored (rw_world rw)"
  from inv have c: "0 < unat ?C" and al: "aligned_map ?st (unat ?C) ?m" by (auto simp: writer_inv_def Let_def)
  then have wf: "cm_wf ?m" by (simp add: aligned_map_def)
  note W = window_of [OF c, of pos]
  have ws: "window_start (unat ?C) ?a" and a2: "unat ?a + 2 * unat ?C < 2 ^ 64"
    using room W by simp_all
  have ne: "?C \<noteq> 0" using c by auto
  note g = cm_get_run [OF wf, of ?a]
  have new: "buffer_ok ?st (unat ?C) ?m (write_buffer_new ?a ?C)" if "window_is ?st (unat ?C) ?m ?a []"
    using ws a2 that by (auto simp: buffer_ok_def write_buffer_new_def)
  show ?thesis
  proof (cases "cm_get ?a ?m")
    case None
    with g have "cm_len ?m \<le> ?a" by simp
    then have "cm_at ?m (?a + of_nat 0) = None" using cm_at_beyond [OF wf] by simp
    moreover from al ws obtain bs where bs: "window_is ?st (unat ?C) ?m ?a bs" by (auto simp: aligned_map_def)
    ultimately have "bs = []" using c by (auto simp: window_is_def split: if_splits)
    with bs new have "buffer_ok ?st (unat ?C) ?m (write_buffer_new ?a ?C)" by simp
    from set_buffer_inv [OF inv free this] run None ne show ?thesis
      using free by (auto simp: make_buffer_def Let_def pret_def write_buffer_new_def set_buffer_def)
  next
    case (Some e)
    show ?thesis
    proof (cases e)
      case (CHole l)
      with Some have get: "cm_get ?a ?m = Some (CHole l)" by simp
      note hw = hole_fills_window [OF al ws c get]
      have "min l ?C = ?C" using hw(1) by (simp add: min_def word_le_nat_alt word_unat_eq_iff)
      with set_buffer_inv [OF inv free new [OF hw(2)]] run get ne show ?thesis
        using free by (auto simp: make_buffer_def Let_def pret_def write_buffer_new_def set_buffer_def)
    next
      case (CChunk i off l)
      with Some have get: "cm_get ?a ?m = Some (CChunk i off l)" by simp
      have "0 < unat l" using g get by (simp add: word_less_nat_alt)
      from run_bytes(1) [OF wf get this] have at: "cm_at ?m ?a = Some (i, off)" by simp
      from al ws obtain bs where bs: "window_is ?st (unat ?C) ?m ?a bs" by (auto simp: aligned_map_def)
      then obtain j where j: "length bs \<le> unat ?C" "bs \<noteq> [] \<longrightarrow> ?st j = Some bs"
          "cm_at ?m (?a + of_nat 0) = (if 0 < length bs then Some (j, of_nat 0) else None)"
        using c unfolding window_is_def by blast
      with at have off: "off = 0" "?st i = Some bs" "bs \<noteq> []" by (auto split: if_splits)
      obtain q rw1 where q: "on_fetch (poll_ensure B i) rw = Returns (q, rw1)"
        using run get ne off(1) by (cases "on_fetch (poll_ensure B i) rw")
          (auto simp: make_buffer_def Let_def pbind_def)
      note K = fetch_keeps [OF inv q]
      from K(1) have inv1: "writer_inv winv stored H rw1" and C1: "rw_max_chunk_size rw1 = ?C"
        by (simp_all add: keeps_content_def)
      show ?thesis
      proof (cases "q = Ready (Inr ())")
        case False
        with run q get ne off(1) have "rw' = rw1" "r \<noteq> Ready (Inr u)"
          by (auto simp: make_buffer_def Let_def pbind_def split: poll.splits sum.splits)
        with K(1) show ?thesis by simp
      next
        case True
        with K(5) obtain ch where ch: "cf_cached (rw_fetch rw1) = Some ch"
            "stored (rw_world rw1) i = Some (ch_content ch)" by blast
        with K(4) off(2) have content: "ch_content ch = bs" by (auto simp: map_le_def dom_def)
        let ?b = "from_data ?a ?C bs"
        have w1: "window_is (stored (rw_world rw1)) (unat ?C) ?m ?a bs" by (rule window_mono [OF bs K(4)])
        have last: "length bs - 1 < length bs" "length bs - 1 < unat ?C" using off(3) j(1) by (simp_all add: Suc_le_eq) (cases bs; simp)
        have "\<exists>v. cm_at ?m (?a + of_nat k) = Some v" if "k < length bs" "k < unat ?C" for k
          using bs that unfolding window_is_def by auto
        from this [OF last] have "cm_at ?m (?a + of_nat (length bs - 1)) \<noteq> None" by (metis option.distinct(1))
        from mapped_below [OF wf this] have "unat (?a + of_nat (length bs - 1)) < unat (cm_len ?m)"
          by (simp only: word_less_nat_alt)
        then have "unat ?a + (length bs - 1) < unat (cm_len ?m)"
          by (simp only: unat_window [OF ws last(2)])
        with last(1) have "unat ?a + length bs \<le> unat (cm_len ?m)" by linarith
        moreover have "\<forall>k < length bs. byte_at (stored (rw_world rw1)) ?m (?a + of_nat k) = Some (bs ! k)"
          using window_byte [OF w1 ws] j(1) by simp
        ultimately have "buffer_ok (stored (rw_world rw1)) (unat ?C) ?m ?b"
          using ws a2 w1 j(1) by (auto simp: buffer_ok_def from_data_def write_buffer_new_def vec_extend_cap_def)
        then have "buffer_ok (stored (rw_world rw1)) (unat (rw_max_chunk_size rw1)) (bm_chunk_map (rw_blob rw1)) ?b"
          by (simp add: C1 K(3))
        from set_buffer_inv [OF inv1 _ _ this] free K(2)
        have "keeps_content winv stored H rw1 (set_buffer ?b rw1)"
          by (simp add: from_data_def write_buffer_new_def)
        moreover have "r = Ready (Inr ())" "rw' = set_buffer ?b rw1"
          using run q get ne off(1) True ch(1) content C1
          by (auto simp: make_buffer_def Let_def pbind_def pret_def)
        ultimately show ?thesis
          using keeps_trans [OF K(1)] free K(2) by (auto simp: set_buffer_def from_data_def write_buffer_new_def)
      qed
    qed
  qed
qed

end

section \<open>Writing into the buffer\<close>

lemma write_step:
  assumes inv: "writer_inv winv stored H rw" and buf: "wp_buffer (rw_pipeline rw) = Some b"
    and pos: "unat (wb_start_pos b) \<le> unat pos" "unat pos < unat (wb_start_pos b) + unat (rw_max_chunk_size rw)"
    and data: "data \<noteq> []" and run: "write_at b pos data = Returns (n, b')"
  shows "writer_inv winv stored H (set_buffer b' rw)"
    and "n = min (length data) (unat (wb_start_pos b) + unat (rw_max_chunk_size rw) - unat pos)"
    and "writer_byte stored (set_buffer b' rw) = overlay pos (take n data) (writer_byte stored rw)"
    and "writer_len (set_buffer b' rw) = max (writer_len rw) (unat pos + n)"
proof -
  let ?c = "unat (rw_max_chunk_size rw)" and ?m = "bm_chunk_map (rw_blob rw)" and ?st = "stored (rw_world rw)"
  let ?s = "wb_start_pos b" and ?v = "wb_content b"
  define off where "off = unat pos - unat ?s"
  have ok: "buffer_ok ?st ?c ?m b" and ns: "wp_submit (rw_pipeline rw) = None"
    using inv buf by (auto simp: writer_inv_def Let_def)
  then have ws: "window_start ?c ?s" "unat ?s + 2 * ?c < 2 ^ 64" and cap: "wb_capacity b = ?c"
    and vc: "length ?v \<le> ?c" by (auto simp: buffer_ok_def)
  from ok obtain bs where bs: "window_is ?st ?c ?m ?s bs" "length bs \<le> length ?v" by (auto simp: buffer_ok_def)
  have o: "unat (pos - ?s) = off" using pos(1) by (simp add: off_def unat_diff_le word_le_nat_alt)
  from run obtain v' where v': "write_into_vec ?c ?v off data = Returns (n, v')"
      and b': "b' = b\<lparr>wb_content := v', wb_dirty := wb_dirty b \<or> 0 < n\<rparr>"
    by (auto simp: write_at_def cap o split: outcome.splits)
  note F = write_into_vec_facts [OF v']
  have oc: "off < ?c" using pos by (simp add: off_def)
  then have n0: "0 < n" using F(2) data by simp
  show n: "n = min (length data) (unat ?s + ?c - unat pos)" using F(2) pos by (simp add: off_def)
  have fits: "off + n \<le> ?c" and nd: "n \<le> length data" using F(2) oc by simp_all
  have "v' \<noteq> []" using F(3) n0 by auto
  moreover have "length v' \<le> ?c" using F(3) fits vc by simp
  moreover have "length bs \<le> length v'" using F(3) bs(2) by simp
  ultimately have "buffer_ok ?st ?c ?m b'"
    using ok bs(1) n0 by (auto simp: buffer_ok_def b')
  then show "writer_inv winv stored H (set_buffer b' rw)"
    using inv ns by (simp add: writer_inv_def Let_def set_buffer_def)
  show "writer_byte stored (set_buffer b' rw) = overlay pos (take n data) (writer_byte stored rw)"
  proof
    fix x
    let ?base = "byte_at ?st ?m"
    have base0: "?base x = Some 0" if "unat ?s + length ?v \<le> unat x" "unat x < unat ?s + ?c"
    proof -
      let ?k = "unat x - unat ?s"
      from that have k: "?k < ?c" "length bs \<le> ?k" using bs(2) by linarith+
      then have "?s + of_nat ?k = x"
        using unat_window [OF ws(1) k(1)] that by (simp add: word_unat_eq_iff)
      with window_byte [OF bs(1) ws(1) k(1)] k(2) show ?thesis by simp
    qed
    have ou: "unat pos = unat ?s + off" using pos(1) by (simp add: off_def)
    have lv: "length v' = max (length ?v) (off + n)" by (rule F(3))
    have nth: "v' ! i = (if off \<le> i \<and> i < off + n then data ! (i - off) else if i < length ?v then ?v ! i else 0)"
      if "i < max (length ?v) (off + n)" for i using F(4) [of i] that lv by simp
    have lhs: "writer_byte stored (set_buffer b' rw) x = overlay ?s v' ?base x"
      using ns by (simp add: writer_byte_def set_buffer_def b')
    have rhs: "overlay pos (take n data) (writer_byte stored rw) x =
        (if unat pos \<le> unat x \<and> unat x < unat pos + n then Some (data ! (unat x - unat pos))
         else overlay ?s ?v ?base x)"
      using ns buf nd by (auto simp: overlay_def writer_byte_def min_def)
    show "writer_byte stored (set_buffer b' rw) x = overlay pos (take n data) (writer_byte stored rw) x"
    proof (cases "unat ?s \<le> unat x \<and> unat x < unat ?s + length v'")
      case False
      then show ?thesis unfolding lhs rhs by (auto simp: overlay_def lv ou)
    next
      case True
      then have i: "unat x - unat ?s < max (length ?v) (off + n)" using lv by linarith
      show ?thesis
        using True nth [OF i] base0 fits vc unfolding lhs rhs
        by (auto simp: overlay_def lv ou)
    qed
  qed
  have ou: "unat pos = unat ?s + off" using pos(1) by (simp add: off_def)
  have "\<not> wb_dirty b \<Longrightarrow> ?v = [] \<or> unat ?s + length ?v \<le> unat (cm_len ?m)"
    using ok by (simp add: buffer_ok_def)
  then show "writer_len (set_buffer b' rw) = max (writer_len rw) (unat pos + n)"
    using ns buf n0 F(3) ou by (auto simp: writer_len_def set_buffer_def b' max_def)
qed

lemma pbind_cases:
  assumes "pbind m f s = Returns (r, s')"
  obtains "m s = Returns (Pending, s')" "r = Pending"
    | e where "m s = Returns (Ready (Inl e), s')" "r = Ready (Inl e)"
    | a s1 where "m s = Returns (Ready (Inr a), s1)" "f a s1 = Returns (r, s')"
  using assms by (auto simp: pbind_def split: outcome.splits prod.splits poll.splits sum.splits)

text \<open>What a write reports: the invariant, the count, the new content and the new length.\<close>

definition write_post ::
  "('w \<Rightarrow> bool) \<Rightarrow> ('w \<Rightarrow> content_id \<Rightarrow> bytes option) \<Rightarrow> hasher \<Rightarrow> 'w read_write \<Rightarrow> u64 \<Rightarrow> bytes
   \<Rightarrow> nat \<Rightarrow> 'w read_write \<Rightarrow> bool" where
  "write_post winv stored H rw pos data n rw' =
     (let c = unat (rw_max_chunk_size rw)
      in writer_inv winv stored H rw' \<and> n = min (length data) (c - unat pos mod c) \<and> 0 < n
         \<and> writer_byte stored rw' = overlay pos (take n data) (writer_byte stored rw)
         \<and> writer_len rw' = max (writer_len rw) (unat pos + n)
         \<and> rw_max_chunk_size rw' = rw_max_chunk_size rw \<and> rw_closed rw' = rw_closed rw)"

lemma write_post_trans:
  "keeps_content winv stored H a b \<Longrightarrow> write_post winv stored H b pos data n d \<Longrightarrow>
   write_post winv stored H a pos data n d"
  by (simp add: keeps_content_def write_post_def)

lemma keeps_invalidate:
  "keeps_content winv stored H a b \<Longrightarrow> keeps_content winv stored H a (b\<lparr>rw_fetch := invalidate (rw_fetch b)\<rparr>)"
proof -
  assume k: "keeps_content winv stored H a b"
  then have "writer_inv winv stored H b" by (simp add: keeps_content_def)
  then have "keeps_content winv stored H b (b\<lparr>rw_fetch := invalidate (rw_fetch b)\<rparr>)"
    by (simp add: keeps_content_def writer_inv_def Let_def writer_byte_def writer_len_def invalidate_def fetch_ok_def)
  with k show ?thesis by (rule keeps_trans)
qed

lemma window_offset:
  assumes "window_start c a" and "unat a \<le> p" and "p < unat a + c"
  shows "unat a + c - p = c - p mod c"
proof -
  from assms(1) have "unat a mod c = 0" by (simp add: window_start_def)
  then obtain q where q: "unat a = c * q" by (auto simp: mod_eq_0_iff_dvd dvd_def)
  have "p = c * q + (p - unat a)" "p - unat a < c" using assms(2,3) q by linarith+
  then have "p mod c = p - unat a" by (metis mod_less mod_mult_self4)
  with assms(2,3) show ?thesis by simp
qed

lemma write_into_buffer:
  assumes inv: "writer_inv winv stored H rw" and buf: "wp_buffer (rw_pipeline rw) = Some b"
    and pos: "unat (wb_start_pos b) \<le> unat pos" "unat pos < unat (wb_start_pos b) + unat (rw_max_chunk_size rw)"
    and data: "data \<noteq> []" and run: "write_at b pos data = Returns (n, b')"
  shows "write_post winv stored H rw pos data n (set_buffer b' rw)"
proof -
  note W = write_step [OF inv buf pos data run]
  have "window_start (unat (rw_max_chunk_size rw)) (wb_start_pos b)"
    using inv buf by (auto simp: writer_inv_def Let_def buffer_ok_def)
  from window_offset [OF this pos] W(2)
  have n: "n = min (length data) (unat (rw_max_chunk_size rw) - unat pos mod unat (rw_max_chunk_size rw))" by simp
  moreover have "0 < n" using W(2) data pos by simp
  ultimately show ?thesis
    using W(1,3,4) by (simp add: write_post_def Let_def set_buffer_def)
qed

context chunk_store
begin

lemma make_room_keeps:
  assumes cf: "inj (chunk_hash H)" and inv: "writer_inv winv stored H rw" and free: "wp_submit (rw_pipeline rw) = None"
    and run: "(case wp_buffer (rw_pipeline rw) of
              Some b \<Rightarrow> if wb_contains b pos then pret () rw
                        else pbind (poll_flush_pipeline H B)
                               (\<lambda>_ rw. pret () (rw\<lparr>rw_fetch := invalidate (rw_fetch rw)\<rparr>)) rw
            | None \<Rightarrow> pret () rw) = Returns (r, rw')"
  shows "keeps_content winv stored H rw rw'
    \<and> (r = Ready (Inr u) \<longrightarrow> wp_submit (rw_pipeline rw') = None
         \<and> (case wp_buffer (rw_pipeline rw') of Some b \<Rightarrow> wb_contains b pos | None \<Rightarrow> True))"
proof (cases "case wp_buffer (rw_pipeline rw) of Some b \<Rightarrow> wb_contains b pos | None \<Rightarrow> True")
  case True
  with run have "r = Ready (Inr ()) \<and> rw' = rw" by (auto simp: pret_def split: option.splits)
  with True free keeps_refl [OF inv] show ?thesis by simp
next
  case False
  with run have "pbind (poll_flush_pipeline H B)
      (\<lambda>_ rw. pret () (rw\<lparr>rw_fetch := invalidate (rw_fetch rw)\<rparr>)) rw = Returns (r, rw')"
    by (auto split: option.splits)
  then show ?thesis
  proof (cases rule: pbind_cases)
    case (3 v rw1)
    from flush_pipeline_keeps [OF cf inv 3(1)] keeps_invalidate [of winv stored H rw rw1] 3(2)
    show ?thesis by (auto simp: pret_def)
  qed (use flush_pipeline_keeps [OF cf inv] in blast)+
qed

lemma have_buffer_keeps:
  assumes inv: "writer_inv winv stored H rw" and free: "wp_submit (rw_pipeline rw) = None"
    and held: "case wp_buffer (rw_pipeline rw) of Some b \<Rightarrow> wb_contains b pos | None \<Rightarrow> True"
    and room: "unat pos + 2 * unat (rw_max_chunk_size rw) < 2 ^ 64"
    and run: "(if wp_buffer (rw_pipeline rw) = None then make_buffer B pos rw else pret () rw) = Returns (r, rw')"
  shows "keeps_content winv stored H rw rw'
    \<and> (r = Ready (Inr u) \<longrightarrow> (\<exists>b. wp_buffer (rw_pipeline rw') = Some b
         \<and> unat (wb_start_pos b) \<le> unat pos
         \<and> unat pos < unat (wb_start_pos b) + unat (rw_max_chunk_size rw)))"
proof (cases "wp_buffer (rw_pipeline rw)")
  case None
  from inv have c: "0 < unat (rw_max_chunk_size rw)" by (auto simp: writer_inv_def Let_def)
  have "unat (pos - pos mod rw_max_chunk_size rw) \<le> unat pos
      \<and> unat pos < unat (pos - pos mod rw_max_chunk_size rw) + unat (rw_max_chunk_size rw)"
    using window_of [OF c, of pos] room by simp
  with make_buffer_keeps [OF inv free None room] run None show ?thesis by fastforce
next
  case (Some b)
  with inv have "buffer_ok (stored (rw_world rw)) (unat (rw_max_chunk_size rw)) (bm_chunk_map (rw_blob rw)) b"
    by (auto simp: writer_inv_def Let_def)
  then have "window_start (unat (rw_max_chunk_size rw)) (wb_start_pos b)" "wb_capacity b = unat (rw_max_chunk_size rw)"
    by (auto simp: buffer_ok_def)
  then have "unat (capacity_end b) = unat (wb_start_pos b) + unat (rw_max_chunk_size rw)"
    unfolding capacity_end_def by (simp only:) (rule unat_add_nat, simp add: window_start_def)
  with Some held run keeps_refl [OF inv] show ?thesis
    by (auto simp: pret_def wb_contains_def word_le_nat_alt word_less_nat_alt)
qed

lemma poll_write_correct:
  assumes cf: "inj (chunk_hash H)" and inv: "writer_inv winv stored H rw" and data: "data \<noteq> []"
    and room: "unat pos + 2 * unat (rw_max_chunk_size rw) < 2 ^ 64"
    and run: "poll_write_impl H B pos data rw = Returns (r, rw')"
  shows "case r of Ready (Inr n) \<Rightarrow> write_post winv stored H rw pos data n rw'
    | _ \<Rightarrow> keeps_content winv stored H rw rw'"
  using run [unfolded poll_write_impl_def]
proof (cases rule: pbind_cases)
  case (3 u rw0)
  then have rw0: "rw0 = rw" by (auto simp: check_closed_def pret_def pfail_def split: if_splits)
  from 3(2) show ?thesis unfolding rw0
  proof (cases rule: pbind_cases)
    case 1
    with ensure_submit_keeps [OF cf inv 1(1)] show ?thesis by simp
  next
    case 2
    with ensure_submit_keeps [OF cf inv 2(1)] show ?thesis by simp
  next
    case (3 u1 rw1)
    note K1 = ensure_submit_keeps [OF cf inv 3(1)]
    then have inv1: "writer_inv winv stored H rw1" and sub1: "wp_submit (rw_pipeline rw1) = None"
      and C1: "rw_max_chunk_size rw1 = rw_max_chunk_size rw" by (auto simp: keeps_content_def)
    from 3(2) show ?thesis
    proof (cases rule: pbind_cases)
      case 1
      with make_room_keeps [OF cf inv1 sub1 1(1)] K1 show ?thesis by (auto intro: keeps_trans)
    next
      case 2
      with make_room_keeps [OF cf inv1 sub1 2(1)] K1 show ?thesis by (auto intro: keeps_trans)
    next
      case (3 u2 rw2)
      note K2 = make_room_keeps [OF cf inv1 sub1 3(1)]
      then have inv2: "writer_inv winv stored H rw2" and sub2: "wp_submit (rw_pipeline rw2) = None"
        and held: "case wp_buffer (rw_pipeline rw2) of Some b \<Rightarrow> wb_contains b pos | None \<Rightarrow> True"
        and C2: "rw_max_chunk_size rw2 = rw_max_chunk_size rw" and K02: "keeps_content winv stored H rw rw2"
        using K1 C1 by (auto simp: keeps_content_def)
      note K3 = have_buffer_keeps [OF inv2 sub2 held room [folded C2]]
      from 3(2) show ?thesis
      proof (cases rule: pbind_cases)
        case 1
        with K3 [OF 1(1)] K02 show ?thesis by (auto intro: keeps_trans)
      next
        case 2
        with K3 [OF 2(1)] K02 show ?thesis by (auto intro: keeps_trans)
      next
        case (3 u3 rw3)
        from K3 [OF 3(1)] obtain b where k: "keeps_content winv stored H rw2 rw3"
          and b: "wp_buffer (rw_pipeline rw3) = Some b" "unat (wb_start_pos b) \<le> unat pos"
            "unat pos < unat (wb_start_pos b) + unat (rw_max_chunk_size rw3)"
          by (auto simp: keeps_content_def)
        from k have inv3: "writer_inv winv stored H rw3" by (simp add: keeps_content_def)
        from 3(2) b(1) obtain n b' where w: "write_at b pos data = Returns (n, b')"
            "r = Ready (Inr n)" "rw' = set_buffer b' rw3"
          by (auto simp: pret_def split: outcome.splits)
        from write_into_buffer [OF inv3 b data w(1)] keeps_trans [OF K02 k] w(2,3)
        show ?thesis by (simp add: write_post_trans)
      qed
    qed
  qed
qed (use inv in \<open>auto simp: check_closed_def pret_def pfail_def keeps_refl split: if_splits\<close>)

end

end
