(* ===== verification/Commit.thy ===== *)
theory Commit
  imports Blob
begin

text \<open>
  Commits (\<open>janus-vfs/src/vfs/commit.rs\<close>): a link of the history, naming the root entity
  of a tree and the commit before it, identified by the hash of a transcript of all its
  fields. A timestamp is its milliseconds, an \<open>i64\<close> held as 64 bits. The flatbuffers crate
  with the code generated for the schema is the parameter \<open>commit_format\<close>; the instants the
  crate \<open>chrono\<close> can represent are the parameter \<open>millis_ok\<close>.
\<close>

section \<open>Data\<close>

type_synonym timestamp = "64 word"
type_synonym entity_key = "entity_id \<times> content_id"
type_synonym commit_id = content_id

definition timestamp_from_millis :: "(timestamp \<Rightarrow> bool) \<Rightarrow> timestamp \<Rightarrow> timestamp option" where
  "timestamp_from_millis millis_ok millis = (if millis_ok millis then Some millis else None)"

record commit_mut =
  cm_entity_key :: entity_key
  cm_preceding_commit_id :: commit_id
  cm_commit_count :: u64
  cm_created :: timestamp

record commit =
  co_id :: commit_id
  co_entity_key :: entity_key
  co_preceding_commit_id :: commit_id
  co_commit_count :: u64
  co_created :: timestamp
  co_mode :: storage_mode

record flat_commit =
  fc_entity_id :: entity_id
  fc_entity_rev :: content_id
  fc_created :: timestamp
  fc_count :: u64
  fc_prev_id :: commit_id

record commit_format =
  enc_commit :: "flat_commit \<Rightarrow> bytes"
  dec_commit :: "bytes \<Rightarrow> flat_commit option"

datatype commit_error =
    CommitFlatbufferError
  | CommitTimestampError
  | CommitIdMismatch commit_id commit_id
  | InvalidCommitId

section \<open>Operations\<close>

definition commit_transcript :: "entity_key \<Rightarrow> commit_id \<Rightarrow> u64 \<Rightarrow> timestamp \<Rightarrow> bytes" where
  "commit_transcript entity_key preceding_commit_id commit_count created =
     ascii ''begin:'' @
     nl @ ascii ''entity_id:'' @ fst entity_key @
     nl @ ascii ''entity_rev:'' @ snd entity_key @
     nl @ ascii ''preceding_commit_id:'' @ preceding_commit_id @
     nl @ ascii ''commit_count:'' @ nl @ be8 commit_count @
     nl @ ascii ''created:'' @ nl @ be8 created @
     nl @ ascii ''end''"

definition commit_hash :: "hasher \<Rightarrow> entity_key \<Rightarrow> commit_id \<Rightarrow> u64 \<Rightarrow> timestamp \<Rightarrow> commit_id" where
  "commit_hash H entity_key preceding_commit_id commit_count created =
     H ''[janus-vfs]/[v1]/[commit]''
       (commit_transcript entity_key preceding_commit_id commit_count created)"

definition commit_flatbuffer ::
  "commit_format \<Rightarrow> entity_key \<Rightarrow> commit_id \<Rightarrow> u64 \<Rightarrow> timestamp \<Rightarrow> bytes" where
  "commit_flatbuffer F entity_key preceding_commit_id commit_count created =
     enc_commit F \<lparr>fc_entity_id = fst entity_key, fc_entity_rev = snd entity_key,
       fc_created = created, fc_count = commit_count, fc_prev_id = preceding_commit_id\<rparr>"

definition commit_finalize :: "hasher \<Rightarrow> commit_mut \<Rightarrow> storage_mode \<Rightarrow> commit" where
  "commit_finalize H c mode =
     \<lparr>co_id = commit_hash H (cm_entity_key c) (cm_preceding_commit_id c) (cm_commit_count c) (cm_created c),
      co_entity_key = cm_entity_key c, co_preceding_commit_id = cm_preceding_commit_id c,
      co_commit_count = cm_commit_count c, co_created = cm_created c, co_mode = mode\<rparr>"

definition commit_freeze :: "hasher \<Rightarrow> commit_format \<Rightarrow> commit_mut \<Rightarrow> commit" where
  "commit_freeze H F c =
     (let serialized = commit_flatbuffer F (cm_entity_key c) (cm_preceding_commit_id c)
                         (cm_commit_count c) (cm_created c)
      in commit_finalize H c (Local serialized))"

definition commit_into_mut :: "commit \<Rightarrow> commit_mut" where
  "commit_into_mut c = \<lparr>cm_entity_key = co_entity_key c,
     cm_preceding_commit_id = co_preceding_commit_id c, cm_commit_count = co_commit_count c,
     cm_created = co_created c\<rparr>"

definition commit_is_synced :: "commit \<Rightarrow> bool" where
  "commit_is_synced c = (case co_mode c of Synced _ \<Rightarrow> True | Local _ \<Rightarrow> False)"

definition commit_to_flatbuffer :: "commit_format \<Rightarrow> commit \<Rightarrow> bytes" where
  "commit_to_flatbuffer F c = commit_flatbuffer F (co_entity_key c) (co_preceding_commit_id c)
     (co_commit_count c) (co_created c)"

definition commit_try_from_flatbuffer ::
  "hasher \<Rightarrow> commit_format \<Rightarrow> (timestamp \<Rightarrow> bool) \<Rightarrow> bytes \<Rightarrow> storage_mode \<Rightarrow> commit_error + commit" where
  "commit_try_from_flatbuffer H F millis_ok buffer mode =
     (case dec_commit F buffer of
        None \<Rightarrow> Inl CommitFlatbufferError
      | Some flat \<Rightarrow>
          (case timestamp_from_millis millis_ok (fc_created flat) of
             None \<Rightarrow> Inl CommitTimestampError
           | Some created \<Rightarrow>
               Inr (commit_finalize H
                 \<lparr>cm_entity_key = (fc_entity_id flat, fc_entity_rev flat),
                  cm_preceding_commit_id = fc_prev_id flat, cm_commit_count = fc_count flat,
                  cm_created = created\<rparr> mode)))"

definition commit_into_synced :: "hasher \<Rightarrow> object_id \<Rightarrow> commit \<Rightarrow> commit" where
  "commit_into_synced H oid c = commit_finalize H (commit_into_mut c) (Synced oid)"

definition COMMIT_OBJECT_TYPE :: bytes where
  "COMMIT_OBJECT_TYPE = ascii ''COMMIT''"

definition METADATA_COMMIT_ID :: bytes where
  "METADATA_COMMIT_ID = ascii ''COMMIT-ID''"

definition commit_load_from_backend ::
  "hasher \<Rightarrow> metadata_format \<Rightarrow> commit_format \<Rightarrow> (timestamp \<Rightarrow> bool) \<Rightarrow> object_id \<Rightarrow> remote_oid
   \<Rightarrow> remote_storage \<Rightarrow> io_error + commit" where
  "commit_load_from_backend H F C millis_ok object_id oid remote =
     (case remote oid of
        Inl e \<Rightarrow> Inl e
      | Inr dl \<Rightarrow>
          (case md_try_from_io F (dl_metadata dl) of
             Inl e \<Rightarrow> Inl (IoError KOther ''invalid metadata'')
           | Inr md \<Rightarrow>
               if md_get F md METADATA_VFS_OBJECT_TYPE \<noteq> Some COMMIT_OBJECT_TYPE
               then Inl (IoError KOther ''METADATA_OBJECT_TYPE mismatch'')
               else (case dl_content dl of
                       Inl e \<Rightarrow> Inl e
                     | Inr buffer \<Rightarrow>
                         (case commit_try_from_flatbuffer H C millis_ok buffer (Synced object_id) of
                            Inl e \<Rightarrow> Inl (IoError KOther ''invalid commit'')
                          | Inr this \<Rightarrow>
                              if md_get F md METADATA_COMMIT_ID \<noteq> Some (content_id_display (co_id this))
                              then Inl (IoError KOther ''METADATA_COMMIT_ID mismatch'')
                              else Inr this))))"

definition commit_to_uploadable_object :: "commit_format \<Rightarrow> bytes \<Rightarrow> commit \<Rightarrow> uploadable" where
  "commit_to_uploadable_object C vfs_id_text c =
     (let md = AList.update METADATA_COMMIT_ID (content_id_display (co_id c))
                 (with_vfs_template vfs_id_text COMMIT_OBJECT_TYPE)
      in \<lparr>up_path = ascii ''/commits/'' @ content_id_display (co_id c) @ ascii ''.commit'',
          up_content = commit_to_flatbuffer C c, up_metadata = md_freeze md\<rparr>)"

text \<open>
  Every commit of the program comes from \<open>finalize\<close>; the ids it is made of have the widths
  their types fix.
\<close>

definition key_ok :: "entity_key \<Rightarrow> bool" where
  "key_ok k = (length (fst k) = 16 \<and> length (snd k) = 32)"

definition commit_ok :: "hasher \<Rightarrow> commit \<Rightarrow> bool" where
  "commit_ok H c = (co_id c = commit_hash H (co_entity_key c) (co_preceding_commit_id c)
     (co_commit_count c) (co_created c))"

section \<open>Facts\<close>

lemma commit_ok_finalize [wf_intros]: "commit_ok H (commit_finalize H c mode)"
  by (simp add: commit_ok_def commit_finalize_def)

lemma commit_transcript_inject:
  assumes "commit_transcript k p n t = commit_transcript k' p' n' t'"
    and "key_ok k" and "key_ok k'" and "length p = 32" and "length p' = 32"
  shows "k = k' \<and> p = p' \<and> n = n' \<and> t = t'"
  using assms by (cases k; cases k') (simp add: commit_transcript_def key_ok_def append_inject_prefix)

text \<open>
  C21: the history is tamper-evident. Two commits with one id agree on everything the id
  is computed from (the root entity and its revision, the previous commit, the count and the
  time), or the hash function has a collision; so following \<open>preceding_commit_id\<close> from a
  commit id determines the whole history.
\<close>

theorem commit_id_collision_free:
  assumes "commit_ok H a" and "commit_ok H b" and "co_id a = co_id b"
    and "key_ok (co_entity_key a)" and "key_ok (co_entity_key b)"
    and "length (co_preceding_commit_id a) = 32" and "length (co_preceding_commit_id b) = 32"
  shows "commit_into_mut a = commit_into_mut b \<or> (\<exists>k x y. x \<noteq> y \<and> H k x = H k y)"
  using assms commit_transcript_inject
    [of "co_entity_key a" "co_preceding_commit_id a" "co_commit_count a" "co_created a"
        "co_entity_key b" "co_preceding_commit_id b" "co_commit_count b" "co_created b"]
  by (auto simp: commit_ok_def commit_hash_def commit_into_mut_def)

definition demo_commit_mut :: "u64 \<Rightarrow> commit_mut" where
  "demo_commit_mut n = \<lparr>cm_entity_key = (replicate 16 5, replicate 32 6),
     cm_preceding_commit_id = zeroed_id, cm_commit_count = n, cm_created = 1000\<rparr>"

definition demo_commit_format :: commit_format where
  "demo_commit_format = \<lparr>enc_commit = (\<lambda>fc. be8 (fc_count fc)),
     dec_commit = (\<lambda>bs. if bs = be8 3 then Some \<lparr>fc_entity_id = replicate 16 5,
       fc_entity_rev = replicate 32 6, fc_created = 1000, fc_count = 3, fc_prev_id = zeroed_id\<rparr> else None)\<rparr>"

theorem commit_id_collision_free_witness:
  "\<exists>k x y. x \<noteq> y \<and> (\<lambda>_ bs. take 20 bs) (k :: string) x = (\<lambda>_ bs. take 20 bs) k (y :: bytes)"
proof -
  let ?H = "\<lambda>(_ :: string) (bs :: bytes). take 20 bs"
  let ?c = "\<lambda>n. commit_freeze ?H demo_commit_format (demo_commit_mut n)"
  have "co_id (?c 3) = co_id (?c 4)" by code_simp
  moreover have "commit_into_mut (?c 3) \<noteq> commit_into_mut (?c 4)"
    by (simp add: commit_into_mut_def commit_freeze_def commit_finalize_def demo_commit_mut_def)
  moreover have "commit_ok ?H (?c n) \<and> key_ok (co_entity_key (?c n)) \<and> length (co_preceding_commit_id (?c n)) = 32" for n
    by (simp add: commit_freeze_def wf_intros)
      (simp add: commit_finalize_def demo_commit_mut_def key_ok_def zeroed_id_def)
  ultimately show ?thesis
    using commit_id_collision_free [of ?H "?c 3" "?c 4"] by blast
qed



end
