(* ===== verification/Entity.thy ===== *)
theory Entity
  imports Commit "HOL-Library.Product_Lexorder" "HOL-Library.Multiset"
begin

text \<open>
  Entities (\<open>janus-vfs/src/vfs/entity.rs\<close>, with the handlers of \<open>vfs/directory.rs\<close> and
  \<open>vfs/file.rs\<close>): the immutable revisions of files and directories. The type parameter
  \<open>T: EntityHandler\<close> is the value \<open>entity_type\<close>, and the methods of the two handlers are
  the branches on it. The flatbuffers crate with the schema's generated code is the parameter
  \<open>entity_format\<close>, the text of a UUID the parameter \<open>uuid_text\<close>.
\<close>

section \<open>Data\<close>

datatype entity_type = File | Dir

datatype entity_body =
    FileBody (fb_file_len: u64) (fb_blob_id: content_id)
  | DirectoryBody (db_entries: "entity_key list")

datatype flat_body = FlatFile u64 content_id | FlatDirectory "entity_key list option"

record flat_entity =
  fl_id :: entity_id
  fl_name :: str
  fl_created :: timestamp
  fl_last_modified :: timestamp
  fl_body :: flat_body

record entity_format =
  enc_entity :: "flat_entity \<Rightarrow> bytes"
  dec_entity :: "bytes \<Rightarrow> flat_entity option"

record raw_entity =
  re_id :: entity_id
  re_name :: str
  re_revision :: content_id
  re_created :: timestamp
  re_last_modified :: timestamp
  re_body :: entity_body
  re_cart :: bytes

datatype entity_mode = SyncedMode object_id | LocalMode | DraftMode

record entity =
  ent_inner :: raw_entity
  ent_mode :: entity_mode

record entity_mut =
  em_id :: entity_id
  em_name :: str
  em_created :: timestamp
  em_last_modified :: timestamp
  em_body :: entity_body

datatype entity_error =
    EntityInvalidFlatbuffer
  | EntityIdMismatch entity_id entity_id
  | EntityRevisionMismatch content_id content_id
  | EntityNameError name_error
  | EntityTimestampError
  | ExpectedDirectory
  | ExpectedFile
  | ExpectedLocalMode
  | EntityInvalidId
  | EntityInvalidRevision

datatype entity_ref = RefBlob content_id | RefEntity entity_key

section \<open>The handlers\<close>

fun handler_db_type :: "entity_type \<Rightarrow> string" where
  "handler_db_type Dir = ''D''"
| "handler_db_type File = ''F''"

fun handler_metadata_type :: "entity_type \<Rightarrow> bytes" where
  "handler_metadata_type Dir = ascii ''DIRECTORY''"
| "handler_metadata_type File = ascii ''FILE''"

fun handler_extract :: "entity_type \<Rightarrow> flat_entity \<Rightarrow> entity_error + entity_body" where
  "handler_extract Dir e = (case fl_body e of
     FlatDirectory entries \<Rightarrow> Inr (DirectoryBody (case entries of Some v \<Rightarrow> v | None \<Rightarrow> []))
   | FlatFile _ _ \<Rightarrow> Inl ExpectedDirectory)"
| "handler_extract File e = (case fl_body e of
     FlatFile len blob_id \<Rightarrow> Inr (FileBody len blob_id)
   | FlatDirectory _ \<Rightarrow> Inl ExpectedFile)"

fun serialize_body :: "entity_body \<Rightarrow> flat_body" where
  "serialize_body (DirectoryBody entries) = FlatDirectory (Some entries)"
| "serialize_body (FileBody len blob_id) = FlatFile len blob_id"

fun normalize :: "entity_body \<Rightarrow> entity_body" where
  "normalize (DirectoryBody entries) = DirectoryBody (sort entries)"
| "normalize (FileBody len blob_id) = FileBody len blob_id"

text \<open>What \<open>hash_metadata\<close> feeds the hasher.\<close>

definition metadata_transcript :: "entity_id \<Rightarrow> str \<Rightarrow> timestamp \<Rightarrow> timestamp \<Rightarrow> bytes" where
  "metadata_transcript i name created last_modified =
     ascii ''begin_metadata:'' @ nl @ ascii ''id:'' @ i @
     nl @ ascii ''name:'' @ utf8 name @
     nl @ ascii ''created:'' @ be8 created @
     nl @ ascii ''last_modified:'' @ be8 last_modified @
     nl @ ascii ''end_metadata''"

definition entry_transcript :: "entity_key \<Rightarrow> bytes" where
  "entry_transcript k = ascii ''entity_id:'' @ fst k @
     nl @ ascii ''entity_revision:'' @ snd k @ nl"

definition entries_transcript :: "entity_key list \<Rightarrow> bytes" where
  "entries_transcript entries =
     ascii ''begin_entries:'' @ nl @ ascii ''no_entries:'' @ be8 (of_nat (length entries)) @
     nl @ ascii ''entries:'' @ concat (map entry_transcript entries) @
     nl @ ascii ''end_entries''"

fun handler_hash :: "hasher \<Rightarrow> entity_id \<Rightarrow> str \<Rightarrow> timestamp \<Rightarrow> timestamp \<Rightarrow> entity_body \<Rightarrow> content_id" where
  "handler_hash H i name created last_modified (DirectoryBody entries) =
     H ''[janus-vfs]/[v1]/[directory_entity]''
       (ascii ''begin:'' @ nl @ metadata_transcript i name created last_modified @
        entries_transcript entries @ nl @ ascii ''end'')"
| "handler_hash H i name created last_modified (FileBody len blob_id) =
     H ''[janus-vfs]/[v1]/[file_entity]''
       (ascii ''begin:'' @ nl @ metadata_transcript i name created last_modified @
        nl @ ascii ''begin_blob:'' @ nl @ ascii ''id:'' @ nl @ blob_id @
        nl @ ascii ''length:'' @ nl @ be8 len @ nl @ ascii ''end_blob'' @ nl @ ascii ''end'')"

fun handler_references :: "entity_body \<Rightarrow> entity_ref list" where
  "handler_references (DirectoryBody entries) = map RefEntity entries"
| "handler_references (FileBody len blob_id) = [RefBlob blob_id]"

section \<open>Operations\<close>

definition raw_try_from_flatbuffer ::
  "hasher \<Rightarrow> entity_format \<Rightarrow> (timestamp \<Rightarrow> bool) \<Rightarrow> entity_type \<Rightarrow> bytes \<Rightarrow> entity_error + raw_entity" where
  "raw_try_from_flatbuffer H F millis_ok T buffer =
     (case dec_entity F buffer of
        None \<Rightarrow> Inl EntityInvalidFlatbuffer
      | Some flat \<Rightarrow>
          (case check_valid_filename (fl_name flat) of
             Inl e \<Rightarrow> Inl (EntityNameError e)
           | Inr _ \<Rightarrow>
               (case timestamp_from_millis millis_ok (fl_created flat) of
                  None \<Rightarrow> Inl EntityTimestampError
                | Some created \<Rightarrow>
                    (case timestamp_from_millis millis_ok (fl_last_modified flat) of
                       None \<Rightarrow> Inl EntityTimestampError
                     | Some last_modified \<Rightarrow>
                         (case handler_extract T flat of
                            Inl e \<Rightarrow> Inl e
                          | Inr body \<Rightarrow>
                              Inr \<lparr>re_id = fl_id flat, re_name = fl_name flat,
                                re_revision = handler_hash H (fl_id flat) (fl_name flat) created last_modified body,
                                re_created = created, re_last_modified = last_modified,
                                re_body = body, re_cart = buffer\<rparr>)))))"

definition synced_try_from_flatbuffer ::
  "hasher \<Rightarrow> entity_format \<Rightarrow> (timestamp \<Rightarrow> bool) \<Rightarrow> entity_type \<Rightarrow> bytes \<Rightarrow> object_id \<Rightarrow> entity_error + entity" where
  "synced_try_from_flatbuffer H F millis_ok T buffer object_id =
     (case raw_try_from_flatbuffer H F millis_ok T buffer of
        Inl e \<Rightarrow> Inl e | Inr inner \<Rightarrow> Inr \<lparr>ent_inner = inner, ent_mode = SyncedMode object_id\<rparr>)"

definition ENTITY_OBJECT_TYPE :: bytes where
  "ENTITY_OBJECT_TYPE = ascii ''ENTITY''"

definition METADATA_ENTITY_ID :: bytes where
  "METADATA_ENTITY_ID = ascii ''ENTITY-ID''"

definition METADATA_ENTITY_REVISION :: bytes where
  "METADATA_ENTITY_REVISION = ascii ''ENTITY-REVISION''"

definition METADATA_ENTITY_TYPE :: bytes where
  "METADATA_ENTITY_TYPE = ascii ''ENTITY-TYPE''"

definition entity_load_from_backend ::
  "hasher \<Rightarrow> metadata_format \<Rightarrow> entity_format \<Rightarrow> (timestamp \<Rightarrow> bool) \<Rightarrow> (bytes \<Rightarrow> bytes) \<Rightarrow> entity_type
   \<Rightarrow> object_id \<Rightarrow> remote_oid \<Rightarrow> remote_storage \<Rightarrow> io_error + entity" where
  "entity_load_from_backend H F E millis_ok uuid_text T object_id oid remote =
     (case remote oid of
        Inl e \<Rightarrow> Inl e
      | Inr dl \<Rightarrow>
          (case md_try_from_io F (dl_metadata dl) of
             Inl e \<Rightarrow> Inl (IoError KOther ''invalid metadata'')
           | Inr md \<Rightarrow>
               if md_get F md METADATA_VFS_OBJECT_TYPE \<noteq> Some ENTITY_OBJECT_TYPE
               then Inl (IoError KOther ''METADATA_OBJECT_TYPE mismatch'')
               else if md_get F md METADATA_ENTITY_TYPE \<noteq> Some (handler_metadata_type T)
               then Inl (IoError KOther ''METADATA_ENTITY_TYPE mismatch'')
               else (case dl_content dl of
                       Inl e \<Rightarrow> Inl e
                     | Inr buffer \<Rightarrow>
                         (case synced_try_from_flatbuffer H E millis_ok T buffer object_id of
                            Inl e \<Rightarrow> Inl (IoError KOther ''invalid entity'')
                          | Inr this \<Rightarrow>
                              if md_get F md METADATA_ENTITY_ID \<noteq> Some (uuid_text (re_id (ent_inner this)))
                              then Inl (IoError KOther ''METADATA_ENTITY_ID mismatch'')
                              else if md_get F md METADATA_ENTITY_REVISION
                                      \<noteq> Some (content_id_display (re_revision (ent_inner this)))
                              then Inl (IoError KOther ''METADATA_ENTITY_REVISION mismatch'')
                              else Inr this))))"

definition entity_into_synced :: "entity \<Rightarrow> object_id \<Rightarrow> entity" where
  "entity_into_synced e object_id = \<lparr>ent_inner = ent_inner e, ent_mode = SyncedMode object_id\<rparr>"

definition entity_to_uploadable_object :: "(bytes \<Rightarrow> bytes) \<Rightarrow> entity_type \<Rightarrow> bytes \<Rightarrow> entity \<Rightarrow> uploadable" where
  "entity_to_uploadable_object uuid_text T vfs_id_text e =
     (let r = ent_inner e;
          md = AList.update METADATA_ENTITY_TYPE (handler_metadata_type T)
                 (AList.update METADATA_ENTITY_REVISION (content_id_display (re_revision r))
                   (AList.update METADATA_ENTITY_ID (uuid_text (re_id r))
                     (with_vfs_template vfs_id_text ENTITY_OBJECT_TYPE)))
      in \<lparr>up_path = ascii ''/entities/'' @ uuid_text (re_id r) @ ascii ''/'' @ content_id_display (re_revision r),
          up_content = re_cart r, up_metadata = md_freeze md\<rparr>)"

definition entity_into_mut :: "entity \<Rightarrow> entity_mut" where
  "entity_into_mut e = (let r = ent_inner e in \<lparr>em_id = re_id r, em_name = re_name r,
     em_created = re_created r, em_last_modified = re_last_modified r, em_body = re_body r\<rparr>)"

definition entity_mut_new :: "entity_id \<Rightarrow> timestamp \<Rightarrow> str \<Rightarrow> entity_body \<Rightarrow> entity_mut" where
  "entity_mut_new generated now name body = \<lparr>em_id = generated, em_name = name,
     em_created = now, em_last_modified = now, em_body = body\<rparr>"

definition entity_mut_to_flatbuffer :: "entity_format \<Rightarrow> entity_mut \<Rightarrow> bytes" where
  "entity_mut_to_flatbuffer F e = enc_entity F \<lparr>fl_id = em_id e, fl_name = em_name e,
     fl_created = em_created e, fl_last_modified = em_last_modified e,
     fl_body = serialize_body (em_body e)\<rparr>"

definition entity_freeze ::
  "hasher \<Rightarrow> entity_format \<Rightarrow> (timestamp \<Rightarrow> bool) \<Rightarrow> entity_type \<Rightarrow> entity_mut \<Rightarrow> entity outcome" where
  "entity_freeze H F millis_ok T e =
     (let e1 = e\<lparr>em_body := normalize (em_body e)\<rparr>
      in case raw_try_from_flatbuffer H F millis_ok T (entity_mut_to_flatbuffer F e1) of
           Inl _ \<Rightarrow> Panics
         | Inr inner \<Rightarrow> Returns \<lparr>ent_inner = inner, ent_mode = DraftMode\<rparr>)"

definition entity_key_of :: "entity \<Rightarrow> entity_key" where
  "entity_key_of e = (re_id (ent_inner e), re_revision (ent_inner e))"

definition entity_references :: "entity \<Rightarrow> entity_ref list" where
  "entity_references e = handler_references (re_body (ent_inner e))"

text \<open>\<open>DirectoryDraft::new_directory_draft\<close>, \<open>FileDraft::new_file_draft\<close> and \<open>FileBody::from(Blob)\<close>.\<close>

definition file_body_of_blob :: "blob \<Rightarrow> entity_body" where
  "file_body_of_blob b = FileBody (blob_len b) (bl_id b)"

definition new_directory_draft ::
  "hasher \<Rightarrow> entity_format \<Rightarrow> (timestamp \<Rightarrow> bool) \<Rightarrow> entity_id \<Rightarrow> timestamp \<Rightarrow> str \<Rightarrow> entity_key list \<Rightarrow> entity outcome" where
  "new_directory_draft H F millis_ok generated now name entries =
     entity_freeze H F millis_ok Dir (entity_mut_new generated now name (DirectoryBody entries))"

definition new_file_draft ::
  "hasher \<Rightarrow> entity_format \<Rightarrow> (timestamp \<Rightarrow> bool) \<Rightarrow> entity_id \<Rightarrow> timestamp \<Rightarrow> str \<Rightarrow> blob \<Rightarrow> entity outcome" where
  "new_file_draft H F millis_ok generated now name b =
     entity_freeze H F millis_ok File (entity_mut_new generated now name (file_body_of_blob b))"

section \<open>Well-formed entities\<close>

definition body_typed :: "entity_type \<Rightarrow> entity_body \<Rightarrow> bool" where
  "body_typed T body = (case body of FileBody _ _ \<Rightarrow> T = File | DirectoryBody _ \<Rightarrow> T = Dir)"

definition body_ids_ok :: "entity_body \<Rightarrow> bool" where
  "body_ids_ok body = (case body of FileBody _ b \<Rightarrow> length b = 32
     | DirectoryBody es \<Rightarrow> (\<forall>k \<in> set es. key_ok k) \<and> length es < 2 ^ 64)"

definition raw_hash :: "hasher \<Rightarrow> raw_entity \<Rightarrow> content_id" where
  "raw_hash H r = handler_hash H (re_id r) (re_name r) (re_created r) (re_last_modified r) (re_body r)"

text \<open>What every raw entity satisfies: its revision is its hash, its name was checked.\<close>

definition raw_ok :: "hasher \<Rightarrow> raw_entity \<Rightarrow> bool" where
  "raw_ok H r = (re_revision r = raw_hash H r \<and> valid_name (re_name r))"

definition widths_ok :: "raw_entity \<Rightarrow> bool" where
  "widths_ok r = (length (re_id r) = 16 \<and> str_ok (re_name r) \<and> body_ids_ok (re_body r))"

lemma raw_try_ok:
  assumes "raw_try_from_flatbuffer H F ok T buf = Inr r"
  shows "raw_ok H r" and "body_typed T (re_body r)" and "re_cart r = buf"
proof -
  have ext: "body_typed T b" if "handler_extract T fl = Inr b" for fl b
    using that by (cases T) (auto simp: body_typed_def split: flat_body.splits)
  show "raw_ok H r" "body_typed T (re_body r)" "re_cart r = buf"
    using assms ext by (auto simp: raw_try_from_flatbuffer_def raw_ok_def raw_hash_def valid_name_def
        split: option.splits sum.splits)
qed

lemma metadata_transcript_inject:
  assumes "metadata_transcript i n c l @ xs = metadata_transcript i' n' c' l' @ ys"
    and "length i = 16" and "length i' = 16" and "str_ok n" and "str_ok n'" and "valid_name n" and "valid_name n'"
  shows "i = i' \<and> n = n' \<and> c = c' \<and> l = l' \<and> xs = ys"
proof -
  have nl: "(10 :: u8) \<notin> set (utf8 m)" if "valid_name m" "str_ok m" for m
    using valid_nameD(6) [OF that(1), of 10] utf8_newline [OF that(2)] by (auto simp: is_control_def)
  from assms(1-3) have "i = i'" and
    eq: "utf8 n @ 10 # (ascii ''created:'' @ be8 c @ nl @ ascii ''last_modified:'' @ be8 l @ nl @ ascii ''end_metadata'' @ xs)
      = utf8 n' @ 10 # (ascii ''created:'' @ be8 c' @ nl @ ascii ''last_modified:'' @ be8 l' @ nl @ ascii ''end_metadata'' @ ys)"
    by (simp_all add: metadata_transcript_def append_inject_prefix nl_def)
  from separator_inject [OF nl [OF assms(6,4)] nl [OF assms(7,5)] eq]
  have n: "utf8 n = utf8 n'" and "be8 c @ nl @ ascii ''last_modified:'' @ be8 l @ nl @ ascii ''end_metadata'' @ xs
      = be8 c' @ nl @ ascii ''last_modified:'' @ be8 l' @ nl @ ascii ''end_metadata'' @ ys"
    by (simp_all add: append_inject_prefix)
  then have "c = c'" "l = l'" "xs = ys" by (simp_all add: append_inject_prefix)
  with \<open>i = i'\<close> utf8_inject [OF assms(4,5) n] show ?thesis by simp
qed

lemma entry_transcript_inject:
  "entry_transcript k = entry_transcript k' \<Longrightarrow> key_ok k \<Longrightarrow> key_ok k' \<Longrightarrow> k = k'"
  by (cases k; cases k') (simp add: entry_transcript_def key_ok_def append_inject_prefix)

lemma length_entry_transcript: "key_ok k \<Longrightarrow> length (entry_transcript k) = 76"
  by (simp add: entry_transcript_def key_ok_def)

lemma entries_transcript_inject:
  assumes "entries_transcript es @ xs = entries_transcript es' @ xs"
    and "\<forall>k \<in> set es. key_ok k" and "\<forall>k \<in> set es'. key_ok k"
  shows "es = es'"
proof -
  have cat: "concat (map entry_transcript es) = concat (map entry_transcript es')"
    using assms(1) by (simp add: entries_transcript_def append_inject_prefix)
  have "map entry_transcript es = map entry_transcript es'"
    by (rule concat_fixed_inject [where k = 76, OF _ _ _ cat]) (use assms in \<open>auto intro: length_entry_transcript\<close>)
  moreover have "inj_on entry_transcript {k. key_ok k}" by (intro inj_onI entry_transcript_inject) simp_all
  then have "inj_on entry_transcript (set es \<union> set es')" by (rule inj_on_subset) (use assms in auto)
  ultimately show ?thesis by (rule map_inj_on)
qed

lemma handler_hash_inject:
  assumes "handler_hash H i n c l b = handler_hash H i' n' c' l' b'"
    and "length i = 16" and "length i' = 16" and "str_ok n" and "str_ok n'" and "valid_name n" and "valid_name n'"
    and "body_ids_ok b" and "body_ids_ok b'"
  shows "(i = i' \<and> n = n' \<and> c = c' \<and> l = l' \<and> b = b')
    \<or> (\<exists>k x k' y. (k, x) \<noteq> (k', y) \<and> H k x = H k' y)"
proof (rule ccontr)
  assume no: "\<not> ?thesis"
  then have H: "H k x = H k' y \<Longrightarrow> k = k' \<and> x = y" for k x k' y by blast
  have "i = i' \<and> n = n' \<and> c = c' \<and> l = l' \<and> b = b'"
  proof (cases b)
    case (FileBody len id)
    show ?thesis
    proof (cases b')
      case FB': (FileBody len' id')
      from H assms(1) FileBody FB' have
        "metadata_transcript i n c l @ nl @ ascii ''begin_blob:'' @ nl @ ascii ''id:'' @ nl @ id @
          nl @ ascii ''length:'' @ nl @ be8 len @ nl @ ascii ''end_blob'' @ nl @ ascii ''end''
        = metadata_transcript i' n' c' l' @ nl @ ascii ''begin_blob:'' @ nl @ ascii ''id:'' @ nl @ id' @
          nl @ ascii ''length:'' @ nl @ be8 len' @ nl @ ascii ''end_blob'' @ nl @ ascii ''end''"
        by fastforce
      from metadata_transcript_inject [OF this assms(2-7)] assms(8,9) FileBody FB'
      show ?thesis by (auto simp: body_ids_ok_def append_inject_prefix)
    next
      case (DirectoryBody es')
      from H [OF assms(1) [unfolded FileBody DirectoryBody handler_hash.simps]] show ?thesis by simp
    qed
  next
    case (DirectoryBody es)
    show ?thesis
    proof (cases b')
      case (FileBody len' id')
      from H [OF assms(1) [unfolded DirectoryBody FileBody handler_hash.simps]] show ?thesis by simp
    next
      case DB': (DirectoryBody es')
      from H assms(1) DirectoryBody DB' have
        "metadata_transcript i n c l @ entries_transcript es @ nl @ ascii ''end''
        = metadata_transcript i' n' c' l' @ entries_transcript es' @ nl @ ascii ''end''"
        by fastforce
      from metadata_transcript_inject [OF this assms(2-7)] assms(8,9) DirectoryBody DB'
      show ?thesis
        using entries_transcript_inject [of es "nl @ ascii ''end''" es'] by (auto simp: body_ids_ok_def)
    qed
  qed
  with no show False by blast
qed

text \<open>
  C19: revisions are tamper-evident, across kinds. Two entities with one revision agree on
  id, name, both times and the whole body (a file's blob and length, a directory's entries),
  or the keyed hash has a collision. The name is not length-prefixed in the transcript: the
  line break that ends it cannot occur in an accepted name.
\<close>

theorem revision_collision_free:
  assumes "raw_ok H a" and "raw_ok H b" and "widths_ok a" and "widths_ok b" and "re_revision a = re_revision b"
  shows "(re_id a = re_id b \<and> re_name a = re_name b \<and> re_created a = re_created b
      \<and> re_last_modified a = re_last_modified b \<and> re_body a = re_body b)
    \<or> (\<exists>k x k' y. (k, x) \<noteq> (k', y) \<and> H k x = H k' y)"
  using assms by (intro handler_hash_inject) (simp_all add: raw_ok_def raw_hash_def widths_ok_def)

definition demo_entity_format :: entity_format where
  "demo_entity_format = \<lparr>enc_entity = (\<lambda>fl. fl_id fl),
     dec_entity = (\<lambda>bs. Some \<lparr>fl_id = bs, fl_name = [102], fl_created = 7, fl_last_modified = 8,
        fl_body = FlatFile 3 (replicate 32 4)\<rparr>)\<rparr>"

definition demo_raw :: "hasher \<Rightarrow> u8 \<Rightarrow> raw_entity" where
  "demo_raw H b = \<lparr>re_id = replicate 16 b, re_name = [102],
     re_revision = handler_hash H (replicate 16 b) [102] 7 8 (FileBody 3 (replicate 32 4)),
     re_created = 7, re_last_modified = 8, re_body = FileBody 3 (replicate 32 4), re_cart = replicate 16 b\<rparr>"

theorem revision_collision_free_witness:
  "\<exists>k x k' y. (k, x) \<noteq> (k', y) \<and> (\<lambda>_ bs. take 9 bs) (k :: string) x = (\<lambda>_ bs. take 9 bs) k' (y :: bytes)"
proof -
  let ?H = "\<lambda>(_ :: string) (bs :: bytes). take 9 bs"
  have "re_revision (demo_raw ?H 1) = re_revision (demo_raw ?H 2)" by code_simp
  moreover have "raw_ok ?H (demo_raw ?H b) \<and> widths_ok (demo_raw ?H b)" for b
    by (simp add: raw_ok_def raw_hash_def widths_ok_def demo_raw_def str_ok_def body_ids_ok_def
        valid_name_def check_valid_filename_def trim_def is_whitespace_def forbidden_chars_def
        is_control_def utf8_char_def)
  moreover have "re_id (demo_raw ?H 1) \<noteq> re_id (demo_raw ?H 2)"
    by (simp add: demo_raw_def replicate_eq_replicate)
  ultimately show ?thesis
    using revision_collision_free [of ?H "demo_raw ?H 1" "demo_raw ?H 2"] by blast
qed

section \<open>Freezing\<close>

definition flat_of_mut :: "entity_mut \<Rightarrow> flat_entity" where
  "flat_of_mut e = \<lparr>fl_id = em_id e, fl_name = em_name e, fl_created = em_created e,
     fl_last_modified = em_last_modified e, fl_body = serialize_body (normalize (em_body e))\<rparr>"

text \<open>Mutable entities as the program makes them; the format gives back what it stored.\<close>

definition mut_ok :: "(timestamp \<Rightarrow> bool) \<Rightarrow> entity_type \<Rightarrow> entity_mut \<Rightarrow> bool" where
  "mut_ok millis_ok T e = (valid_name (em_name e) \<and> millis_ok (em_created e)
     \<and> millis_ok (em_last_modified e) \<and> body_typed T (em_body e))"

definition stores :: "entity_format \<Rightarrow> flat_entity \<Rightarrow> bool" where
  "stores F fl = (dec_entity F (enc_entity F fl) = Some fl)"

lemma handler_extract_serialize:
  "body_typed T b \<Longrightarrow> fl_body fl = serialize_body b \<Longrightarrow> handler_extract T fl = Inr b"
  by (cases b) (auto simp: body_typed_def)

lemma body_typed_normalize [simp]: "body_typed T (normalize b) = body_typed T b"
  by (cases b) (simp_all add: body_typed_def)

lemma entity_freeze_ok:
  assumes "mut_ok ok T e" and "stores F (flat_of_mut e)"
  shows "entity_freeze H F ok T e = Returns \<lparr>ent_inner =
    \<lparr>re_id = em_id e, re_name = em_name e,
     re_revision = handler_hash H (em_id e) (em_name e) (em_created e) (em_last_modified e) (normalize (em_body e)),
     re_created = em_created e, re_last_modified = em_last_modified e, re_body = normalize (em_body e),
     re_cart = enc_entity F (flat_of_mut e)\<rparr>, ent_mode = DraftMode\<rparr>"
proof -
  have "handler_extract T (flat_of_mut e) = Inr (normalize (em_body e))"
    by (rule handler_extract_serialize) (use assms(1) in \<open>simp_all add: flat_of_mut_def mut_ok_def\<close>)
  with assms show ?thesis
    by (simp add: entity_freeze_def entity_mut_to_flatbuffer_def raw_try_from_flatbuffer_def stores_def
        flat_of_mut_def mut_ok_def valid_name_def timestamp_from_millis_def)
qed

text \<open>
  C23: freezing never panics, as the \<open>expect\<close> in it claims, on the entities the program
  makes; it keeps id, name, times and, up to the order of directory entries, the body; the
  frozen entity can be turned back into a mutable one; and the revision of a directory does
  not depend on the order its entries were collected in.
\<close>

theorem entity_freeze_canonical:
  assumes "mut_ok ok T e" and "stores F (flat_of_mut e)"
  shows "\<exists>d. entity_freeze H F ok T e = Returns d
    \<and> entity_into_mut d = e\<lparr>em_body := normalize (em_body e)\<rparr>
    \<and> (\<forall>es es'. em_body e = DirectoryBody es \<and> mset es' = mset es \<longrightarrow>
          entity_freeze H F ok T (e\<lparr>em_body := DirectoryBody es'\<rparr>) = Returns d)"
proof -
  have "entity_freeze H F ok T (e\<lparr>em_body := DirectoryBody es'\<rparr>) = entity_freeze H F ok T e"
    if "em_body e = DirectoryBody es" "mset es' = mset es" for es es'
  proof -
    have "sort es' = sort es" by (rule properties_for_sort) (simp_all add: that(2))
    with that(1) show ?thesis by (simp add: entity_freeze_def)
  qed
  with entity_freeze_ok [OF assms, of H] show ?thesis
    by (auto simp: entity_into_mut_def)
qed


text \<open>A directory with two entries and a format that stores it.\<close>

definition demo_dir_entries :: "entity_key list" where
  "demo_dir_entries = [(replicate 16 1, replicate 32 1), (replicate 16 2, replicate 32 2)]"

definition demo_dir_mut :: "entity_key list \<Rightarrow> entity_mut" where
  "demo_dir_mut es = \<lparr>em_id = replicate 16 9, em_name = [100], em_created = 7, em_last_modified = 8,
     em_body = DirectoryBody es\<rparr>"

definition demo_dir_format :: entity_format where
  "demo_dir_format = \<lparr>enc_entity = (\<lambda>fl. fl_id fl), dec_entity = (\<lambda>bs. Some \<lparr>fl_id = bs, fl_name = [100],
     fl_created = 7, fl_last_modified = 8, fl_body = FlatDirectory (Some demo_dir_entries)\<rparr>)\<rparr>"

lemma demo_dir_ok:
  "mut_ok (\<lambda>t. 0 \<le> sint t) Dir (demo_dir_mut es)"
  "sort es = demo_dir_entries \<Longrightarrow> stores demo_dir_format (flat_of_mut (demo_dir_mut es))"
  by (simp_all add: mut_ok_def demo_dir_mut_def valid_name_def check_valid_filename_def trim_def
      is_whitespace_def forbidden_chars_def is_control_def utf8_char_def body_typed_def stores_def
      demo_dir_format_def flat_of_mut_def)

lemma demo_entries_sorted:
  "sort demo_dir_entries = demo_dir_entries" "sort (rev demo_dir_entries) = demo_dir_entries"
  by code_simp+

theorem entity_freeze_canonical_witness:
  "entity_freeze demo_hasher demo_dir_format (\<lambda>t. 0 \<le> sint t) Dir (demo_dir_mut (rev demo_dir_entries))
   = entity_freeze demo_hasher demo_dir_format (\<lambda>t. 0 \<le> sint t) Dir (demo_dir_mut demo_dir_entries)
   \<and> entity_freeze demo_hasher demo_dir_format (\<lambda>t. 0 \<le> sint t) Dir (demo_dir_mut demo_dir_entries) \<noteq> Panics"
proof -
  have m: "(demo_dir_mut demo_dir_entries)\<lparr>em_body := DirectoryBody (rev demo_dir_entries)\<rparr>
      = demo_dir_mut (rev demo_dir_entries)" "em_body (demo_dir_mut demo_dir_entries) = DirectoryBody demo_dir_entries"
    by (simp_all add: demo_dir_mut_def)
  from entity_freeze_canonical [where H = demo_hasher, OF demo_dir_ok(1) demo_dir_ok(2) [OF demo_entries_sorted(1)]]
  obtain d where d: "entity_freeze demo_hasher demo_dir_format (\<lambda>t. 0 \<le> sint t) Dir (demo_dir_mut demo_dir_entries) = Returns d"
    and perm: "\<forall>es es'. em_body (demo_dir_mut demo_dir_entries) = DirectoryBody es \<and> mset es' = mset es \<longrightarrow>
      entity_freeze demo_hasher demo_dir_format (\<lambda>t. 0 \<le> sint t) Dir
        ((demo_dir_mut demo_dir_entries)\<lparr>em_body := DirectoryBody es'\<rparr>) = Returns d" by blast
  from perm [rule_format, of demo_dir_entries "rev demo_dir_entries"] m d show ?thesis by simp
qed


definition demo_dir_draft :: entity where
  "demo_dir_draft = (case entity_freeze demo_hasher demo_dir_format (\<lambda>t. 0 \<le> sint t) Dir (demo_dir_mut demo_dir_entries) of
     Returns d \<Rightarrow> d)"

lemma demo_dir_draft_eq:
  "entity_freeze demo_hasher demo_dir_format (\<lambda>t. 0 \<le> sint t) Dir (demo_dir_mut demo_dir_entries) = Returns demo_dir_draft"
  using entity_freeze_ok [where H = demo_hasher, OF demo_dir_ok(1) demo_dir_ok(2) [OF demo_entries_sorted(1)]]
  by (simp add: demo_dir_draft_def)


end
