(* ===== verification/Config.thy ===== *)
theory Config
  imports Entity
begin

text \<open>
  The configuration of a file system (\<open>janus-vfs/src/vfs/config.rs\<close>): its chunk size and
  its heads, the named branches and tags. The flatbuffers crate with the schema's generated
  code is the parameter \<open>config_format\<close>, with the binary search by key and the equality it
  generates; a \<open>HashMap\<close> is the list of its pairs in iteration order.
\<close>

section \<open>Data\<close>

datatype head_kind = KindBranch | KindTag | KindOther

record flat_head =
  fh_name :: str
  fh_kind :: head_kind
  fh_description :: "str option"
  fh_commit_id :: commit_id

record flat_config =
  fcfg_vfs_id :: vfs_id
  fcfg_description :: "str option"
  fcfg_last_modified :: timestamp
  fcfg_chunk_size :: u32
  fcfg_heads :: "flat_head list option"

record config_format =
  enc_config :: "flat_config \<Rightarrow> bytes"
  dec_config :: "bytes \<Rightarrow> flat_config option"
  lookup_head :: "flat_head list \<Rightarrow> str \<Rightarrow> flat_head option"
  same_table :: "bytes \<times> flat_head \<Rightarrow> bytes \<times> flat_head \<Rightarrow> bool"

record config =
  cfg_vfs_id :: vfs_id
  cfg_chunk_size :: u32
  cfg_description :: "str option"
  cfg_last_modified :: timestamp
  cfg_heads :: "flat_head list"
  cfg_cart :: bytes
  cfg_mode :: storage_mode

record head_entry =
  he_description :: "str option"
  he_commit_id :: commit_id

record config_mut =
  cfm_vfs_id :: vfs_id
  cfm_chunk_size :: u32
  cfm_description :: "str option"
  cfm_last_modified :: timestamp
  cfm_heads :: "(head \<times> head_entry) list"

datatype config_error = ConfigInvalidFlatbuffer | ConfigInvalidTimestamp | ConfigInvalidChunkSize

section \<open>Operations\<close>

definition config_is_synced :: "config \<Rightarrow> bool" where
  "config_is_synced c = (case cfg_mode c of Synced _ \<Rightarrow> True | Local _ \<Rightarrow> False)"

definition config_into_synced :: "object_id \<Rightarrow> config \<Rightarrow> config" where
  "config_into_synced oid c = c\<lparr>cfg_mode := Synced oid\<rparr>"

definition config_try_from_flatbuffer ::
  "config_format \<Rightarrow> (timestamp \<Rightarrow> bool) \<Rightarrow> bytes \<Rightarrow> object_id option \<Rightarrow> config_error + config" where
  "config_try_from_flatbuffer F millis_ok fb synced_object_id =
     (let mode = (case synced_object_id of Some oid \<Rightarrow> Synced oid | None \<Rightarrow> Local fb)
      in case dec_config F fb of
           None \<Rightarrow> Inl ConfigInvalidFlatbuffer
         | Some flat \<Rightarrow>
             if fcfg_chunk_size flat = 0 then Inl ConfigInvalidChunkSize
             else (case timestamp_from_millis millis_ok (fcfg_last_modified flat) of
                     None \<Rightarrow> Inl ConfigInvalidTimestamp
                   | Some last_modified \<Rightarrow>
                       Inr \<lparr>cfg_vfs_id = fcfg_vfs_id flat, cfg_chunk_size = fcfg_chunk_size flat,
                         cfg_description = fcfg_description flat, cfg_last_modified = last_modified,
                         cfg_heads = (case fcfg_heads flat of Some hs \<Rightarrow> hs | None \<Rightarrow> []),
                         cfg_cart = fb, cfg_mode = mode\<rparr>))"

definition CONFIG_OBJECT_TYPE :: bytes where
  "CONFIG_OBJECT_TYPE = ascii ''CONFIG''"

definition config_load_from_backend ::
  "metadata_format \<Rightarrow> config_format \<Rightarrow> (timestamp \<Rightarrow> bool) \<Rightarrow> object_id \<Rightarrow> remote_oid \<Rightarrow> remote_storage
   \<Rightarrow> io_error + config" where
  "config_load_from_backend F C millis_ok object_id oid remote =
     (case remote oid of
        Inl e \<Rightarrow> Inl e
      | Inr dl \<Rightarrow>
          (case md_try_from_io F (dl_metadata dl) of
             Inl e \<Rightarrow> Inl (IoError KOther ''invalid metadata'')
           | Inr md \<Rightarrow>
               if md_get F md METADATA_VFS_OBJECT_TYPE \<noteq> Some CONFIG_OBJECT_TYPE
               then Inl (IoError KOther ''METADATA_OBJECT_TYPE mismatch'')
               else (case dl_content dl of
                       Inl e \<Rightarrow> Inl e
                     | Inr buffer \<Rightarrow>
                         (case config_try_from_flatbuffer C millis_ok buffer (Some object_id) of
                            Inl e \<Rightarrow> Inl (IoError KOther ''invalid config'')
                          | Inr this \<Rightarrow> Inr this))))"

text \<open>The path carries the decimal text of the milliseconds, a parameter (\<open>i64\<close>'s \<open>Display\<close>).\<close>

definition config_to_uploadable_object :: "(timestamp \<Rightarrow> bytes) \<Rightarrow> bytes \<Rightarrow> config \<Rightarrow> uploadable" where
  "config_to_uploadable_object decimal vfs_id_text c =
     \<lparr>up_path = ascii ''/configs/'' @ decimal (cfg_last_modified c) @ ascii ''.config'',
      up_content = cfg_cart c,
      up_metadata = md_freeze (with_vfs_template vfs_id_text CONFIG_OBJECT_TYPE)\<rparr>"

definition entry_from_flat :: "flat_head \<Rightarrow> head_entry" where
  "entry_from_flat h = \<lparr>he_description = fh_description h, he_commit_id = fh_commit_id h\<rparr>"

definition heads_get :: "config_format \<Rightarrow> flat_head list \<Rightarrow> head \<Rightarrow> head_entry option" where
  "heads_get F hs h = map_option entry_from_flat (lookup_head F hs (head_name h))"

definition heads_contains_key :: "config_format \<Rightarrow> flat_head list \<Rightarrow> head \<Rightarrow> bool" where
  "heads_contains_key F hs h = (heads_get F hs h \<noteq> None)"

definition head_of_flat :: "flat_head \<Rightarrow> head option" where
  "head_of_flat h = (case fh_kind h of
     KindBranch \<Rightarrow> (case label_from_str (fh_name h) of Inr n \<Rightarrow> Some (Branch n) | Inl _ \<Rightarrow> None)
   | KindTag \<Rightarrow> (case label_from_str (fh_name h) of Inr n \<Rightarrow> Some (Tag n) | Inl _ \<Rightarrow> None)
   | KindOther \<Rightarrow> None)"

definition heads_iter :: "flat_head list \<Rightarrow> (head \<times> head_entry) list" where
  "heads_iter hs = List.map_filter (\<lambda>h. map_option (\<lambda>k. (k, entry_from_flat h)) (head_of_flat h)) hs"

definition heads_eq :: "config_format \<Rightarrow> config \<Rightarrow> config \<Rightarrow> bool" where
  "heads_eq F a b = (length (cfg_heads a) = length (cfg_heads b)
     \<and> list_all2 (\<lambda>x y. same_table F (cfg_cart a, x) (cfg_cart b, y)) (cfg_heads a) (cfg_heads b))"

text \<open>Collecting into a \<open>HashMap\<close>: the last entry of a head wins.\<close>

definition config_into_mut :: "config \<Rightarrow> config_mut" where
  "config_into_mut c = \<lparr>cfm_vfs_id = cfg_vfs_id c, cfm_chunk_size = cfg_chunk_size c,
     cfm_description = cfg_description c, cfm_last_modified = cfg_last_modified c,
     cfm_heads = fold (\<lambda>(h, e). AList.update h e) (heads_iter (cfg_heads c)) []\<rparr>"

definition config_mut_new :: "timestamp \<Rightarrow> vfs_id \<Rightarrow> u32 \<Rightarrow> config_mut" where
  "config_mut_new now vfs_id chunk_size = \<lparr>cfm_vfs_id = vfs_id, cfm_chunk_size = chunk_size,
     cfm_description = None, cfm_last_modified = now, cfm_heads = []\<rparr>"

definition flat_of_head :: "head \<times> head_entry \<Rightarrow> flat_head" where
  "flat_of_head = (\<lambda>(h, e). \<lparr>fh_name = head_name h, fh_kind = (if is_tag h then KindTag else KindBranch),
     fh_description = he_description e, fh_commit_id = he_commit_id e\<rparr>)"

definition flat_of_config :: "config_mut \<Rightarrow> flat_config" where
  "flat_of_config c = (let pairs = sort_key (\<lambda>p. utf8 (head_name (fst p))) (cfm_heads c)
     in \<lparr>fcfg_vfs_id = cfm_vfs_id c, fcfg_description = cfm_description c,
         fcfg_last_modified = cfm_last_modified c, fcfg_chunk_size = cfm_chunk_size c,
         fcfg_heads = Some (map flat_of_head pairs)\<rparr>)"

definition config_mut_to_flatbuffer :: "config_format \<Rightarrow> config_mut \<Rightarrow> bytes" where
  "config_mut_to_flatbuffer F c = enc_config F (flat_of_config c)"

definition config_freeze :: "config_format \<Rightarrow> (timestamp \<Rightarrow> bool) \<Rightarrow> config_mut \<Rightarrow> config outcome" where
  "config_freeze F millis_ok c =
     (case config_try_from_flatbuffer F millis_ok (config_mut_to_flatbuffer F c) None of
        Inl _ \<Rightarrow> Panics | Inr cfg \<Rightarrow> Returns cfg)"

section \<open>Lookup\<close>

text \<open>
  What the binary search of the generated code promises on a vector sorted by name: it
  answers an entry of the vector with that name, and it finds one if there is one.
\<close>

definition finds_heads :: "config_format \<Rightarrow> bool" where
  "finds_heads F = (\<forall>hs n. sorted (map (utf8 \<circ> fh_name) hs) \<longrightarrow>
     (case lookup_head F hs n of
        Some e \<Rightarrow> e \<in> set hs \<and> fh_name e = n
      | None \<Rightarrow> n \<notin> fh_name ` set hs))"

definition stores_config :: "config_format \<Rightarrow> config_mut \<Rightarrow> bool" where
  "stores_config F c = (dec_config F (enc_config F (flat_of_config c)) = Some (flat_of_config c))"

definition config_mut_ok :: "(timestamp \<Rightarrow> bool) \<Rightarrow> config_mut \<Rightarrow> bool" where
  "config_mut_ok millis_ok c = (cfm_chunk_size c \<noteq> 0 \<and> millis_ok (cfm_last_modified c)
     \<and> distinct (map fst (cfm_heads c)) \<and> (\<forall>h \<in> fst ` set (cfm_heads c). valid_name (head_name h)))"

lemma config_freeze_ok:
  assumes "config_mut_ok ok c" and "stores_config F c"
  shows "config_freeze F ok c = Returns \<lparr>cfg_vfs_id = cfm_vfs_id c, cfg_chunk_size = cfm_chunk_size c,
    cfg_description = cfm_description c, cfg_last_modified = cfm_last_modified c,
    cfg_heads = map flat_of_head (sort_key (\<lambda>p. utf8 (head_name (fst p))) (cfm_heads c)),
    cfg_cart = enc_config F (flat_of_config c), cfg_mode = Local (enc_config F (flat_of_config c))\<rparr>"
proof -
  have f: "fcfg_chunk_size (flat_of_config c) = cfm_chunk_size c" "fcfg_last_modified (flat_of_config c) = cfm_last_modified c"
    "fcfg_vfs_id (flat_of_config c) = cfm_vfs_id c" "fcfg_description (flat_of_config c) = cfm_description c"
    "fcfg_heads (flat_of_config c) = Some (map flat_of_head (sort_key (\<lambda>p. utf8 (head_name (fst p))) (cfm_heads c)))"
    by (simp_all add: flat_of_config_def Let_def)
  from assms show ?thesis
    by (simp add: config_freeze_def config_try_from_flatbuffer_def config_mut_to_flatbuffer_def
        stores_config_def config_mut_ok_def timestamp_from_millis_def f)
qed

lemma head_of_flat_of_head: "valid_name (head_name h) \<Longrightarrow> head_of_flat (flat_of_head (h, e)) = Some h"
  by (cases h) (simp_all add: head_of_flat_def flat_of_head_def is_tag_def label_from_str_def valid_name_def)

lemma entry_from_flat_of_head: "entry_from_flat (flat_of_head (h, e)) = e"
  by (simp add: entry_from_flat_def flat_of_head_def)

lemma heads_iter_flat:
  "\<forall>h \<in> fst ` set ps. valid_name (head_name h) \<Longrightarrow> heads_iter (map flat_of_head ps) = ps"
  by (induction ps)
    (auto simp: heads_iter_def map_filter_simps head_of_flat_of_head entry_from_flat_of_head)

lemma fold_update_distinct:
  "distinct (map fst (acc @ ps)) \<Longrightarrow> fold (\<lambda>(h, e). AList.update h e) ps acc = acc @ ps"
proof (induction ps arbitrary: acc)
  case (Cons p ps)
  obtain h e where p: "p = (h, e)" by (cases p)
  have "AList.update h e acc = acc @ [(h, e)]" if "h \<notin> fst ` set acc"
    using that by (induction acc) auto
  with Cons.prems p Cons.IH [of "acc @ [p]"] show ?case by simp
qed simp

text \<open>
  C37: freezing a configuration never panics and keeps it: the frozen configuration lists
  exactly the heads it was given with their commits, sorted by name, turning it back gives
  the same vfs id, chunk size, description, time and heads, and, when no branch and tag share a
  name, looking a head up answers its entry.
\<close>

theorem config_freeze_heads:
  assumes "config_mut_ok ok c" and "stores_config F c" and "finds_heads F"
  shows "\<exists>cfg. config_freeze F ok c = Returns cfg
    \<and> config_into_mut cfg = c\<lparr>cfm_heads := sort_key (\<lambda>p. utf8 (head_name (fst p))) (cfm_heads c)\<rparr>
    \<and> (distinct (map (head_name \<circ> fst) (cfm_heads c)) \<longrightarrow>
         (\<forall>h e. (h, e) \<in> set (cfm_heads c) \<longrightarrow> heads_get F (cfg_heads cfg) h = Some e))"
proof -
  define ps where "ps = sort_key (\<lambda>p. utf8 (head_name (fst p))) (cfm_heads c)"
  have set: "set ps = set (cfm_heads c)" by (simp add: ps_def)
  have names: "\<forall>h \<in> fst ` set ps. valid_name (head_name h)" using assms(1) by (simp add: set config_mut_ok_def)
  have "mset ps = mset (cfm_heads c)" by (simp add: ps_def)
  then have dist: "distinct (map f ps) = distinct (map f (cfm_heads c))" for f :: "head \<times> head_entry \<Rightarrow> 'z"
    by (metis mset_eq_imp_distinct_iff mset_map)
  from config_freeze_ok [OF assms(1,2), folded ps_def] obtain cfg
    where cfg: "config_freeze F ok c = Returns cfg" "cfg_heads cfg = map flat_of_head ps"
      "cfg_vfs_id cfg = cfm_vfs_id c" "cfg_chunk_size cfg = cfm_chunk_size c"
      "cfg_description cfg = cfm_description c" "cfg_last_modified cfg = cfm_last_modified c"
    by simp
  have "fold (\<lambda>(h, e). AList.update h e) ps [] = ps"
    using fold_update_distinct [of "[]" ps] assms(1) by (simp add: dist config_mut_ok_def)
  then have "config_into_mut cfg = c\<lparr>cfm_heads := ps\<rparr>"
    by (simp add: config_into_mut_def cfg heads_iter_flat [OF names])
  moreover have "heads_get F (cfg_heads cfg) h = Some e"
    if "distinct (map (head_name \<circ> fst) (cfm_heads c))" "(h, e) \<in> set (cfm_heads c)" for h e
  proof -
    have nm: "fh_name (flat_of_head p) = head_name (fst p)" for p by (simp add: flat_of_head_def split: prod.split)
    have "sorted (map (\<lambda>p. utf8 (head_name (fst p))) ps)" by (simp add: ps_def)
    then have "sorted (map (utf8 \<circ> fh_name) (map flat_of_head ps))" by (simp add: comp_def nm)
    with assms(3) have look: "case lookup_head F (map flat_of_head ps) (head_name h) of
        Some e' \<Rightarrow> e' \<in> set (map flat_of_head ps) \<and> fh_name e' = head_name h
      | None \<Rightarrow> head_name h \<notin> fh_name ` set (map flat_of_head ps)"
      unfolding finds_heads_def by blast
    have mem: "(h, e) \<in> set ps" using that(2) set by simp
    then have "head_name h \<in> fh_name ` set (map flat_of_head ps)"
      using nm [of "(h, e)"] by force
    with look obtain p where p: "p \<in> set ps" "lookup_head F (map flat_of_head ps) (head_name h) = Some (flat_of_head p)"
        "fh_name (flat_of_head p) = head_name h" by (auto split: option.splits)
    have inj: "inj_on (head_name \<circ> fst) (set ps)" using that(1) dist [of "head_name \<circ> fst"] by (simp add: distinct_map)
    have "(head_name \<circ> fst) p = (head_name \<circ> fst) (h, e)" using p(3) nm by simp
    from inj_onD [OF inj this p(1) mem] have "p = (h, e)" .
    with p(2) cfg(2) show ?thesis by (simp add: heads_get_def entry_from_flat_of_head)
  qed
  ultimately show ?thesis using cfg(1) ps_def by blast
qed

text \<open>
  C38: \<open>Heads::contains_key\<close> ignores the kind of a head: if a configuration sorted by name
  has a branch, it claims to contain the tag of that name (and conversely), with the branch's
  commit.
\<close>

theorem heads_ignore_kind:
  assumes "finds_heads F" and "sorted (map (utf8 \<circ> fh_name) hs)" and "h \<in> set hs"
  shows "heads_contains_key F hs (Branch (fh_name h)) \<and> heads_contains_key F hs (Tag (fh_name h))"
proof -
  from assms(1,2) have "case lookup_head F hs (fh_name h) of
      Some e \<Rightarrow> e \<in> set hs \<and> fh_name e = fh_name h | None \<Rightarrow> fh_name h \<notin> fh_name ` set hs"
    unfolding finds_heads_def by blast
  with assms(3) have "lookup_head F hs (fh_name h) \<noteq> None" by (auto split: option.splits)
  then show ?thesis by (simp add: heads_contains_key_def heads_get_def)
qed

definition demo_config_mut :: config_mut where
  "demo_config_mut = \<lparr>cfm_vfs_id = replicate 16 1, cfm_chunk_size = 65536, cfm_description = None,
     cfm_last_modified = 5, cfm_heads = [(Branch default_branch, \<lparr>he_description = None, he_commit_id = zeroed_id\<rparr>),
       (Tag [102], \<lparr>he_description = Some [103], he_commit_id = zeroed_id\<rparr>)]\<rparr>"

definition demo_config_format :: config_format where
  "demo_config_format = \<lparr>enc_config = (\<lambda>_. [1]), dec_config = (\<lambda>_. Some (flat_of_config demo_config_mut)),
     lookup_head = (\<lambda>hs n. find (\<lambda>h. fh_name h = n) hs), same_table = (\<lambda>a b. a = b)\<rparr>"

lemma demo_config_ok:
  "config_mut_ok (\<lambda>t. 0 \<le> sint t) demo_config_mut" "stores_config demo_config_format demo_config_mut"
  "finds_heads demo_config_format"
proof -
  show "config_mut_ok (\<lambda>t. 0 \<le> sint t) demo_config_mut"
    by (simp add: config_mut_ok_def demo_config_mut_def default_branch_def valid_name_def
        check_valid_filename_def trim_def is_whitespace_def forbidden_chars_def is_control_def utf8_char_def)
  show "stores_config demo_config_format demo_config_mut"
    by (simp add: stores_config_def demo_config_format_def)
  show "finds_heads demo_config_format"
    by (auto simp: finds_heads_def demo_config_format_def find_Some_iff find_None_iff split: option.split)
qed

theorem config_freeze_heads_witness:
  "\<exists>cfg. config_freeze demo_config_format (\<lambda>t. 0 \<le> sint t) demo_config_mut = Returns cfg
    \<and> heads_get demo_config_format (cfg_heads cfg) (Tag [102]) = Some \<lparr>he_description = Some [103], he_commit_id = zeroed_id\<rparr>"
proof -
  have "distinct (map (head_name \<circ> fst) (cfm_heads demo_config_mut))"
    by (simp add: demo_config_mut_def default_branch_def)
  moreover have "(Tag [102], \<lparr>he_description = Some [103], he_commit_id = zeroed_id\<rparr>) \<in> set (cfm_heads demo_config_mut)"
    by (simp add: demo_config_mut_def)
  ultimately show ?thesis
    using config_freeze_heads [OF demo_config_ok] by blast
qed

theorem heads_ignore_kind_witness:
  "heads_contains_key demo_config_format
     [\<lparr>fh_name = [109], fh_kind = KindBranch, fh_description = None, fh_commit_id = zeroed_id\<rparr>] (Tag [109])"
  using heads_ignore_kind [OF demo_config_ok(3),
      of "[\<lparr>fh_name = [109], fh_kind = KindBranch, fh_description = None, fh_commit_id = zeroed_id\<rparr>]"]
  by simp

end
