(* ===== verification/Store.thy ===== *)
theory Store
  imports Config
begin

text \<open>
  The database (\<open>janus-vfs/src/db.rs\<close> and the schema
  \<open>janus-vfs/migrations/202605201500_initial.sql\<close>): its tables as lists of rows, the
  reference counts its triggers maintain, and the garbage collection they run. A table with a
  primary key is a list of pairs of key and row. Columns whose \<open>CHECK\<close> ties them together
  are one value: \<open>mode\<close>, \<open>object_id\<close> and \<open>data\<close> are a \<open>storage_mode\<close>, and an id column has
  the width of its type, so the conversions that test these when a row is read cannot fail and
  are left out. A panic inside a transaction unwinds and drops it, which rolls it back as an error
  does; it is the error \<open>Panicked\<close>, which the code does not have. A statement that fails leaves the database as it was. SQLite's limit on the
  nesting of triggers (1000 by default) is not modelled.
\<close>

section \<open>Errors\<close>

datatype sql_failure = ForeignKeyViolation | UniqueViolation | CheckViolation | Aborted string | RowNotFound

datatype data_error =
    ConversionError string
  | EntityNotFound entity_key
  | InvalidEntityId
  | InvalidRevision
  | EntityMismatch
  | InodeNotFound inode_id
  | BlobNotFound content_id
  | UnexpectedAffectedRows nat nat
  | DirtyFile inode_id
  | MissingObject
  | DBlobIdMismatch content_id content_id
  | DChunkIdMismatch content_id content_id
  | DCommitIdMismatch commit_id commit_id
  | ChunkNotFound content_id
  | CommitNotFound commit_id
  | ObjectNotFound object_id
  | InvalidRemoteLocation bytes
  | UnsupportedStorageMode
  | HeadEntryNotFound head

datatype db_state_error = InvalidPageSize string | PoolIsClosed

datatype db_error =
    SqlxError sql_failure
  | MigrateError
  | DbStateError db_state_error
  | DataError data_error
  | DbIoError io_error
  | Panicked

section \<open>Tables\<close>

type_synonym ('k, 'r) table = "('k \<times> 'r) list"

record object_row =
  ob_location :: bytes
  ob_ref_count :: nat
  ob_first_seen :: timestamp
  ob_last_seen :: timestamp
  ob_error_count :: nat

record chunk_row =
  ck_ref_count :: nat
  ck_mode :: storage_mode

record blob_row =
  bo_ref_count :: nat
  bo_size :: u64
  bo_object :: "object_id option"

record entity_row =
  er_ref_count :: nat
  er_name :: str
  er_type :: entity_type
  er_mode :: storage_mode

record commit_row =
  cr_ref_count :: nat
  cr_entity :: entity_key
  cr_mode :: storage_mode

record config_row =
  cfr_vfs_id :: vfs_id
  cfr_head :: str
  cfr_last_modified :: timestamp
  cfr_chunk_size :: u32
  cfr_mode :: storage_mode

record vfs_row =
  vf_type :: entity_type
  vf_key :: entity_key
  vf_name :: str
  vf_parent :: "inode_id option"
  vf_path :: "str option"
  vf_dirty :: bool

datatype queue_item =
    QChunk content_id
  | QBlob content_id
  | QEntity entity_key
  | QCommit commit_id
  | QConfig bytes

record queue_row =
  q_item :: queue_item
  q_estimated_size :: u64
  q_pending :: bool

datatype change = Inserted | Updated | Deleted

datatype change_key = KChunk content_id | KInode inode_id

record db =
  t_object :: "(object_id, object_row) table"
  t_chunk :: "(content_id, chunk_row) table"
  t_blob :: "(content_id, blob_row) table"
  t_chunk_map :: "(content_id \<times> chunk_range) list"
  t_entity :: "(entity_key, entity_row) table"
  t_entity_ref :: "(entity_key \<times> entity_ref) list"
  t_commit :: "(commit_id, commit_row) table"
  t_head :: "(head \<times> commit_id) list"
  t_config :: "config_row list"
  t_vfs :: "(inode_id, vfs_row) table"
  t_fh :: "(nat, inode_id) table"
  t_fh_seq :: nat
  t_fh_chunk :: "(nat \<times> content_id) list"
  t_sync_job :: "(timestamp \<times> commit_id) list"
  t_queue :: "(nat, queue_row) table"
  t_queue_seq :: nat
  t_change_log :: "(change \<times> change_key) list"

definition empty_db :: db where
  "empty_db = \<lparr>t_object = [], t_chunk = [], t_blob = [], t_chunk_map = [], t_entity = [],
     t_entity_ref = [], t_commit = [], t_head = [], t_config = [], t_vfs = [], t_fh = [],
     t_fh_seq = 0, t_fh_chunk = [], t_sync_job = [], t_queue = [], t_queue_seq = 0, t_change_log = []\<rparr>"

section \<open>Transactions\<close>

text \<open>
  Running part of a transaction: an error, or a result and the new database. An error ends
  the function that got it (\<open>?\<close>), and the transaction is dropped, that is rolled back.
\<close>

type_synonym 'a tx = "db \<Rightarrow> db_error + 'a \<times> db"

definition tx_return :: "'a \<Rightarrow> 'a tx" where
  "tx_return a d = Inr (a, d)"

definition tx_fail :: "db_error \<Rightarrow> 'a tx" where
  "tx_fail e d = Inl e"

definition tx_bind :: "'a tx \<Rightarrow> ('a \<Rightarrow> 'b tx) \<Rightarrow> 'b tx" where
  "tx_bind m f d = (case m d of Inl e \<Rightarrow> Inl e | Inr (a, d') \<Rightarrow> f a d')"

definition tx_get :: "(db \<Rightarrow> 'a) \<Rightarrow> 'a tx" where
  "tx_get f d = Inr (f d, d)"

fun tx_for :: "'a list \<Rightarrow> ('a \<Rightarrow> unit tx) \<Rightarrow> unit tx" where
  "tx_for [] f = tx_return ()"
| "tx_for (x # xs) f = tx_bind (f x) (\<lambda>_. tx_for xs f)"

text \<open>\<open>ok_or_else(...)?\<close> and \<open>fetch_one\<close>.\<close>

definition tx_some :: "db_error \<Rightarrow> 'a option \<Rightarrow> 'a tx" where
  "tx_some e v = (case v of None \<Rightarrow> tx_fail e | Some a \<Rightarrow> tx_return a)"

definition affected_one :: "nat \<Rightarrow> unit tx" where
  "affected_one actual = (if actual \<noteq> 1 then tx_fail (DataError (UnexpectedAffectedRows 1 actual))
     else tx_return ())"

lemma tx_bind_Inr:
  "tx_bind m f d = Inr (b, d'') \<longleftrightarrow> (\<exists>a d'. m d = Inr (a, d') \<and> f a d' = Inr (b, d''))"
  by (auto simp: tx_bind_def split: sum.splits)

lemma tx_simps [simp]:
  "tx_return a d = Inr (b, d') \<longleftrightarrow> b = a \<and> d' = d" "tx_fail e d = Inl e" "tx_fail e d \<noteq> Inr x"
  "tx_get f d = Inr (b, d') \<longleftrightarrow> b = f d \<and> d' = d"
  by (auto simp: tx_return_def tx_fail_def tx_get_def)

section \<open>References and their counts\<close>

text \<open>The rows the triggers count references to.\<close>

datatype node =
    NObject object_id
  | NChunk content_id
  | NBlob content_id
  | NEntity entity_key
  | NCommit commit_id

fun mode_refs :: "storage_mode \<Rightarrow> node list" where
  "mode_refs (Synced oid) = [NObject oid]"
| "mode_refs (Local _) = []"

definition object_refs :: "object_id option \<Rightarrow> node list" where
  "object_refs oid = (case oid of Some i \<Rightarrow> [NObject i] | None \<Rightarrow> [])"

fun ref_node :: "entity_ref \<Rightarrow> node" where
  "ref_node (RefBlob b) = NBlob b"
| "ref_node (RefEntity k) = NEntity k"

fun queue_refs :: "queue_item \<Rightarrow> node list" where
  "queue_refs (QChunk c) = [NChunk c]"
| "queue_refs (QBlob b) = [NBlob b]"
| "queue_refs (QEntity k) = [NEntity k]"
| "queue_refs (QCommit c) = [NCommit c]"
| "queue_refs (QConfig _) = []"

text \<open>
  The references each table holds, as far as triggers count them; the object of the
  configuration is not counted.
\<close>

definition chunk_outs :: "(content_id, chunk_row) table \<Rightarrow> node list" where
  "chunk_outs t = concat (map (\<lambda>(_, r). mode_refs (ck_mode r)) t)"

definition blob_outs :: "(content_id, blob_row) table \<Rightarrow> node list" where
  "blob_outs t = concat (map (\<lambda>(_, r). object_refs (bo_object r)) t)"

definition map_outs :: "(content_id \<times> chunk_range) list \<Rightarrow> node list" where
  "map_outs t = map (\<lambda>(_, r). NChunk (cr_chunk_id r)) t"

definition entity_outs :: "(entity_key, entity_row) table \<Rightarrow> node list" where
  "entity_outs t = concat (map (\<lambda>(_, r). mode_refs (er_mode r)) t)"

definition ref_outs :: "(entity_key \<times> entity_ref) list \<Rightarrow> node list" where
  "ref_outs t = map (\<lambda>(_, r). ref_node r) t"

definition commit_outs :: "(commit_id, commit_row) table \<Rightarrow> node list" where
  "commit_outs t = concat (map (\<lambda>(_, r). NEntity (cr_entity r) # mode_refs (cr_mode r)) t)"

definition head_outs :: "(head \<times> commit_id) list \<Rightarrow> node list" where
  "head_outs t = map (\<lambda>(_, c). NCommit c) t"

definition vfs_outs :: "(inode_id, vfs_row) table \<Rightarrow> node list" where
  "vfs_outs t = map (\<lambda>(_, r). NEntity (vf_key r)) t"

definition fh_outs :: "(nat \<times> content_id) list \<Rightarrow> node list" where
  "fh_outs t = map (\<lambda>(_, c). NChunk c) t"

definition job_outs :: "(timestamp \<times> commit_id) list \<Rightarrow> node list" where
  "job_outs t = map (\<lambda>(_, c). NCommit c) t"

definition queue_outs :: "(nat, queue_row) table \<Rightarrow> node list" where
  "queue_outs t = concat (map (\<lambda>(_, r). queue_refs (q_item r)) t)"

definition refs :: "db \<Rightarrow> node list" where
  "refs d = chunk_outs (t_chunk d) @ blob_outs (t_blob d) @ map_outs (t_chunk_map d)
     @ entity_outs (t_entity d) @ ref_outs (t_entity_ref d) @ commit_outs (t_commit d)
     @ head_outs (t_head d) @ vfs_outs (t_vfs d) @ fh_outs (t_fh_chunk d)
     @ job_outs (t_sync_job d) @ queue_outs (t_queue d)"

fun node_count :: "node \<Rightarrow> db \<Rightarrow> nat option" where
  "node_count (NObject i) d = map_option ob_ref_count (map_of (t_object d) i)"
| "node_count (NChunk i) d = map_option ck_ref_count (map_of (t_chunk d) i)"
| "node_count (NBlob i) d = map_option bo_ref_count (map_of (t_blob d) i)"
| "node_count (NEntity k) d = map_option er_ref_count (map_of (t_entity d) k)"
| "node_count (NCommit i) d = map_option cr_ref_count (map_of (t_commit d) i)"

definition node_exists :: "db \<Rightarrow> node \<Rightarrow> bool" where
  "node_exists d n = (node_count n d \<noteq> None)"

fun set_count :: "node \<Rightarrow> nat \<Rightarrow> db \<Rightarrow> db" where
  "set_count (NObject i) c d = d\<lparr>t_object := AList.map_entry i (\<lambda>r. r\<lparr>ob_ref_count := c\<rparr>) (t_object d)\<rparr>"
| "set_count (NChunk i) c d = d\<lparr>t_chunk := AList.map_entry i (\<lambda>r. r\<lparr>ck_ref_count := c\<rparr>) (t_chunk d)\<rparr>"
| "set_count (NBlob i) c d = d\<lparr>t_blob := AList.map_entry i (\<lambda>r. r\<lparr>bo_ref_count := c\<rparr>) (t_blob d)\<rparr>"
| "set_count (NEntity k) c d = d\<lparr>t_entity := AList.map_entry k (\<lambda>r. r\<lparr>er_ref_count := c\<rparr>) (t_entity d)\<rparr>"
| "set_count (NCommit i) c d = d\<lparr>t_commit := AList.map_entry i (\<lambda>r. r\<lparr>cr_ref_count := c\<rparr>) (t_commit d)\<rparr>"

fun mode_local :: "storage_mode \<Rightarrow> bool" where
  "mode_local (Local _) = True"
| "mode_local (Synced _) = False"

fun node_local :: "node \<Rightarrow> db \<Rightarrow> bool" where
  "node_local (NObject i) d = False"
| "node_local (NChunk i) d = (case map_of (t_chunk d) i of Some r \<Rightarrow> mode_local (ck_mode r) | None \<Rightarrow> False)"
| "node_local (NBlob i) d = (case map_of (t_blob d) i of Some r \<Rightarrow> bo_object r = None | None \<Rightarrow> False)"
| "node_local (NEntity k) d = (case map_of (t_entity d) k of Some r \<Rightarrow> mode_local (er_mode r) | None \<Rightarrow> False)"
| "node_local (NCommit i) d = (case map_of (t_commit d) i of Some r \<Rightarrow> mode_local (cr_mode r) | None \<Rightarrow> False)"

text \<open>
  Deleting a counted row, with the rows that cascade from it: the database without them and
  the references they held, in the order their triggers run.
\<close>

fun delete_node :: "node \<Rightarrow> db \<Rightarrow> node list \<times> db" where
  "delete_node (NObject i) d = ([], d\<lparr>t_object := AList.delete i (t_object d)\<rparr>)"
| "delete_node (NChunk i) d =
     (case map_of (t_chunk d) i of None \<Rightarrow> ([], d)
      | Some r \<Rightarrow> (mode_refs (ck_mode r), d\<lparr>t_chunk := AList.delete i (t_chunk d),
                   t_change_log := t_change_log d @ [(Deleted, KChunk i)]\<rparr>))"
| "delete_node (NBlob i) d =
     (case map_of (t_blob d) i of None \<Rightarrow> ([], d)
      | Some r \<Rightarrow> (map_outs (filter (\<lambda>(b, _). b = i) (t_chunk_map d)) @ object_refs (bo_object r),
                   d\<lparr>t_blob := AList.delete i (t_blob d), t_chunk_map := filter (\<lambda>(b, _). b \<noteq> i) (t_chunk_map d)\<rparr>))"
| "delete_node (NEntity k) d =
     (case map_of (t_entity d) k of None \<Rightarrow> ([], d)
      | Some r \<Rightarrow> (ref_outs (filter (\<lambda>(e, _). e = k) (t_entity_ref d)) @ mode_refs (er_mode r),
                   d\<lparr>t_entity := AList.delete k (t_entity d), t_entity_ref := filter (\<lambda>(e, _). e \<noteq> k) (t_entity_ref d)\<rparr>))"
| "delete_node (NCommit i) d =
     (case map_of (t_commit d) i of None \<Rightarrow> ([], d)
      | Some r \<Rightarrow> (NEntity (cr_entity r) # mode_refs (cr_mode r),
                   d\<lparr>t_commit := AList.delete i (t_commit d)\<rparr>))"

definition counted_rows :: "db \<Rightarrow> nat" where
  "counted_rows d = length (t_chunk d) + length (t_blob d) + length (t_entity d) + length (t_commit d)"

lemma length_delete_less: "map_of t k = Some r \<Longrightarrow> length (AList.delete k t) < length t"
proof -
  assume "map_of t k = Some r"
  then have "(k, r) \<in> set t" by (rule map_of_SomeD)
  then have "length (filter (\<lambda>p. k \<noteq> fst p) t) < length t"
    by (intro length_filter_less [of "(k, r)"]) auto
  then show ?thesis by (simp add: AList.delete_eq split_def)
qed

lemma map_entry_length [simp]: "length (AList.map_entry k f t) = length t"
  by (induction t) auto

lemma map_entry_Some: "map_of t k = Some r \<Longrightarrow> map_of (AList.map_entry k f t) k = Some (f r)"
  by (simp add: map_of_map_entry)

lemma counted_rows_set_count [simp]: "counted_rows (set_count n c d) = counted_rows d"
  by (cases n) (simp_all add: counted_rows_def)

lemma delete_node_smaller:
  "node_local n d \<Longrightarrow> counted_rows (snd (delete_node n (set_count n c d))) < counted_rows d"
  by (cases n) (auto simp: counted_rows_def map_entry_Some split: option.splits
      intro!: less_le_trans [OF length_delete_less])

text \<open>
  Dropping references, one decrement after another, with the collection of local rows whose
  count reaches zero; what such a row referred to is dropped before the rest, as the triggers
  of its deletion run inside the decrement. A count cannot go below zero (\<open>CHECK\<close>).
\<close>

function release :: "node list \<Rightarrow> db \<Rightarrow> db_error + db" where
  "release [] d = Inr d"
| "release (n # ns) d =
     (case node_count n d of
        None \<Rightarrow> release ns d
      | Some c \<Rightarrow>
          if c = 0 then Inl (SqlxError CheckViolation)
          else let d1 = set_count n (c - 1) d
               in if c = 1 \<and> node_local n d
                  then release (fst (delete_node n d1) @ ns) (snd (delete_node n d1))
                  else release ns d1)"
  by pat_completeness auto

termination
  by (relation "measures [\<lambda>(ns, d). counted_rows d, \<lambda>(ns, d). length ns]")
    (auto simp: delete_node_smaller)

declare release.simps(2) [simp del]

fun retain :: "node list \<Rightarrow> db \<Rightarrow> db" where
  "retain [] d = d"
| "retain (n # ns) d = retain ns (case node_count n d of None \<Rightarrow> d | Some c \<Rightarrow> set_count n (Suc c) d)"

end
