(* ===== verification/StoreInv.thy ===== *)
theory StoreInv
  imports Store
begin

text \<open>
  The invariant of the database: keys are unique, cascading rows have their parent, and every
  reference count is exact. Dropping references keeps it, so the collection never fails and
  never removes a row that is still referred to.
\<close>

section \<open>The invariant\<close>

definition keys_ok :: "db \<Rightarrow> bool" where
  "keys_ok d = (distinct (map fst (t_object d)) \<and> distinct (map fst (t_chunk d))
     \<and> distinct (map fst (t_blob d)) \<and> distinct (map fst (t_entity d))
     \<and> distinct (map fst (t_commit d)) \<and> distinct (map fst (t_vfs d))
     \<and> distinct (map fst (t_fh d)) \<and> distinct (map fst (t_queue d))
     \<and> (\<forall>p \<in> set (t_queue d). fst p \<le> t_queue_seq d) \<and> (\<forall>p \<in> set (t_fh d). fst p \<le> t_fh_seq d)
     \<and> fst ` set (t_chunk_map d) \<subseteq> fst ` set (t_blob d)
     \<and> fst ` set (t_entity_ref d) \<subseteq> fst ` set (t_entity d))"

definition counts_with :: "node list \<Rightarrow> db \<Rightarrow> bool" where
  "counts_with ns d = (\<forall>n. case node_count n d of
     None \<Rightarrow> count_list (refs d) n + count_list ns n = 0
   | Some c \<Rightarrow> c = count_list (refs d) n + count_list ns n)"

definition db_ok :: "db \<Rightarrow> bool" where
  "db_ok d = (keys_ok d \<and> counts_with [] d)"

lemma counts_withD:
  "counts_with ns d \<Longrightarrow> node_count n d = Some c \<Longrightarrow> c = count_list (refs d) n + count_list ns n"
  "counts_with ns d \<Longrightarrow> node_count n d = None \<Longrightarrow> count_list (refs d) n = 0 \<and> count_list ns n = 0"
  by (auto simp: counts_with_def split: option.splits dest: spec [of _ n])

lemma counts_withI:
  assumes "\<And>n c. node_count n d = Some c \<Longrightarrow> c = count_list (refs d) n + count_list ns n"
    and "\<And>n. node_count n d = None \<Longrightarrow> count_list (refs d) n + count_list ns n = 0"
  shows "counts_with ns d"
  using assms by (auto simp: counts_with_def split: option.splits)

section \<open>Tables as lists\<close>

lemma count_split:
  "count_list (map f (filter P xs)) n + count_list (map f (filter (\<lambda>x. \<not> P x) xs)) n = count_list (map f xs) n"
  by (induction xs) auto

lemma count_concat_delete:
  assumes "distinct (map fst t)" and "map_of t k = Some r"
  shows "count_list (concat (map f (AList.delete k t))) n + count_list (f (k, r)) n = count_list (concat (map f t)) n"
  using assms
proof (induction t)
  case (Cons p t)
  obtain k' r' where p: "p = (k', r')" by (cases p)
  show ?case
  proof (cases "k' = k")
    case True
    with Cons.prems p have "AList.delete k t = t" "r' = r"
      by (simp_all add: delete_id)
    with True p show ?thesis by simp
  next
    case False
    with Cons p show ?thesis by simp
  qed
qed simp

lemma concat_map_entry:
  assumes "\<And>k r. f (k, g r) = f (k, r)"
  shows "concat (map f (AList.map_entry i g t)) = concat (map f t)"
  using assms by (induction t) auto

lemma count_concat_map_entry:
  assumes "distinct (map fst t)" and "map_of t k = Some r"
  shows "count_list (concat (map f (AList.map_entry k g t))) n + count_list (f (k, r)) n
    = count_list (concat (map f t)) n + count_list (f (k, g r)) n"
  using assms
proof (induction t)
  case (Cons p t)
  obtain k' r' where p: "p = (k', r')" by (cases p)
  show ?case
  proof (cases "k' = k")
    case True
    with Cons.prems p have "AList.map_entry k g t = t" "r' = r"
    proof -
      have "k \<notin> fst ` set u \<Longrightarrow> AList.map_entry k g u = u" for u by (induction u) auto
      with Cons.prems(1) p True show "AList.map_entry k g t = t" by simp
      show "r' = r" using Cons.prems(2) p True by simp
    qed
    with True p show ?thesis by simp
  next
    case False
    with Cons p show ?thesis by simp
  qed
qed simp

lemma map_fst_map_entry [simp]: "map fst (AList.map_entry k f t) = map fst t"
  by (induction t) auto

lemma fst_set_map_entry [simp]: "fst ` set (AList.map_entry k f t) = fst ` set t"
  by (metis list.set_map map_fst_map_entry)

lemma map_of_map_entry_other [simp]: "k' \<noteq> k \<Longrightarrow> map_of (AList.map_entry k f t) k' = map_of t k'"
  by (simp add: map_of_map_entry)

lemma map_of_delete_other [simp]: "k' \<noteq> k \<Longrightarrow> map_of (AList.delete k t) k' = map_of t k'"
  by (simp add: delete_conv)

lemma map_of_delete_self [simp]: "map_of (AList.delete k t) k = None"
  by (simp add: delete_conv)

lemma set_fst_delete [simp]: "fst ` set (AList.delete k t) = fst ` set t - {k}"
  by (auto simp: AList.delete_eq)

section \<open>Counts and references under the primitive changes\<close>

lemma refs_set_count [simp]: "refs (set_count n c d) = refs d"
  by (cases n) (simp_all add: refs_def chunk_outs_def blob_outs_def entity_outs_def commit_outs_def concat_map_entry)

lemma node_count_set_count:
  "node_count n d \<noteq> None \<Longrightarrow> node_count m (set_count n c d) = (if m = n then Some c else node_count m d)"
  by (cases n; cases m) (auto simp: map_of_map_entry split: option.splits)

lemma keys_ok_set_count [simp]: "keys_ok (set_count n c d) = keys_ok d"
  by (cases n) (simp_all add: keys_ok_def)

lemma node_local_set_count [simp]: "node_local m (set_count n c d) = node_local m d"
  by (cases n; cases m) (auto simp: map_of_map_entry split: option.splits)

lemma local_exists: "node_local n d \<Longrightarrow> node_count n d \<noteq> None"
  by (cases n) (auto split: option.splits)

lemma delete_node_refs:
  assumes "keys_ok d" and "node_local n d"
  shows "count_list (fst (delete_node n d)) m + count_list (refs (snd (delete_node n d))) m = count_list (refs d) m"
proof (cases n)
  case (NObject i)
  with assms show ?thesis by simp
next
  case (NChunk i)
  with assms obtain r where r: "map_of (t_chunk d) i = Some r" by (auto split: option.splits)
  from assms(1) have "distinct (map fst (t_chunk d))" by (simp add: keys_ok_def)
  from count_concat_delete [OF this r, of "\<lambda>(_, r). mode_refs (ck_mode r)" m] NChunk r show ?thesis
    by (simp add: refs_def chunk_outs_def)
next
  case (NBlob i)
  with assms obtain r where r: "map_of (t_blob d) i = Some r" by (auto split: option.splits)
  from assms(1) have "distinct (map fst (t_blob d))" by (simp add: keys_ok_def)
  from count_concat_delete [OF this r, of "\<lambda>(_, r). object_refs (bo_object r)" m] NBlob r
    count_split [of "\<lambda>(_, r). NChunk (cr_chunk_id r)" "\<lambda>(b, _). b = i" "t_chunk_map d" m] show ?thesis
    by (simp add: refs_def blob_outs_def map_outs_def split_def)
next
  case (NEntity k)
  with assms obtain r where r: "map_of (t_entity d) k = Some r" by (auto split: option.splits)
  from assms(1) have "distinct (map fst (t_entity d))" by (simp add: keys_ok_def)
  from count_concat_delete [OF this r, of "\<lambda>(_, r). mode_refs (er_mode r)" m] NEntity r
    count_split [of "\<lambda>(_, r). ref_node r" "\<lambda>(e, _). e = k" "t_entity_ref d" m] show ?thesis
    by (simp add: refs_def entity_outs_def ref_outs_def split_def)
next
  case (NCommit i)
  with assms obtain r where r: "map_of (t_commit d) i = Some r" by (auto split: option.splits)
  from assms(1) have "distinct (map fst (t_commit d))" by (simp add: keys_ok_def)
  from count_concat_delete [OF this r, of "\<lambda>(_, r). NEntity (cr_entity r) # mode_refs (cr_mode r)" m] NCommit r
  show ?thesis by (simp add: refs_def commit_outs_def)
qed

lemma delete_node_count:
  assumes "node_local n d"
  shows "node_count m (snd (delete_node n d)) = (if m = n then None else node_count m d)"
  using assms by (cases n; cases m) (auto split: option.splits)

lemma keys_ok_delete_node:
  assumes "keys_ok d" and "node_local n d"
  shows "keys_ok (snd (delete_node n d))"
  using assms by (cases n) (auto simp: keys_ok_def distinct_delete split: option.splits)

section \<open>Dropping references\<close>

text \<open>
  What releasing changes: the counts, the local rows whose last reference went away with the
  rows that cascade from them, and the log. Every other table stays, and a row that stays keeps
  its content.
\<close>

fun same_row :: "db \<Rightarrow> db \<Rightarrow> node \<Rightarrow> bool" where
  "same_row d d' (NObject i) = (map_option (\<lambda>r. r\<lparr>ob_ref_count := 0\<rparr>) (map_of (t_object d) i)
     = map_option (\<lambda>r. r\<lparr>ob_ref_count := 0\<rparr>) (map_of (t_object d') i))"
| "same_row d d' (NChunk i) = (map_option ck_mode (map_of (t_chunk d) i) = map_option ck_mode (map_of (t_chunk d') i))"
| "same_row d d' (NBlob i) = (map_option (\<lambda>r. (bo_size r, bo_object r)) (map_of (t_blob d) i)
     = map_option (\<lambda>r. (bo_size r, bo_object r)) (map_of (t_blob d') i)
     \<and> filter (\<lambda>(b, _). b = i) (t_chunk_map d) = filter (\<lambda>(b, _). b = i) (t_chunk_map d'))"
| "same_row d d' (NEntity k) = (map_option (\<lambda>r. (er_name r, er_type r, er_mode r)) (map_of (t_entity d) k)
     = map_option (\<lambda>r. (er_name r, er_type r, er_mode r)) (map_of (t_entity d') k)
     \<and> filter (\<lambda>(e, _). e = k) (t_entity_ref d) = filter (\<lambda>(e, _). e = k) (t_entity_ref d'))"
| "same_row d d' (NCommit i) = (map_option (\<lambda>r. (cr_entity r, cr_mode r)) (map_of (t_commit d) i)
     = map_option (\<lambda>r. (cr_entity r, cr_mode r)) (map_of (t_commit d') i))"

definition collected :: "db \<Rightarrow> db \<Rightarrow> bool" where
  "collected d d' = (t_head d' = t_head d \<and> t_config d' = t_config d \<and> t_vfs d' = t_vfs d
     \<and> t_fh d' = t_fh d \<and> t_fh_seq d' = t_fh_seq d \<and> t_fh_chunk d' = t_fh_chunk d
     \<and> t_sync_job d' = t_sync_job d \<and> t_queue d' = t_queue d \<and> t_queue_seq d' = t_queue_seq d
     \<and> (\<forall>n. node_exists d' n \<longrightarrow> same_row d d' n)
     \<and> (\<forall>n. node_exists d n \<and> \<not> node_exists d' n \<longrightarrow> node_local n d))"

lemma same_row_refl [simp]: "same_row d d n"
  by (cases n) simp_all

lemma same_row_trans: "same_row a b n \<Longrightarrow> same_row b c n \<Longrightarrow> same_row a c n"
  by (cases n) simp_all

lemma same_row_exists: "same_row d d' n \<Longrightarrow> node_exists d' n \<longleftrightarrow> node_exists d n"
  by (cases n) (auto simp: node_exists_def map_option_case split: option.splits)

lemma same_row_local: "same_row d d' n \<Longrightarrow> node_local n d' \<longleftrightarrow> node_local n d"
  by (cases n) (auto simp: map_option_case split: option.splits)

lemma collected_refl [simp]: "collected d d"
  by (simp add: collected_def)

lemma collected_trans:
  assumes "collected a b" and "collected b c"
  shows "collected a c"
proof -
  have "same_row a c n" if "node_exists c n" for n
  proof -
    from assms(2) that have bc: "same_row b c n" by (simp add: collected_def)
    with that have "node_exists b n" by (simp add: same_row_exists)
    with assms(1) have "same_row a b n" by (simp add: collected_def)
    with bc show ?thesis by (rule same_row_trans [rotated])
  qed
  moreover have "node_local n a" if "node_exists a n" "\<not> node_exists c n" for n
  proof (cases "node_exists b n")
    case True
    with assms(2) that(2) have "node_local n b" by (simp add: collected_def)
    moreover from True assms(1) have "same_row a b n" by (simp add: collected_def)
    ultimately show ?thesis by (simp add: same_row_local)
  next
    case False
    with assms(1) that(1) show ?thesis by (simp add: collected_def)
  qed
  ultimately show ?thesis using assms by (auto simp: collected_def)
qed

lemma collected_set_count: "node_count n d \<noteq> None \<Longrightarrow> collected d (set_count n c d)"
proof -
  assume n: "node_count n d \<noteq> None"
  have "same_row d (set_count n c d) m" for m
    by (cases n; cases m) (auto simp: map_of_map_entry map_option_case split: option.splits)
  then show ?thesis
    using same_row_exists [of d "set_count n c d"] by (cases n) (auto simp: collected_def)
qed

lemma collected_delete_node: "node_local n d \<Longrightarrow> collected d (snd (delete_node n d))"
proof -
  assume n: "node_local n d"
  have "same_row d (snd (delete_node n d)) m" if "m \<noteq> n" for m
    using that by (cases n; cases m) (auto simp: split_def intro!: arg_cong [of _ _ length] filter_cong split: option.splits)
  moreover have "node_exists (snd (delete_node n d)) m \<longleftrightarrow> node_exists d m \<and> m \<noteq> n" for m
    using delete_node_count [OF n, of m] by (simp add: node_exists_def)
  ultimately show ?thesis
    using n by (cases n) (auto simp: collected_def split: option.splits)
qed

lemma release_ok:
  assumes "keys_ok d" and "counts_with ns d"
  shows "\<exists>d'. release ns d = Inr d' \<and> db_ok d' \<and> collected d d'"
  using assms
proof (induction ns d rule: release.induct)
  case (1 d)
  then show ?case by (simp add: db_ok_def)
next
  case (2 n ns d)
  show ?case
  proof (cases "node_count n d")
    case None
    from counts_withD(2) [OF 2(5) None] have False by simp
    then show ?thesis ..
  next
    case (Some c)
    note c = counts_withD(1) [OF 2(5) Some]
    then have c0: "c \<noteq> 0" by simp
    define d1 where "d1 = set_count n (c - 1) d"
    have ex: "node_count n d \<noteq> None" using Some by simp
    have nc1: "node_count m d1 = (if m = n then Some (c - 1) else node_count m d)" for m
      unfolding d1_def by (rule node_count_set_count [OF ex])
    have k1: "keys_ok d1" using 2(4) by (simp add: d1_def)
    have col1: "collected d d1" unfolding d1_def by (rule collected_set_count [OF ex])
    have cnt1: "counts_with ns d1"
    proof (rule counts_withI)
      fix m x assume "node_count m d1 = Some x"
      then show "x = count_list (refs d1) m + count_list ns m"
        using nc1 [of m] c counts_withD(1) [OF 2(5), of m x] by (auto simp: d1_def split: if_splits)
    next
      fix m assume "node_count m d1 = None"
      then show "count_list (refs d1) m + count_list ns m = 0"
        using nc1 [of m] counts_withD(2) [OF 2(5), of m] by (auto simp: d1_def split: if_splits)
    qed
    show ?thesis
    proof (cases "c = 1 \<and> node_local n d")
      case False
      from 2(3) [OF Some c0 d1_def False k1 cnt1] obtain d' where
        "release ns d1 = Inr d'" "db_ok d'" "collected d1 d'" by blast
      with Some c0 False show ?thesis
        using collected_trans [OF col1] by (auto simp: release.simps d1_def Let_def)
    next
      case True
      then have loc: "node_local n d1" by (simp add: d1_def)
      let ?d2 = "snd (delete_node n d1)" and ?outs = "fst (delete_node n d1)"
      have k2: "keys_ok ?d2" by (rule keys_ok_delete_node [OF k1 loc])
      have cnt2: "counts_with (?outs @ ns) ?d2"
      proof (rule counts_withI)
        fix m x assume m: "node_count m ?d2 = Some x"
        then have "node_count m d1 = Some x" "m \<noteq> n"
          using delete_node_count [OF loc, of m] by (auto split: if_splits)
        from counts_withD(1) [OF cnt1 this(1)] delete_node_refs [OF k1 loc, of m]
        show "x = count_list (refs ?d2) m + count_list (?outs @ ns) m" by simp
      next
        fix m assume "node_count m ?d2 = None"
        then have "m = n \<or> node_count m d1 = None"
          using delete_node_count [OF loc, of m] by (auto split: if_splits)
        moreover have "node_count n d1 = Some 0" using nc1 [of n] True by simp
        ultimately have "count_list (refs d1) m = 0 \<and> count_list ns m = 0"
          using counts_withD [OF cnt1] by fastforce
        with delete_node_refs [OF k1 loc, of m]
        show "count_list (refs ?d2) m + count_list (?outs @ ns) m = 0" by simp
      qed
      from 2(2) [OF Some c0 d1_def True k2 cnt2] obtain d' where
        "release (?outs @ ns) ?d2 = Inr d'" "db_ok d'" "collected ?d2 d'" by blast
      with Some c0 True show ?thesis
        using collected_trans [OF col1 collected_trans [OF collected_delete_node [OF loc]]]
        by (auto simp: release.simps d1_def Let_def)
    qed
  qed
qed


section \<open>The references of changed tables\<close>

lemma outs_append [simp]:
  "chunk_outs (t @ u) = chunk_outs t @ chunk_outs u" "blob_outs (t' @ u') = blob_outs t' @ blob_outs u'"
  "map_outs (m @ n) = map_outs m @ map_outs n" "entity_outs (et @ eu) = entity_outs et @ entity_outs eu"
  "ref_outs (rt @ ru) = ref_outs rt @ ref_outs ru" "commit_outs (ct @ cu) = commit_outs ct @ commit_outs cu"
  "head_outs (ht @ hu) = head_outs ht @ head_outs hu" "vfs_outs (vt @ vu) = vfs_outs vt @ vfs_outs vu"
  "fh_outs (ft @ fu) = fh_outs ft @ fh_outs fu" "queue_outs (qt @ qu) = queue_outs qt @ queue_outs qu"
  by (simp_all add: chunk_outs_def blob_outs_def map_outs_def entity_outs_def ref_outs_def commit_outs_def
      head_outs_def vfs_outs_def fh_outs_def queue_outs_def)

lemma outs_Cons [simp]:
  "chunk_outs (p # t) = mode_refs (ck_mode (snd p)) @ chunk_outs t"
  "blob_outs (b # t') = object_refs (bo_object (snd b)) @ blob_outs t'"
  "map_outs (m # ms) = NChunk (cr_chunk_id (snd m)) # map_outs ms"
  "entity_outs (e # es) = mode_refs (er_mode (snd e)) @ entity_outs es"
  "ref_outs (r # rs) = ref_node (snd r) # ref_outs rs"
  "commit_outs (c # cs) = NEntity (cr_entity (snd c)) # mode_refs (cr_mode (snd c)) @ commit_outs cs"
  "head_outs (h # hs) = NCommit (snd h) # head_outs hs" "vfs_outs (v # vs) = NEntity (vf_key (snd v)) # vfs_outs vs"
  "fh_outs (f # fs) = NChunk (snd f) # fh_outs fs" "queue_outs (q # qs) = queue_refs (q_item (snd q)) @ queue_outs qs"
  by (simp_all add: chunk_outs_def blob_outs_def map_outs_def entity_outs_def ref_outs_def commit_outs_def
      head_outs_def vfs_outs_def fh_outs_def queue_outs_def split: prod.split)

lemma outs_Nil [simp]:
  "chunk_outs [] = []" "blob_outs [] = []" "map_outs [] = []" "entity_outs [] = []" "ref_outs [] = []"
  "commit_outs [] = []" "head_outs [] = []" "vfs_outs [] = []" "fh_outs [] = []" "queue_outs [] = []"
  by (simp_all add: chunk_outs_def blob_outs_def map_outs_def entity_outs_def ref_outs_def commit_outs_def
      head_outs_def vfs_outs_def fh_outs_def queue_outs_def)

text \<open>Changing one row of a table changes the references of that row.\<close>

lemma outs_map_entry:
  "distinct (map fst t) \<Longrightarrow> map_of t k = Some r \<Longrightarrow>
    count_list (chunk_outs (AList.map_entry k g t)) n + count_list (mode_refs (ck_mode r)) n
    = count_list (chunk_outs t) n + count_list (mode_refs (ck_mode (g r))) n"
  "distinct (map fst tb) \<Longrightarrow> map_of tb kb = Some rb \<Longrightarrow>
    count_list (blob_outs (AList.map_entry kb gb tb)) n + count_list (object_refs (bo_object rb)) n
    = count_list (blob_outs tb) n + count_list (object_refs (bo_object (gb rb))) n"
  "distinct (map fst te) \<Longrightarrow> map_of te ke = Some re \<Longrightarrow>
    count_list (entity_outs (AList.map_entry ke ge te)) n + count_list (mode_refs (er_mode re)) n
    = count_list (entity_outs te) n + count_list (mode_refs (er_mode (ge re))) n"
  using count_concat_map_entry [of t k r "\<lambda>(_, r). mode_refs (ck_mode r)" g n]
    count_concat_map_entry [of tb kb rb "\<lambda>(_, r). object_refs (bo_object r)" gb n]
    count_concat_map_entry [of te ke re "\<lambda>(_, r). mode_refs (er_mode r)" ge n]
  by (simp_all add: chunk_outs_def blob_outs_def entity_outs_def)

section \<open>Statements\<close>

text \<open>
  A statement that turned the rows into \<open>d\<close>, with references \<open>news\<close> added and \<open>olds\<close>
  dropped: the foreign keys of the new rows are checked, the triggers count up the new
  references and then drop the old ones.
\<close>

definition exec_stmt :: "node list \<Rightarrow> node list \<Rightarrow> db \<Rightarrow> db_error + db" where
  "exec_stmt news olds d = (if list_all (node_exists d) news then release olds (retain news d)
     else Inl (SqlxError ForeignKeyViolation))"

lemma node_count_retain:
  "node_count m (retain ns d) = map_option (\<lambda>c. c + count_list ns m) (node_count m d)"
proof (induction ns arbitrary: d)
  case (Cons n ns)
  show ?case
  proof (cases "node_count n d")
    case None
    then have "node_count m d = None" if "m = n" using that by simp
    with Cons None show ?thesis by (cases "node_count m d") auto
  next
    case (Some c)
    then have "node_count n d \<noteq> None" by simp
    from node_count_set_count [OF this] Cons Some show ?thesis by (cases "node_count m d") auto
  qed
qed (simp add: option.map_ident)

lemma refs_retain [simp]: "refs (retain ns d) = refs d"
  by (induction ns arbitrary: d) (auto split: option.split)

lemma keys_ok_retain [simp]: "keys_ok (retain ns d) = keys_ok d"
  by (induction ns arbitrary: d) (auto split: option.split)

lemma collected_retain: "collected d (retain ns d)"
proof (induction ns arbitrary: d)
  case (Cons n ns)
  then show ?case
    by (auto split: option.split intro: collected_trans [OF collected_set_count])
qed simp

lemma db_ok_counts: "db_ok d \<Longrightarrow> node_count n d = Some c \<Longrightarrow> c = count_list (refs d) n"
  "db_ok d \<Longrightarrow> node_count n d = None \<Longrightarrow> count_list (refs d) n = 0"
  by (auto simp: db_ok_def dest: counts_withD)

lemma db_okI:
  assumes "keys_ok d" and "\<And>n c. node_count n d = Some c \<Longrightarrow> c = count_list (refs d) n"
    and "\<And>n. node_count n d = None \<Longrightarrow> count_list (refs d) n = 0"
  shows "db_ok d"
  unfolding db_ok_def using assms by (auto intro!: counts_withI)

lemma same_refs_ok:
  assumes "db_ok d" and "keys_ok d'" and "\<And>n. node_count n d' = node_count n d"
    and "\<And>n. count_list (refs d') n = count_list (refs d) n"
  shows "db_ok d'"
  using assms(2) by (rule db_okI) (auto simp: assms(3,4) dest: db_ok_counts [OF assms(1)])

text \<open>A new counted row starts with no references.\<close>

lemma new_row_ok:
  assumes "db_ok d" and "keys_ok d'" and "node_count a d = None"
    and "\<And>n. node_count n d' = (if n = a then Some 0 else node_count n d)"
    and "\<And>n. count_list (refs d') n = count_list (refs d) n"
  shows "db_ok d'"
  using assms(2) by (rule db_okI) (use assms(3) in \<open>auto simp: assms(4,5) dest: db_ok_counts [OF assms(1)] split: if_splits\<close>)

lemma exec_stmt_ok:
  assumes ok: "db_ok d" and keys: "keys_ok d1"
    and balance: "\<And>m. count_list (refs d1) m + count_list olds m = count_list (refs d) m + count_list news m"
    and nodes: "\<And>m. node_count m d1 = node_count m d \<or> (node_count m d = None \<and> node_count m d1 = Some 0)"
    and run: "list_all (node_exists d1) news"
  shows "\<exists>d'. exec_stmt news olds d1 = Inr d' \<and> db_ok d' \<and> collected d1 d'"
proof -
  have "counts_with olds (retain news d1)"
  proof (rule counts_withI)
    fix n c assume "node_count n (retain news d1) = Some c"
    then obtain c0 where "node_count n d1 = Some c0" "c = c0 + count_list news n"
      by (auto simp: node_count_retain)
    with nodes [of n] balance [of n] db_ok_counts [OF ok, of n]
    show "c = count_list (refs (retain news d1)) n + count_list olds n" by auto
  next
    fix n assume "node_count n (retain news d1) = None"
    then have none: "node_count n d1 = None" by (simp add: node_count_retain)
    with run have "n \<notin> set news" by (auto simp: list_all_iff node_exists_def)
    then have "count_list news n = 0" by (simp add: count_list_0_iff)
    with none nodes [of n] balance [of n] db_ok_counts(2) [OF ok, of n]
    show "count_list (refs (retain news d1)) n + count_list olds n = 0" by auto
  qed
  from release_ok [OF _ this] keys obtain d' where
    "release olds (retain news d1) = Inr d'" "db_ok d'" "collected (retain news d1) d'" by auto
  with run collected_trans [OF collected_retain] show ?thesis by (auto simp: exec_stmt_def)
qed

lemma exec_stmt_keeps:
  assumes "db_ok d" and "keys_ok d1"
    and "\<And>m. count_list (refs d1) m + count_list olds m = count_list (refs d) m + count_list news m"
    and "\<And>m. node_count m d1 = node_count m d \<or> (node_count m d = None \<and> node_count m d1 = Some 0)"
    and "exec_stmt news olds d1 = Inr d'"
  shows "db_ok d' \<and> collected d1 d' \<and> list_all (node_exists d1) news"
proof -
  from assms(5) have "list_all (node_exists d1) news" by (auto simp: exec_stmt_def split: if_splits)
  with exec_stmt_ok [OF assms(1-4) this] assms(5) show ?thesis by auto
qed

text \<open>Operations that keep the invariant, and the combinators that compose them.\<close>

definition tx_keeps :: "'a tx \<Rightarrow> bool" where
  "tx_keeps m = (\<forall>d a d'. db_ok d \<longrightarrow> m d = Inr (a, d') \<longrightarrow> db_ok d')"

lemma tx_keepsD: "tx_keeps m \<Longrightarrow> db_ok d \<Longrightarrow> m d = Inr (a, d') \<Longrightarrow> db_ok d'"
  by (auto simp: tx_keeps_def)

lemma tx_keeps_simps [wf_intros]:
  "tx_keeps (tx_return a)" "tx_keeps (tx_fail e)" "tx_keeps (tx_get f)" "tx_keeps (tx_some e v)"
  "tx_keeps (affected_one n)"
  by (auto simp: tx_keeps_def tx_some_def affected_one_def split: option.splits if_splits)

lemma tx_keeps_bind [wf_intros]:
  "tx_keeps m \<Longrightarrow> (\<And>a. tx_keeps (f a)) \<Longrightarrow> tx_keeps (tx_bind m f)"
  unfolding tx_keeps_def tx_bind_Inr by blast

lemma tx_keeps_if [wf_intros]: "tx_keeps m \<Longrightarrow> tx_keeps n \<Longrightarrow> tx_keeps (if b then m else n)"
  by simp

lemma tx_keeps_for [wf_intros]: "(\<And>x. tx_keeps (f x)) \<Longrightarrow> tx_keeps (tx_for xs f)"
  by (induction xs) (auto intro: wf_intros)

lemma db_ok_empty: "db_ok empty_db"
proof -
  have "node_count n empty_db = None" for n by (cases n) (simp_all add: empty_db_def)
  moreover have "refs empty_db = []"
    by (simp add: refs_def empty_db_def chunk_outs_def blob_outs_def map_outs_def entity_outs_def
        ref_outs_def commit_outs_def head_outs_def vfs_outs_def fh_outs_def job_outs_def queue_outs_def)
  ultimately show ?thesis by (simp add: db_ok_def counts_with_def keys_ok_def empty_db_def)
qed

end
