(* ===== verification/Paths.thy ===== *)
theory Paths
  imports Ids Prelude
begin

text \<open>
  Paths inside the file system (\<open>janus-vfs/src/vfs/path.rs\<close>). The crate \<open>typed_path\<close> is the
  parameter \<open>path_lib\<close>: its functions on the text of a Unix path.
\<close>

section \<open>Operations\<close>

record path_lib =
  pl_normalize :: "str \<Rightarrow> str"
  pl_is_absolute :: "str \<Rightarrow> bool"
  pl_is_valid :: "str \<Rightarrow> bool"
  pl_components :: "str \<Rightarrow> str list"
  pl_file_name :: "str \<Rightarrow> str option"
  pl_parent :: "str \<Rightarrow> str option"
  pl_join :: "str \<Rightarrow> str \<Rightarrow> str"

datatype path_error = PathInvalid | PathNameError name_error | PathNotAbsolute

fun check_components :: "path_lib \<Rightarrow> str list \<Rightarrow> name_error + unit" where
  "check_components L [] = Inr ()"
| "check_components L (c # cs) =
     (case pl_file_name L c of
        None \<Rightarrow> check_components L cs
      | Some file_name \<Rightarrow>
          (case check_valid_filename file_name of Inl e \<Rightarrow> Inl e | Inr _ \<Rightarrow> check_components L cs))"

definition sanitize_path :: "path_lib \<Rightarrow> str \<Rightarrow> path_error + str" where
  "sanitize_path L path =
     (let normalized = pl_normalize L path
      in if \<not> pl_is_absolute L normalized then Inl PathNotAbsolute
         else if \<not> pl_is_valid L normalized then Inl PathInvalid
         else case check_components L (pl_components L normalized) of
                Inl e \<Rightarrow> Inl (PathNameError e) | Inr _ \<Rightarrow> Inr normalized)"

definition ROOT_PATH :: str where
  "ROOT_PATH = [47]"

definition path_is_root :: "str \<Rightarrow> bool" where
  "path_is_root p = (p = [47] \<or> p = [])"

definition path_join :: "path_lib \<Rightarrow> str \<Rightarrow> str \<Rightarrow> str" where
  "path_join L p name = pl_join L p name"

text \<open>\<open>VfsPath::split\<close>; a file name that is not accepted is a panic.\<close>

definition path_split :: "path_lib \<Rightarrow> str \<Rightarrow> (str \<times> str option) outcome" where
  "path_split L p =
     (let parent = (case pl_parent L p of
            Some q \<Rightarrow> if q = [] \<or> q = [47] then ROOT_PATH else q
          | None \<Rightarrow> ROOT_PATH)
      in case pl_file_name L p of
           None \<Rightarrow> Returns (parent, None)
         | Some n \<Rightarrow> (case check_valid_filename n of Inl _ \<Rightarrow> Panics | Inr _ \<Rightarrow> Returns (parent, Some n)))"

text \<open>\<open>VfsPath::parts\<close>: the root and then each prefix of the path.\<close>

fun path_parts_from :: "path_lib \<Rightarrow> str \<Rightarrow> str list \<Rightarrow> str list outcome" where
  "path_parts_from L path [] = Returns []"
| "path_parts_from L path (name # names) =
     (case check_valid_filename name of
        Inl _ \<Rightarrow> Panics
      | Inr _ \<Rightarrow>
          let path' = path_join L path name
          in case path_parts_from L path' names of Panics \<Rightarrow> Panics | Returns ps \<Rightarrow> Returns (path' # ps))"

definition path_parts :: "path_lib \<Rightarrow> str \<Rightarrow> str list outcome" where
  "path_parts L p =
     (case pl_components L p of
        [] \<Rightarrow> Returns []
      | _ # names \<Rightarrow>
          (case path_parts_from L ROOT_PATH names of Panics \<Rightarrow> Panics | Returns ps \<Rightarrow> Returns (ROOT_PATH # ps)))"

end
