(* ===== verification/Queue.thy ===== *)
theory Queue
  imports StoreInv Paths
begin

text \<open>
  The environment of a transaction, remote objects (\<open>janus-vfs/src/object/mod.rs\<close>), and the
  queue of a push (\<open>sync/push.rs\<close>, with the queue helpers of the chunk, blob, entity, commit
  and config modules).
\<close>

section \<open>The environment\<close>

text \<open>
  What is not code of this repository, or belongs to the crate \<open>janus-io\<close>: the hash, the
  formats, the instants a timestamp may have, the text of a UUID and of an integer, the hash
  of an entity id, the remote storage with the parser of its object ids, and paths.
\<close>

record env =
  ev_hasher :: hasher
  ev_meta :: metadata_format
  ev_blob :: blob_format
  ev_commit :: commit_format
  ev_entity :: entity_format
  ev_config :: config_format
  ev_millis :: "timestamp \<Rightarrow> bool"
  ev_uuid_text :: "bytes \<Rightarrow> bytes"
  ev_uuid_parse :: "bytes \<Rightarrow> bytes option"
  ev_decimal :: "timestamp \<Rightarrow> bytes"
  ev_xxh :: "bytes \<Rightarrow> u64"
  ev_remote :: remote_storage
  ev_parse_oid :: "bytes \<Rightarrow> remote_oid option"
  ev_path :: path_lib

definition tx_io :: "io_error + 'a \<Rightarrow> 'a tx" where
  "tx_io r = (case r of Inl e \<Rightarrow> tx_fail (DbIoError e) | Inr a \<Rightarrow> tx_return a)"

text \<open>\<open>fetch_one\<close>.\<close>

definition tx_row :: "'a option \<Rightarrow> 'a tx" where
  "tx_row v = tx_some (SqlxError RowNotFound) v"

section \<open>Objects\<close>

record object =
  obj_id :: object_id
  obj_remote_location :: bytes

datatype object_create_result = ObjectNew object_id | ObjectExisting object

definition try_to_remote_oid :: "env \<Rightarrow> object \<Rightarrow> remote_oid option" where
  "try_to_remote_oid E ob = ev_parse_oid E (obj_remote_location ob)"

definition object_of_row :: "object_id \<times> object_row \<Rightarrow> object" where
  "object_of_row = (\<lambda>(i, r). \<lparr>obj_id = i, obj_remote_location = ob_location r\<rparr>)"

definition object_by_id :: "object_id \<Rightarrow> object option tx" where
  "object_by_id i = tx_get (\<lambda>d. map_option (\<lambda>r. object_of_row (i, r)) (map_of (t_object d) i))"

definition object_by_remote_location :: "bytes \<Rightarrow> object option tx" where
  "object_by_remote_location loc =
     tx_get (\<lambda>d. map_option object_of_row (find (\<lambda>(_, r). ob_location r = loc) (t_object d)))"

definition list_objects :: "object list tx" where
  "list_objects = tx_get (\<lambda>d. map object_of_row (t_object d))"

definition mark_object_seen :: "object_id \<Rightarrow> timestamp \<Rightarrow> unit tx" where
  "mark_object_seen i now d = Inr ((), d\<lparr>t_object :=
     AList.map_entry i (\<lambda>r. r\<lparr>ob_last_seen := now, ob_error_count := 0\<rparr>) (t_object d)\<rparr>)"

text \<open>
  The id of a new row of a table with an \<open>INTEGER PRIMARY KEY\<close>: one more than the largest.
  (At the largest integer SQLite looks for a free id; here the insert fails.)
\<close>

definition next_rowid :: "(u64, 'r) table \<Rightarrow> u64" where
  "next_rowid t = fold max (map fst t) 0 + 1"

definition insert_object :: "bytes \<Rightarrow> timestamp \<Rightarrow> object_id tx" where
  "insert_object loc first_seen d =
     (let i = next_rowid (t_object d)
      in if map_of (t_object d) i \<noteq> None \<or> list_ex (\<lambda>(_, r). ob_location r = loc) (t_object d)
         then Inl (SqlxError UniqueViolation)
         else Inr (i, d\<lparr>t_object := t_object d @ [(i, \<lparr>ob_location = loc, ob_ref_count = 0,
                ob_first_seen = first_seen, ob_last_seen = first_seen, ob_error_count = 0\<rparr>)]\<rparr>))"

definition create_or_mark_object :: "bytes \<Rightarrow> timestamp \<Rightarrow> object_create_result tx" where
  "create_or_mark_object remote_location seen =
     tx_bind (object_by_remote_location remote_location) (\<lambda>existing.
       case existing of
         Some ob \<Rightarrow> tx_bind (mark_object_seen (obj_id ob) seen) (\<lambda>_. tx_return (ObjectExisting ob))
       | None \<Rightarrow> tx_bind (insert_object remote_location seen) (\<lambda>i. tx_return (ObjectNew i)))"

definition mark_object_error :: "object_id list \<Rightarrow> unit tx" where
  "mark_object_error object_ids = tx_for object_ids (\<lambda>i d. Inr ((), d\<lparr>t_object :=
     AList.map_entry i (\<lambda>r. r\<lparr>ob_error_count := Suc (ob_error_count r)\<rparr>) (t_object d)\<rparr>))"

text \<open>
  The foreign keys to \<open>object\<close>, that of the configuration included, must hold when rows of
  \<open>object\<close> have been deleted.
\<close>

definition config_refs :: "db \<Rightarrow> node list" where
  "config_refs d = concat (map (\<lambda>r. mode_refs (cfr_mode r)) (t_config d))"

definition object_keys_hold :: "db \<Rightarrow> bool" where
  "object_keys_hold d = list_all (\<lambda>n. case n of NObject _ \<Rightarrow> node_exists d n | _ \<Rightarrow> True) (refs d @ config_refs d)"

definition delete_gone_objects :: "nat \<Rightarrow> nat tx" where
  "delete_gone_objects error_threshold d =
     (let gone = (\<lambda>(_, r). ob_ref_count r = 0 \<and> error_threshold \<le> ob_error_count r);
          d1 = d\<lparr>t_object := filter (\<lambda>p. \<not> gone p) (t_object d)\<rparr>
      in if object_keys_hold d1 then Inr (length (filter gone (t_object d)), d1)
         else Inl (SqlxError ForeignKeyViolation))"

section \<open>Heads\<close>

text \<open>The column \<open>name\<close> of \<open>head\<close> compares ASCII letters without case (\<open>COLLATE NOCASE\<close>).\<close>

definition nocase :: "str \<Rightarrow> str" where
  "nocase s = map (\<lambda>c. if 65 \<le> c \<and> c \<le> 90 then c + 32 else c) s"

definition head_matches :: "head \<Rightarrow> head \<Rightarrow> bool" where
  "head_matches h row = (nocase (head_name row) = nocase (head_name h) \<and> is_tag row = is_tag h)"

definition current_commit_id :: "head \<Rightarrow> commit_id option tx" where
  "current_commit_id h = tx_get (\<lambda>d. map_option snd (find (\<lambda>(row, _). head_matches h row) (t_head d)))"

section \<open>The queue\<close>

datatype job_item =
    JobChunk content_id
  | JobBlob content_id
  | JobEntity entity_key entity_type
  | JobCommit commit_id
  | JobConfig bytes

fun stored_item :: "job_item \<Rightarrow> queue_item" where
  "stored_item (JobChunk c) = QChunk c"
| "stored_item (JobBlob b) = QBlob b"
| "stored_item (JobEntity k _) = QEntity k"
| "stored_item (JobCommit c) = QCommit c"
| "stored_item (JobConfig bs) = QConfig bs"

text \<open>\<open>INSERT OR IGNORE\<close>: a row that violates \<open>UNIQUE\<close> or \<open>CHECK\<close> is skipped.\<close>

definition enqueue_sync_job_item :: "job_item \<Rightarrow> u64 \<Rightarrow> bool tx" where
  "enqueue_sync_job_item item estimated_size d =
     (let it = stored_item item
      in if \<not> 0 < sint estimated_size
            \<or> (queue_refs it \<noteq> [] \<and> list_ex (\<lambda>(_, r). q_item r = it) (t_queue d))
         then Inr (False, d)
         else let i = Suc (t_queue_seq d);
                  d1 = d\<lparr>t_queue := t_queue d @ [(i, \<lparr>q_item = it, q_estimated_size = estimated_size,
                         q_pending = False\<rparr>)], t_queue_seq := i\<rparr>
              in case exec_stmt (queue_refs it) [] d1 of Inl e \<Rightarrow> Inl e | Inr d2 \<Rightarrow> Inr (True, d2))"

definition delete_queue_item :: "queue_item \<Rightarrow> nat tx" where
  "delete_queue_item it d =
     (let hit = (\<lambda>(_, r). q_item r = it);
          d1 = d\<lparr>t_queue := filter (\<lambda>p. \<not> hit p) (t_queue d)\<rparr>
      in case exec_stmt [] (queue_outs (filter hit (t_queue d))) d1 of
           Inl e \<Rightarrow> Inl e | Inr d2 \<Rightarrow> Inr (length (filter hit (t_queue d)), d2))"

definition pend_queue_item :: "queue_item \<Rightarrow> nat tx" where
  "pend_queue_item it d =
     (let hit = (\<lambda>(_, r). q_item r = it \<and> \<not> q_pending r)
      in Inr (length (filter hit (t_queue d)),
              d\<lparr>t_queue := map (\<lambda>(i, r). if hit (i, r) then (i, r\<lparr>q_pending := True\<rparr>) else (i, r)) (t_queue d)\<rparr>))"

definition remove_sync_job_item :: "queue_item \<Rightarrow> unit tx" where
  "remove_sync_job_item it = tx_bind (delete_queue_item it) affected_one"

definition mark_sync_job_item_pending :: "queue_item \<Rightarrow> unit tx" where
  "mark_sync_job_item_pending it = tx_bind (pend_queue_item it) affected_one"

definition reset_pending_job_items :: "unit tx" where
  "reset_pending_job_items d =
     Inr ((), d\<lparr>t_queue := map (\<lambda>(i, r). (i, r\<lparr>q_pending := False\<rparr>)) (t_queue d)\<rparr>)"

text \<open>Deleting the job row deletes the whole queue (trigger \<open>sync_job_gc\<close>).\<close>

definition clear_sync_job :: "unit tx" where
  "clear_sync_job d =
     (if t_sync_job d = [] then Inr ((), d)
      else case exec_stmt [] (queue_outs (t_queue d) @ job_outs (t_sync_job d))
                  (d\<lparr>t_sync_job := [], t_queue := []\<rparr>) of
             Inl e \<Rightarrow> Inl e | Inr d2 \<Rightarrow> Inr ((), d2))"

definition insert_sync_job :: "timestamp \<Rightarrow> commit_id \<Rightarrow> unit tx" where
  "insert_sync_job created i d =
     (if t_sync_job d \<noteq> [] then Inl (SqlxError (Aborted ''sync_job: only a single row allowed at a time''))
      else case exec_stmt [NCommit i] [] (d\<lparr>t_sync_job := [(created, i)]\<rparr>) of
             Inl e \<Rightarrow> Inl e | Inr d2 \<Rightarrow> Inr ((), d2))"

definition create_sync_job :: "str \<Rightarrow> timestamp \<Rightarrow> unit tx" where
  "create_sync_job branch_name now =
     tx_bind (current_commit_id (Branch branch_name)) (\<lambda>c.
     tx_bind (tx_some (DataError (HeadEntryNotFound (Branch branch_name))) c) (\<lambda>i.
     insert_sync_job now i))"

definition has_push_items :: "bool tx" where
  "has_push_items = tx_get (\<lambda>d.
     list_ex (\<lambda>(_, r). mode_local (er_mode r) \<and> 0 < er_ref_count r) (t_entity d)
     \<or> list_ex (\<lambda>(_, r). bo_object r = None \<and> 0 < bo_ref_count r) (t_blob d)
     \<or> list_ex (\<lambda>(_, r). mode_local (ck_mode r) \<and> 0 < ck_ref_count r) (t_chunk d)
     \<or> list_ex (\<lambda>(_, r). mode_local (cr_mode r) \<and> 0 < cr_ref_count r) (t_commit d)
     \<or> list_ex (\<lambda>r. mode_local (cfr_mode r)) (t_config d))"

text \<open>The item columns of a queue row; the type of an entity is joined from its table.\<close>

definition queue_row_of :: "nat \<Rightarrow> queue_item tx" where
  "queue_row_of i = tx_bind (tx_get (\<lambda>d. map_option q_item (map_of (t_queue d) i))) tx_row"

definition chunk_item :: "nat \<Rightarrow> content_id tx" where
  "chunk_item i = tx_bind (queue_row_of i) (\<lambda>it. case it of QChunk c \<Rightarrow> tx_return c
     | _ \<Rightarrow> tx_fail (DataError (ConversionError ''chunk_id is missing'')))"

definition blob_item :: "nat \<Rightarrow> content_id tx" where
  "blob_item i = tx_bind (queue_row_of i) (\<lambda>it. case it of QBlob b \<Rightarrow> tx_return b
     | _ \<Rightarrow> tx_fail (DataError (ConversionError ''blob_id is missing'')))"

definition commit_item :: "nat \<Rightarrow> commit_id tx" where
  "commit_item i = tx_bind (queue_row_of i) (\<lambda>it. case it of QCommit c \<Rightarrow> tx_return c
     | _ \<Rightarrow> tx_fail (DataError (ConversionError ''commit_id is missing'')))"

definition config_item :: "nat \<Rightarrow> bytes tx" where
  "config_item i = tx_bind (queue_row_of i) (\<lambda>it. case it of QConfig bs \<Rightarrow> tx_return bs
     | _ \<Rightarrow> tx_fail (DataError (ConversionError ''config is missing'')))"

definition entity_item :: "nat \<Rightarrow> (entity_key \<times> entity_type) tx" where
  "entity_item i = tx_bind (queue_row_of i) (\<lambda>it. case it of
       QEntity k \<Rightarrow> tx_bind (tx_get (\<lambda>d. map_option (\<lambda>r. (k, er_type r)) (map_of (t_entity d) k))) tx_row
     | _ \<Rightarrow> tx_row None)"

text \<open>The first row of the largest estimated size among those not pending and not too large.\<close>

definition queue_candidates :: "u64 option \<Rightarrow> db \<Rightarrow> (nat \<times> queue_row) list" where
  "queue_candidates max_estimated_size d =
     (let limit = min (case max_estimated_size of Some m \<Rightarrow> m | None \<Rightarrow> - 1) 0x7FFFFFFFFFFFFFFF
      in filter (\<lambda>(_, r). \<not> q_pending r \<and> sint (q_estimated_size r) \<le> sint limit) (t_queue d))"

definition next_queue_row :: "u64 option \<Rightarrow> db \<Rightarrow> (nat \<times> queue_row) option" where
  "next_queue_row max_estimated_size d =
     first_opt (sort_key (\<lambda>(_, r). - sint (q_estimated_size r)) (queue_candidates max_estimated_size d))"

definition next_sync_item :: "u64 option \<Rightarrow> job_item option tx" where
  "next_sync_item max_estimated_size =
     tx_bind (tx_get (next_queue_row max_estimated_size)) (\<lambda>row.
       case row of
         None \<Rightarrow> tx_return None
       | Some (i, r) \<Rightarrow>
           (case q_item r of
              QChunk _ \<Rightarrow> tx_bind (chunk_item i) (\<lambda>c. tx_return (Some (JobChunk c)))
            | QBlob _ \<Rightarrow> tx_bind (blob_item i) (\<lambda>b. tx_return (Some (JobBlob b)))
            | QEntity _ \<Rightarrow> tx_bind (entity_item i) (\<lambda>(k, T). tx_return (Some (JobEntity k T)))
            | QCommit _ \<Rightarrow> tx_bind (commit_item i) (\<lambda>c. tx_return (Some (JobCommit c)))
            | QConfig _ \<Rightarrow> tx_bind (config_item i) (\<lambda>bs. tx_return (Some (JobConfig bs)))))"

section \<open>The invariant is kept\<close>

lemma node_count_other [simp]:
  "node_count n (d\<lparr>t_queue := q\<rparr>) = node_count n d" "node_count n (d\<lparr>t_queue_seq := s\<rparr>) = node_count n d"
  "node_count n (d\<lparr>t_sync_job := j\<rparr>) = node_count n d" "node_count n (d\<lparr>t_head := h\<rparr>) = node_count n d"
  "node_count n (d\<lparr>t_vfs := v\<rparr>) = node_count n d" "node_count n (d\<lparr>t_fh := f\<rparr>) = node_count n d"
  "node_count n (d\<lparr>t_fh_seq := fs\<rparr>) = node_count n d" "node_count n (d\<lparr>t_fh_chunk := fc\<rparr>) = node_count n d"
  "node_count n (d\<lparr>t_config := c\<rparr>) = node_count n d" "node_count n (d\<lparr>t_change_log := l\<rparr>) = node_count n d"
  "node_count n (d\<lparr>t_chunk_map := cm\<rparr>) = node_count n d" "node_count n (d\<lparr>t_entity_ref := er\<rparr>) = node_count n d"
  by (cases n; simp)+

lemma count_queue_split:
  "count_list (queue_outs (filter P t)) n + count_list (queue_outs (filter (\<lambda>x. \<not> P x) t)) n
   = count_list (queue_outs t) n"
  by (induction t) (auto simp: queue_outs_def)

lemma tx_keeps_io [wf_intros]: "tx_keeps (tx_io r)"
  by (simp add: tx_io_def wf_intros split: sum.split)

lemma tx_keeps_row [wf_intros]: "tx_keeps (tx_row r)"
  by (simp add: tx_row_def wf_intros)

lemma tx_keeps_stmt:
  assumes "\<And>d. db_ok d \<Longrightarrow> keys_ok (f d)"
    and "\<And>d m. db_ok d \<Longrightarrow> count_list (refs (f d)) m + count_list (olds d) m = count_list (refs d) m + count_list (news d) m"
    and "\<And>d m. db_ok d \<Longrightarrow> node_count m (f d) = node_count m d \<or> (node_count m d = None \<and> node_count m (f d) = Some 0)"
    and "db_ok d" and "exec_stmt (news d) (olds d) (f d) = Inr d'"
  shows "db_ok d'"
  using exec_stmt_keeps [OF assms(4) assms(1) [OF assms(4)] assms(2) [OF assms(4)] assms(3) [OF assms(4)] assms(5)] by blast

lemma count_list_map_entry_object: "refs (d\<lparr>t_object := t\<rparr>) = refs d"
  by (simp add: refs_def)

lemma object_update_ok:
  assumes "db_ok d" and "\<And>r. ob_ref_count (f r) = ob_ref_count r"
  shows "db_ok (d\<lparr>t_object := AList.map_entry i f (t_object d)\<rparr>)"
proof -
  have "node_count n (d\<lparr>t_object := AList.map_entry i f (t_object d)\<rparr>) = node_count n d" for n
    using assms(2) by (cases n) (auto simp: map_of_map_entry split: option.splits)
  with assms(1) show ?thesis
    by (intro same_refs_ok [OF assms(1)]) (simp_all add: count_list_map_entry_object keys_ok_def db_ok_def)
qed

lemma list_objects_keeps [wf_intros]:
  "tx_keeps list_objects" "tx_keeps (object_by_id i)" "tx_keeps (object_by_remote_location l)"
  "tx_keeps (current_commit_id h)"
  by (simp_all add: list_objects_def object_by_id_def object_by_remote_location_def current_commit_id_def wf_intros)

lemma mark_object_keeps [wf_intros]:
  "tx_keeps (mark_object_seen i now)" "tx_keeps (mark_object_error is)"
proof -
  show "tx_keeps (mark_object_seen i now)"
    by (auto simp: tx_keeps_def mark_object_seen_def intro!: object_update_ok)
  have "tx_keeps (\<lambda>d. Inr ((), d\<lparr>t_object := AList.map_entry i (\<lambda>r. r\<lparr>ob_error_count := Suc (ob_error_count r)\<rparr>) (t_object d)\<rparr>))" for i
    by (auto simp: tx_keeps_def intro!: object_update_ok)
  then show "tx_keeps (mark_object_error is)" by (simp add: mark_object_error_def tx_keeps_for)
qed

lemma insert_object_keeps [wf_intros]: "tx_keeps (insert_object l t)"
  unfolding tx_keeps_def
proof (intro allI impI)
  fix d a d' assume ok: "db_ok d" and run: "insert_object l t d = Inr (a, d')"
  then obtain r where r: "map_of (t_object d) a = None" "d' = d\<lparr>t_object := t_object d @ [(a, r)]\<rparr>" "ob_ref_count r = 0"
    by (auto simp: insert_object_def Let_def split: if_splits)
  have nc: "node_count n d' = (if n = NObject a then Some 0 else node_count n d)" for n
    using r by (cases n) (auto simp: map_add_def split: option.splits)
  show "db_ok d'"
    by (rule new_row_ok [OF ok _ _ nc])
      (use ok r in \<open>auto simp: count_list_map_entry_object db_ok_def keys_ok_def map_of_eq_None_iff\<close>)
qed

lemma create_or_mark_object_keeps [wf_intros]: "tx_keeps (create_or_mark_object l t)"
  unfolding create_or_mark_object_def by (auto intro!: wf_intros split: option.split)

lemma keys_ok_queue_filter: "keys_ok d \<Longrightarrow> keys_ok (d\<lparr>t_queue := filter P (t_queue d)\<rparr>)"
  by (auto simp: keys_ok_def distinct_map_filter)

lemma enqueue_keeps [wf_intros]: "tx_keeps (enqueue_sync_job_item item n)"
  unfolding tx_keeps_def
proof (intro allI impI)
  fix d a d' assume ok: "db_ok d" and run: "enqueue_sync_job_item item n d = Inr (a, d')"
  let ?it = "stored_item item" and ?i = "Suc (t_queue_seq d)"
  let ?d1 = "d\<lparr>t_queue := t_queue d @ [(?i, \<lparr>q_item = ?it, q_estimated_size = n, q_pending = False\<rparr>)], t_queue_seq := ?i\<rparr>"
  show "db_ok d'"
  proof (cases "d' = d")
    case False
    with run have ex: "exec_stmt (queue_refs ?it) [] ?d1 = Inr d'"
      by (auto simp: enqueue_sync_job_item_def Let_def split: if_splits sum.splits)
    have "?i \<notin> fst ` set (t_queue d)" using ok by (fastforce simp: db_ok_def keys_ok_def)
    with ok have "keys_ok ?d1" by (auto simp: db_ok_def keys_ok_def intro: le_SucI)
    from exec_stmt_keeps [OF ok this _ _ ex] show ?thesis by (simp add: refs_def)
  qed (use ok in simp)
qed

lemma delete_queue_item_keeps [wf_intros]: "tx_keeps (delete_queue_item it)"
  unfolding tx_keeps_def
proof (intro allI impI)
  fix d a d' assume ok: "db_ok d" and run: "delete_queue_item it d = Inr (a, d')"
  let ?hit = "\<lambda>(_, r). q_item r = it"
  from run have ex: "exec_stmt [] (queue_outs (filter ?hit (t_queue d))) (d\<lparr>t_queue := filter (\<lambda>p. \<not> ?hit p) (t_queue d)\<rparr>) = Inr d'"
    by (auto simp: delete_queue_item_def Let_def split: sum.splits)
  show "db_ok d'"
  proof (rule conjunct1 [OF exec_stmt_keeps [OF ok _ _ _ ex]])
    show "keys_ok (d\<lparr>t_queue := filter (\<lambda>p. \<not> ?hit p) (t_queue d)\<rparr>)"
      using ok by (simp add: db_ok_def keys_ok_queue_filter)
    show "count_list (refs (d\<lparr>t_queue := filter (\<lambda>p. \<not> ?hit p) (t_queue d)\<rparr>)) m
        + count_list (queue_outs (filter ?hit (t_queue d))) m = count_list (refs d) m + count_list [] m" for m
      using count_queue_split [of ?hit "t_queue d" m] by (simp add: refs_def)
  qed simp
qed

lemma queue_outs_pending: "(\<And>i r. q_item (f (i, r)) = q_item r) \<Longrightarrow>
  queue_outs (map (\<lambda>(i, r). (i, f (i, r))) t) = queue_outs t"
  by (induction t) auto

lemma pend_queue_keeps [wf_intros]: "tx_keeps (pend_queue_item it)" "tx_keeps reset_pending_job_items"
proof -
  have eq: "(\<lambda>(i, r). if (case (i, r) of (_, r) \<Rightarrow> q_item r = it \<and> \<not> q_pending r) then (i, r\<lparr>q_pending := True\<rparr>) else (i, r))
      = (\<lambda>(i, r). (i, (\<lambda>(i, r). if q_item r = it \<and> \<not> q_pending r then r\<lparr>q_pending := True\<rparr> else r) (i, r)))" for it
    by (auto simp: fun_eq_iff)
  have keys: "map (fst \<circ> (\<lambda>(i, r). (i, f (i, r)))) t = map fst t" for f :: "nat \<times> queue_row \<Rightarrow> queue_row" and t
    by (induction t) auto
  have upd: "db_ok (d\<lparr>t_queue := map (\<lambda>(i, r). (i, f (i, r))) (t_queue d)\<rparr>)"
    if "db_ok d" "\<And>i r. q_item (f (i, r)) = q_item r" for d f
    by (rule same_refs_ok [OF that(1)])
      (use that in \<open>auto simp: refs_def queue_outs_pending keys_ok_def db_ok_def keys\<close>)
  show "tx_keeps (pend_queue_item it)"
    using upd [of _ "\<lambda>(i, r). if q_item r = it \<and> \<not> q_pending r then r\<lparr>q_pending := True\<rparr> else r"]
    unfolding tx_keeps_def pend_queue_item_def Let_def eq by auto
  show "tx_keeps reset_pending_job_items"
    using upd [of _ "\<lambda>(i, r). r\<lparr>q_pending := False\<rparr>"]
    by (auto simp: tx_keeps_def reset_pending_job_items_def)
qed

lemma clear_sync_job_keeps [wf_intros]: "tx_keeps clear_sync_job"
  unfolding tx_keeps_def
proof (intro allI impI)
  fix d a d' assume ok: "db_ok d" and run: "clear_sync_job d = Inr (a, d')"
  show "db_ok d'"
  proof (cases "t_sync_job d = []")
    case True
    with run ok show ?thesis by (simp add: clear_sync_job_def)
  next
    case False
    with run have ex: "exec_stmt [] (queue_outs (t_queue d) @ job_outs (t_sync_job d)) (d\<lparr>t_sync_job := [], t_queue := []\<rparr>) = Inr d'"
      by (auto simp: clear_sync_job_def split: sum.splits)
    show ?thesis
      by (rule conjunct1 [OF exec_stmt_keeps [OF ok _ _ _ ex]])
        (use ok in \<open>auto simp: db_ok_def keys_ok_def refs_def job_outs_def\<close>)
  qed
qed

lemma insert_sync_job_keeps [wf_intros]: "tx_keeps (insert_sync_job t i)"
  unfolding tx_keeps_def
proof (intro allI impI)
  fix d a d' assume ok: "db_ok d" and run: "insert_sync_job t i d = Inr (a, d')"
  then have ex: "exec_stmt [NCommit i] [] (d\<lparr>t_sync_job := [(t, i)]\<rparr>) = Inr d'" and e: "t_sync_job d = []"
    by (auto simp: insert_sync_job_def split: sum.splits if_splits)
  show "db_ok d'"
    by (rule conjunct1 [OF exec_stmt_keeps [OF ok _ _ _ ex]])
      (use ok e in \<open>auto simp: db_ok_def keys_ok_def refs_def job_outs_def\<close>)
qed

lemma create_sync_job_keeps [wf_intros]: "tx_keeps (create_sync_job b t)"
  by (simp add: create_sync_job_def wf_intros)

lemma remove_sync_job_item_keeps [wf_intros]:
  "tx_keeps (remove_sync_job_item it)" "tx_keeps (mark_sync_job_item_pending it)" "tx_keeps has_push_items"
  by (simp_all add: remove_sync_job_item_def mark_sync_job_item_pending_def has_push_items_def wf_intros)

end
