(* ===== verification/ChunkTable.thy ===== *)
theory ChunkTable
  imports Queue
begin

text \<open>
  The tables \<open>chunk\<close>, \<open>blob\<close> and \<open>chunk_map\<close>: the database operations of
  \<open>janus-vfs/src/chunk/mod.rs\<close> and \<open>blob/mod.rs\<close> and their parts of a pull and a push.
\<close>

section \<open>Chunks\<close>

text \<open>The download of an object a row refers to, as the modules for each kind write it.\<close>

definition remote_oid_of :: "env \<Rightarrow> object_id \<Rightarrow> remote_oid tx" where
  "remote_oid_of E oid =
     tx_bind (object_by_id oid) (\<lambda>found.
     tx_bind (tx_some (DataError (ObjectNotFound oid)) found) (\<lambda>ob.
     tx_some (DataError (InvalidRemoteLocation (obj_remote_location ob))) (try_to_remote_oid E ob)))"

definition chunk_by_id :: "env \<Rightarrow> content_id \<Rightarrow> chunk option tx" where
  "chunk_by_id E i =
     tx_bind (tx_get (\<lambda>d. map_of (t_chunk d) i)) (\<lambda>row.
     case row of
       None \<Rightarrow> tx_return None
     | Some r \<Rightarrow>
         tx_bind (case ck_mode r of
             Local bytes \<Rightarrow> tx_return (chunk_from (ev_hasher E) bytes)
           | Synced oid \<Rightarrow>
               tx_bind (remote_oid_of E oid) (\<lambda>remote_oid.
               tx_io (chunk_load_from_backend (ev_hasher E) (ev_meta E) remote_oid (ev_remote E)))) (\<lambda>c.
         if ch_id c \<noteq> i then tx_fail (DataError (DChunkIdMismatch i (ch_id c)))
         else tx_return (Some c)))"

definition is_chunk_local :: "content_id \<Rightarrow> bool tx" where
  "is_chunk_local i =
     tx_bind (tx_get (\<lambda>d. map_of (t_chunk d) i)) (\<lambda>row.
     tx_bind (tx_row row) (\<lambda>r. tx_return (mode_local (ck_mode r))))"

fun local_length :: "storage_mode \<Rightarrow> u64" where
  "local_length (Local bytes) = of_nat (length bytes)"
| "local_length (Synced _) = 0"

definition pushable_chunk_ids :: "(content_id \<times> u64) list tx" where
  "pushable_chunk_ids = tx_get (\<lambda>d. map (\<lambda>(i, r). (i, local_length (ck_mode r)))
     (filter (\<lambda>(_, r). mode_local (ck_mode r) \<and> 0 < ck_ref_count r) (t_chunk d)))"

text \<open>The statement \<open>UPDATE chunk SET mode = 'S', object_id = ?, data = NULL WHERE id = ?\<close>.\<close>

definition chunk_set_synced :: "content_id \<Rightarrow> object_id \<Rightarrow> unit tx" where
  "chunk_set_synced i oid d =
     (case map_of (t_chunk d) i of
        None \<Rightarrow> Inr ((), d)
      | Some r \<Rightarrow>
          (case ck_mode r of
             Synced oid' \<Rightarrow> if oid' = oid then Inr ((), d)
               else Inl (SqlxError (Aborted ''chunk update: only L->S mode transition allowed''))
           | Local _ \<Rightarrow>
               (case exec_stmt [NObject oid] [] (d\<lparr>t_chunk := AList.map_entry i (\<lambda>r. r\<lparr>ck_mode := Synced oid\<rparr>) (t_chunk d),
                       t_change_log := t_change_log d @ [(Updated, KChunk i)]\<rparr>) of
                  Inl e \<Rightarrow> Inl e | Inr d' \<Rightarrow> Inr ((), d'))))"

definition insert_chunk_row :: "content_id \<Rightarrow> storage_mode \<Rightarrow> unit tx" where
  "insert_chunk_row i mode d =
     (if map_of (t_chunk d) i \<noteq> None then Inl (SqlxError UniqueViolation)
      else case exec_stmt (mode_refs mode) [] (d\<lparr>t_chunk := t_chunk d @ [(i, \<lparr>ck_ref_count = 0, ck_mode = mode\<rparr>)],
                t_change_log := t_change_log d @ [(Inserted, KChunk i)]\<rparr>) of
             Inl e \<Rightarrow> Inl e | Inr d' \<Rightarrow> Inr ((), d'))"

definition need_create_chunk :: "content_id \<Rightarrow> object_id option \<Rightarrow> bool tx" where
  "need_create_chunk i object_id =
     tx_bind (tx_get (\<lambda>d. map_of (t_chunk d) i)) (\<lambda>row.
     case row of
       None \<Rightarrow> tx_return True
     | Some r \<Rightarrow>
         tx_bind (case object_id of
             Some oid \<Rightarrow> if mode_local (ck_mode r) then chunk_set_synced i oid else tx_return ()
           | None \<Rightarrow> tx_return ()) (\<lambda>_.
         tx_return False))"

definition register_remote_chunk :: "content_id \<Rightarrow> object_id \<Rightarrow> bool tx" where
  "register_remote_chunk i object_id =
     tx_bind (need_create_chunk i (Some object_id)) (\<lambda>need.
     if \<not> need then tx_return False
     else tx_bind (insert_chunk_row i (Synced object_id)) (\<lambda>_. tx_return True))"

fun mode_object :: "storage_mode \<Rightarrow> object_id option" where
  "mode_object (Synced oid) = Some oid"
| "mode_object (Local _) = None"

definition register_chunk :: "chunk \<Rightarrow> storage_mode \<Rightarrow> bool tx" where
  "register_chunk c mode =
     tx_bind (need_create_chunk (ch_id c) (mode_object mode)) (\<lambda>need.
     if \<not> need then tx_return False
     else tx_bind (insert_chunk_row (ch_id c) (case mode of Local _ \<Rightarrow> Local (ch_content c) | Synced oid \<Rightarrow> Synced oid))
            (\<lambda>_. tx_return True))"

text \<open>
  The errors of the file system and of synchronisation. The errors of the remote backends
  (\<open>janus_io::Error\<close>, and \<open>sia_storage::UploadError\<close> in an upload error) are not distinguished.
\<close>

datatype lock_error = AcquisitionTimeout

datatype vfs_error =
    VfsIoError io_error
  | VfsNameError name_error
  | DeleteRootError
  | MoveRootError
  | CopyRootError
  | VfsDbError db_error
  | MissingRoot
  | VfsOther string
  | CachedError vfs_error
  | FileLockError lock_error
  | ReadOnlyFileSystem
  | InitialSyncError

datatype upload_error =
    UploadQueueFull
  | UploadIoError io_error
  | ObjectMismatch
  | SiaError
  | UploadOther string

datatype sync_error =
    SyncVfsError vfs_error
  | SyncUploadError upload_error
  | SyncIoError io_error
  | JanusRemoteError
  | SyncEntityError entity_error
  | InvalidChunkId
  | NotBranchError
  | SyncCommitError commit_error
  | SyncConfigError config_error
  | SyncBlobError blob_error
  | SyncDbError db_error
  | TooManyErrors
  | MaxDepthExceeded

text \<open>
  Part of a transaction that fails with an error of synchronisation, and such a part made of
  one that fails with an error of the database.
\<close>

type_synonym 'a sync = "db \<Rightarrow> sync_error + 'a \<times> db"

definition sync_tx :: "(db_error \<Rightarrow> sync_error) \<Rightarrow> 'a tx \<Rightarrow> 'a sync" where
  "sync_tx wrap m d = (case m d of Inl e \<Rightarrow> Inl (wrap e) | Inr r \<Rightarrow> Inr r)"

definition vfs_db :: "db_error \<Rightarrow> sync_error" where
  "vfs_db e = SyncVfsError (VfsDbError e)"

definition chunk_sync :: "bytes \<Rightarrow> object_id \<Rightarrow> unit sync" where
  "chunk_sync id_text object_id =
     (case content_id_try_from_str id_text of
        None \<Rightarrow> (\<lambda>d. Inl InvalidChunkId)
      | Some i \<Rightarrow> sync_tx vfs_db (tx_bind (register_remote_chunk i object_id) (\<lambda>_. tx_return ())))"

text \<open>The id of the object uploaded for an item, and the time it was seen.\<close>

definition uploaded_object :: "bytes \<Rightarrow> timestamp \<Rightarrow> object_id tx" where
  "uploaded_object location now =
     tx_bind (create_or_mark_object location now) (\<lambda>r.
       tx_return (case r of ObjectNew oid \<Rightarrow> oid | ObjectExisting ob \<Rightarrow> obj_id ob))"

definition prepare_chunk :: "env \<Rightarrow> content_id \<Rightarrow> chunk option tx" where
  "prepare_chunk E i =
     tx_bind (mark_sync_job_item_pending (QChunk i)) (\<lambda>_.
     tx_bind (is_chunk_local i) (\<lambda>local.
     if \<not> local then tx_bind (remove_sync_job_item (QChunk i)) (\<lambda>_. tx_return None)
     else tx_bind (chunk_by_id E i) (\<lambda>c.
          tx_bind (tx_some (DataError (ChunkNotFound i)) c) (\<lambda>c. tx_return (Some c)))))"

definition process_chunk :: "chunk \<Rightarrow> bytes \<Rightarrow> timestamp \<Rightarrow> unit tx" where
  "process_chunk c location now =
     tx_bind (uploaded_object location now) (\<lambda>oid.
     tx_bind (register_remote_chunk (ch_id c) oid) (\<lambda>_.
     remove_sync_job_item (QChunk (ch_id c))))"

text \<open>Queueing items one by one, counting those that were new.\<close>

fun enqueue_all :: "(job_item \<times> u64) list \<Rightarrow> nat tx" where
  "enqueue_all [] = tx_return 0"
| "enqueue_all ((item, estimated_size) # items) =
     tx_bind (enqueue_sync_job_item item estimated_size) (\<lambda>fresh.
     tx_bind (enqueue_all items) (\<lambda>n. tx_return (if fresh then Suc n else n)))"

definition queue_chunks :: "nat tx" where
  "queue_chunks =
     tx_bind pushable_chunk_ids (\<lambda>ids. enqueue_all (map (\<lambda>(i, n). (JobChunk i, n + 32)) ids))"

section \<open>Blobs\<close>

definition blob_mode :: "blob_row \<Rightarrow> storage_mode" where
  "blob_mode r = (case bo_object r of None \<Rightarrow> Local [] | Some oid \<Rightarrow> Synced oid)"

definition blob_by_id :: "env \<Rightarrow> content_id \<Rightarrow> blob option tx" where
  "blob_by_id E i =
     tx_bind (tx_get (\<lambda>d. (map_of (t_blob d) i, map snd (filter (\<lambda>(b, _). b = i) (t_chunk_map d))))) (\<lambda>(row, ranges).
     case row of
       None \<Rightarrow> tx_return None
     | Some r \<Rightarrow>
         let chunk_map = fold (\<lambda>c m. cm_insert (cr_offset c) (cr_len c) (cr_chunk_id c) (cr_chunk_offset c) m)
                           (sort_key cr_offset ranges) (with_len (bo_size r));
             b = finalize (ev_hasher E) (from_chunk_map chunk_map (blob_mode r))
         in if bl_id b \<noteq> i then tx_fail (DataError (DBlobIdMismatch i (bl_id b)))
            else tx_return (Some b))"

definition pushable_blob_ids :: "content_id list tx" where
  "pushable_blob_ids = tx_get (\<lambda>d. map fst (filter (\<lambda>(_, r). bo_object r = None \<and> 0 < bo_ref_count r) (t_blob d)))"

definition blob_set_synced :: "content_id \<Rightarrow> object_id \<Rightarrow> unit tx" where
  "blob_set_synced i oid d =
     (case map_of (t_blob d) i of
        None \<Rightarrow> Inr ((), d)
      | Some r \<Rightarrow>
          (case bo_object r of
             Some oid' \<Rightarrow> if oid' = oid then Inr ((), d)
               else Inl (SqlxError (Aborted ''blob update: only L->S mode transition allowed''))
           | None \<Rightarrow>
               (case exec_stmt [NObject oid] [] (d\<lparr>t_blob := AList.map_entry i (\<lambda>r. r\<lparr>bo_object := Some oid\<rparr>) (t_blob d)\<rparr>) of
                  Inl e \<Rightarrow> Inl e | Inr d' \<Rightarrow> Inr ((), d'))))"

definition insert_blob_row :: "content_id \<Rightarrow> u64 \<Rightarrow> object_id option \<Rightarrow> unit tx" where
  "insert_blob_row i len oid d =
     (if map_of (t_blob d) i \<noteq> None then Inl (SqlxError UniqueViolation)
      else if sint len < 0 then Inl (SqlxError CheckViolation)
      else case exec_stmt (object_refs oid) [] (d\<lparr>t_blob := t_blob d @ [(i, \<lparr>bo_ref_count = 0, bo_size = len, bo_object = oid\<rparr>)]\<rparr>) of
             Inl e \<Rightarrow> Inl e | Inr d' \<Rightarrow> Inr ((), d'))"

definition insert_map_row :: "content_id \<Rightarrow> chunk_range \<Rightarrow> unit tx" where
  "insert_map_row i c d =
     (if list_ex (\<lambda>(b, c'). b = i \<and> cr_offset c' = cr_offset c) (t_chunk_map d) then Inl (SqlxError UniqueViolation)
      else if sint (cr_offset c) < 0 \<or> sint (cr_len c) < 0 \<or> sint (cr_chunk_offset c) < 0
      then Inl (SqlxError CheckViolation)
      else if map_of (t_blob d) i = None then Inl (SqlxError ForeignKeyViolation)
      else case exec_stmt [NChunk (cr_chunk_id c)] [] (d\<lparr>t_chunk_map := t_chunk_map d @ [(i, c)]\<rparr>) of
             Inl e \<Rightarrow> Inl e | Inr d' \<Rightarrow> Inr ((), d'))"

definition register_blob :: "blob \<Rightarrow> unit tx" where
  "register_blob b =
     tx_bind (case bl_mode b of Synced oid \<Rightarrow> blob_set_synced (bl_id b) oid | Local _ \<Rightarrow> tx_return ()) (\<lambda>_.
     tx_bind (tx_get (\<lambda>d. map_of (t_blob d) (bl_id b) \<noteq> None)) (\<lambda>blob_exists.
     if blob_exists then tx_return ()
     else tx_bind (insert_blob_row (bl_id b) (blob_len b) (mode_object (bl_mode b))) (\<lambda>_.
          tx_for (cm_iter (bl_chunk_map b)) (insert_map_row (bl_id b)))))"

text \<open>The blob is registered before its id is compared with the requested one.\<close>

definition blob_sync :: "env \<Rightarrow> bytes \<Rightarrow> remote_oid \<Rightarrow> object_id \<Rightarrow> unit sync" where
  "blob_sync E id_text remote_object object_id d =
     (case content_id_try_from_str id_text of
        None \<Rightarrow> Inl (SyncBlobError InvalidBlobId)
      | Some i \<Rightarrow>
          (case blob_load_from_backend (ev_hasher E) (ev_meta E) (ev_blob E) object_id remote_object (ev_remote E) of
             Inl e \<Rightarrow> Inl (SyncIoError e)
           | Inr b \<Rightarrow>
               (case sync_tx vfs_db (register_blob b) d of
                  Inl e \<Rightarrow> Inl e
                | Inr (_, d') \<Rightarrow> if bl_id b \<noteq> i then Inl (SyncBlobError (BlobIdMismatch i (bl_id b))) else Inr ((), d'))))"

definition prepare_blob :: "env \<Rightarrow> content_id \<Rightarrow> blob option tx" where
  "prepare_blob E i =
     tx_bind (mark_sync_job_item_pending (QBlob i)) (\<lambda>_.
     tx_bind (blob_by_id E i) (\<lambda>b.
     tx_bind (tx_some (DataError (BlobNotFound i)) b) (\<lambda>b.
     case bl_mode b of
       Synced _ \<Rightarrow> tx_bind (remove_sync_job_item (QBlob (bl_id b))) (\<lambda>_. tx_return None)
     | Local _ \<Rightarrow> tx_return (Some b))))"

definition process_blob :: "env \<Rightarrow> blob \<Rightarrow> bytes \<Rightarrow> timestamp \<Rightarrow> unit tx" where
  "process_blob E b location now =
     tx_bind (uploaded_object location now) (\<lambda>oid.
     let b = into_synced (ev_hasher E) oid b
     in tx_bind (register_blob b) (\<lambda>_. remove_sync_job_item (QBlob (bl_id b))))"

fun queue_each_blob :: "env \<Rightarrow> content_id list \<Rightarrow> nat tx" where
  "queue_each_blob E [] = tx_return 0"
| "queue_each_blob E (i # ids) =
     tx_bind (blob_by_id E i) (\<lambda>b.
     tx_bind (case b of
         Some b \<Rightarrow> enqueue_sync_job_item (JobBlob i) (of_nat (length (to_flatbuffer (ev_blob E) b)) + 32)
       | None \<Rightarrow> tx_return False) (\<lambda>fresh.
     tx_bind (queue_each_blob E ids) (\<lambda>n. tx_return (if fresh then Suc n else n))))"

definition queue_blobs :: "env \<Rightarrow> nat tx" where
  "queue_blobs E = tx_bind pushable_blob_ids (queue_each_blob E)"

section \<open>The invariant is kept\<close>

lemma keys_ok_new_chunk: "keys_ok d \<Longrightarrow> map_of (t_chunk d) i = None \<Longrightarrow>
    keys_ok (d\<lparr>t_chunk := t_chunk d @ [(i, r)], t_change_log := l\<rparr>)"
  by (simp add: keys_ok_def map_of_eq_None_iff)

lemma keys_ok_new_blob: "keys_ok d \<Longrightarrow> map_of (t_blob d) i = None \<Longrightarrow> keys_ok (d\<lparr>t_blob := t_blob d @ [(i, r)]\<rparr>)"
  by (auto simp: keys_ok_def map_of_eq_None_iff)

lemma keys_ok_map_entry:
  "keys_ok d \<Longrightarrow> keys_ok (d\<lparr>t_chunk := AList.map_entry i f (t_chunk d), t_change_log := l\<rparr>)"
  "keys_ok d \<Longrightarrow> keys_ok (d\<lparr>t_blob := AList.map_entry i g (t_blob d)\<rparr>)"
  by (simp_all add: keys_ok_def)

lemma insert_chunk_row_keeps [wf_intros]: "tx_keeps (insert_chunk_row i mode)"
  unfolding tx_keeps_def
proof (intro allI impI)
  fix d a d' assume ok: "db_ok d" and run: "insert_chunk_row i mode d = Inr (a, d')"
  let ?d1 = "d\<lparr>t_chunk := t_chunk d @ [(i, \<lparr>ck_ref_count = 0, ck_mode = mode\<rparr>)], t_change_log := t_change_log d @ [(Inserted, KChunk i)]\<rparr>"
  from run have fresh: "map_of (t_chunk d) i = None" and ex: "exec_stmt (mode_refs mode) [] ?d1 = Inr d'"
    by (auto simp: insert_chunk_row_def split: if_splits sum.splits)
  have "node_count m ?d1 = node_count m d \<or> node_count m d = None \<and> node_count m ?d1 = Some 0" for m
    using fresh by (cases m) (auto simp: map_add_def split: option.split)
  from exec_stmt_keeps [OF ok keys_ok_new_chunk _ this ex] show "db_ok d'"
    using ok fresh by (simp add: db_ok_def refs_def)
qed

lemma chunk_set_synced_keeps [wf_intros]: "tx_keeps (chunk_set_synced i oid)"
  unfolding tx_keeps_def
proof (intro allI impI)
  fix d a d' assume ok: "db_ok d" and run: "chunk_set_synced i oid d = Inr (a, d')"
  let ?d1 = "d\<lparr>t_chunk := AList.map_entry i (\<lambda>r. r\<lparr>ck_mode := Synced oid\<rparr>) (t_chunk d), t_change_log := t_change_log d @ [(Updated, KChunk i)]\<rparr>"
  show "db_ok d'"
  proof (cases "d' = d")
    case False
    with run obtain r bs where r: "map_of (t_chunk d) i = Some r" "ck_mode r = Local bs"
      and ex: "exec_stmt [NObject oid] [] ?d1 = Inr d'"
      by (auto simp: chunk_set_synced_def split: option.splits storage_mode.splits if_splits sum.splits)
    have "node_count m ?d1 = node_count m d \<or> node_count m d = None \<and> node_count m ?d1 = Some 0" for m
      by (cases m) (auto simp: map_of_map_entry split: option.splits)
    from exec_stmt_keeps [OF ok keys_ok_map_entry(1) _ this ex] show ?thesis
      using ok outs_map_entry(1) [OF _ r(1), of "\<lambda>r. r\<lparr>ck_mode := Synced oid\<rparr>"] r(2)
      by (simp add: db_ok_def keys_ok_def refs_def)
  qed (use ok in simp)
qed

lemma insert_blob_row_keeps [wf_intros]: "tx_keeps (insert_blob_row i n oid)"
  unfolding tx_keeps_def
proof (intro allI impI)
  fix d a d' assume ok: "db_ok d" and run: "insert_blob_row i n oid d = Inr (a, d')"
  let ?d1 = "d\<lparr>t_blob := t_blob d @ [(i, \<lparr>bo_ref_count = 0, bo_size = n, bo_object = oid\<rparr>)]\<rparr>"
  from run have fresh: "map_of (t_blob d) i = None" and ex: "exec_stmt (object_refs oid) [] ?d1 = Inr d'"
    by (auto simp: insert_blob_row_def split: if_splits sum.splits)
  have "node_count m ?d1 = node_count m d \<or> node_count m d = None \<and> node_count m ?d1 = Some 0" for m
    using fresh by (cases m) (auto simp: map_add_def split: option.split)
  from exec_stmt_keeps [OF ok keys_ok_new_blob _ this ex] show "db_ok d'"
    using ok fresh by (simp add: db_ok_def refs_def)
qed

lemma blob_set_synced_keeps [wf_intros]: "tx_keeps (blob_set_synced i oid)"
  unfolding tx_keeps_def
proof (intro allI impI)
  fix d a d' assume ok: "db_ok d" and run: "blob_set_synced i oid d = Inr (a, d')"
  let ?d1 = "d\<lparr>t_blob := AList.map_entry i (\<lambda>r. r\<lparr>bo_object := Some oid\<rparr>) (t_blob d)\<rparr>"
  show "db_ok d'"
  proof (cases "d' = d")
    case False
    with run obtain r where r: "map_of (t_blob d) i = Some r" "bo_object r = None"
      and ex: "exec_stmt [NObject oid] [] ?d1 = Inr d'"
      by (auto simp: blob_set_synced_def split: option.splits if_splits sum.splits)
    have "node_count m ?d1 = node_count m d \<or> node_count m d = None \<and> node_count m ?d1 = Some 0" for m
      by (cases m) (auto simp: map_of_map_entry split: option.splits)
    from exec_stmt_keeps [OF ok keys_ok_map_entry(2) _ this ex] show ?thesis
      using ok outs_map_entry(2) [OF _ r(1), of "\<lambda>r. r\<lparr>bo_object := Some oid\<rparr>"] r(2)
      by (simp add: db_ok_def keys_ok_def refs_def object_refs_def)
  qed (use ok in simp)
qed

lemma insert_map_row_keeps [wf_intros]: "tx_keeps (insert_map_row i c)"
  unfolding tx_keeps_def
proof (intro allI impI)
  fix d a d' assume ok: "db_ok d" and run: "insert_map_row i c d = Inr (a, d')"
  let ?d1 = "d\<lparr>t_chunk_map := t_chunk_map d @ [(i, c)]\<rparr>"
  from run have parent: "map_of (t_blob d) i \<noteq> None" and ex: "exec_stmt [NChunk (cr_chunk_id c)] [] ?d1 = Inr d'"
    by (auto simp: insert_map_row_def split: if_splits sum.splits)
  then have "i \<in> fst ` set (t_blob d)" by (simp add: map_of_eq_None_iff)
  with ok have "keys_ok ?d1" by (simp add: db_ok_def keys_ok_def)
  from exec_stmt_keeps [OF ok this _ _ ex] show "db_ok d'" by (simp add: refs_def)
qed

lemmas tx_cases = option.split sum.split prod.split storage_mode.split object_create_result.split if_split

lemma chunk_reads_keep [wf_intros]:
  "tx_keeps (remote_oid_of E oid)" "tx_keeps (chunk_by_id E i)" "tx_keeps (is_chunk_local i)"
  "tx_keeps pushable_chunk_ids" "tx_keeps (blob_by_id E i)" "tx_keeps pushable_blob_ids"
  unfolding remote_oid_of_def chunk_by_id_def is_chunk_local_def pushable_chunk_ids_def blob_by_id_def
    pushable_blob_ids_def Let_def
  by (auto intro!: wf_intros split: tx_cases)

lemma register_keeps [wf_intros]:
  "tx_keeps (need_create_chunk i o')" "tx_keeps (register_remote_chunk i oid)" "tx_keeps (register_chunk c mode)"
  "tx_keeps (register_blob b)" "tx_keeps (uploaded_object l t)"
proof -
  show need: "tx_keeps (need_create_chunk i o')" for i o'
    unfolding need_create_chunk_def by (auto intro!: wf_intros split: tx_cases)
  show "tx_keeps (register_remote_chunk i oid)" "tx_keeps (register_chunk c mode)"
    unfolding register_remote_chunk_def register_chunk_def by (auto intro!: wf_intros need)
  show "tx_keeps (register_blob b)" "tx_keeps (uploaded_object l t)"
    unfolding register_blob_def uploaded_object_def by (auto intro!: wf_intros split: tx_cases)
qed

lemma enqueue_all_keeps [wf_intros]: "tx_keeps (enqueue_all items)" "tx_keeps (queue_each_blob E is)"
  by (induction items rule: enqueue_all.induct; auto intro!: wf_intros)
    (induction E "is" rule: queue_each_blob.induct; auto intro!: wf_intros split: option.split)

lemma push_chunk_keeps [wf_intros]:
  "tx_keeps (prepare_chunk E i)" "tx_keeps (process_chunk c l t)" "tx_keeps queue_chunks"
  "tx_keeps (prepare_blob E i)" "tx_keeps (process_blob E b l t)" "tx_keeps (queue_blobs E)"
  unfolding prepare_chunk_def process_chunk_def queue_chunks_def prepare_blob_def process_blob_def
    queue_blobs_def Let_def
  by (auto intro!: wf_intros split: tx_cases)

end
