(* ===== verification/EntityTable.thy ===== *)
theory EntityTable
  imports ChunkTable
begin

text \<open>
  The tables \<open>entity\<close>, \<open>entity_references\<close> and \<open>commits\<close>: the database operations of
  \<open>janus-vfs/src/vfs/entity.rs\<close> and \<open>vfs/commit.rs\<close> and their parts of a pull and a push. The
  text of an error that is converted into another one is not modelled.
\<close>

section \<open>Entities\<close>

definition draft_mode :: "entity \<Rightarrow> storage_mode" where
  "draft_mode e = (case ent_mode e of SyncedMode oid \<Rightarrow> Synced oid | _ \<Rightarrow> Local (re_cart (ent_inner e)))"

definition local_try_from_row ::
  "hasher \<Rightarrow> entity_format \<Rightarrow> (timestamp \<Rightarrow> bool) \<Rightarrow> entity_type \<Rightarrow> content_id \<Rightarrow> storage_mode \<Rightarrow> entity_error + entity" where
  "local_try_from_row H F millis_ok T revision mode =
     (case mode of
        Synced _ \<Rightarrow> Inl ExpectedLocalMode
      | Local data \<Rightarrow>
          (case raw_try_from_flatbuffer H F millis_ok T data of
             Inl e \<Rightarrow> Inl e
           | Inr raw \<Rightarrow>
               if re_revision raw \<noteq> revision then Inl (EntityRevisionMismatch revision (re_revision raw))
               else Inr \<lparr>ent_inner = raw, ent_mode = LocalMode\<rparr>))"

definition entity_by_key :: "env \<Rightarrow> entity_type \<Rightarrow> entity_key \<Rightarrow> entity option tx" where
  "entity_by_key E T key =
     tx_bind (tx_get (\<lambda>d. map_of (t_entity d) key)) (\<lambda>row.
     case row of
       None \<Rightarrow> tx_return None
     | Some r \<Rightarrow>
         (case owned_name_try_from (er_name r) of
            Inl _ \<Rightarrow> tx_fail (DataError (ConversionError ''invalid name''))
          | Inr _ \<Rightarrow>
              tx_bind (case er_mode r of
                  Synced object_id \<Rightarrow>
                    tx_bind (object_by_id object_id) (\<lambda>found.
                    tx_bind (tx_some (DataError (ObjectNotFound object_id)) found) (\<lambda>ob.
                    tx_bind (tx_some (DataError (ConversionError ''invalid remote_location'')) (try_to_remote_oid E ob)) (\<lambda>remote_oid.
                    tx_io (entity_load_from_backend (ev_hasher E) (ev_meta E) (ev_entity E) (ev_millis E)
                      (ev_uuid_text E) T object_id remote_oid (ev_remote E)))))
                | Local _ \<Rightarrow>
                    (case local_try_from_row (ev_hasher E) (ev_entity E) (ev_millis E) T (snd key) (er_mode r) of
                       Inl _ \<Rightarrow> tx_fail (DataError (ConversionError ''invalid row''))
                     | Inr e \<Rightarrow> tx_return e)) (\<lambda>e.
              if entity_key_of e \<noteq> key then tx_fail (DataError EntityMismatch) else tx_return (Some e))))"

definition entity_type_of :: "entity_key \<Rightarrow> entity_type option tx" where
  "entity_type_of key = tx_get (\<lambda>d. map_option er_type (map_of (t_entity d) key))"

definition pushable_entity_keys :: "(entity_key \<times> entity_type) list tx" where
  "pushable_entity_keys = tx_get (\<lambda>d. map (\<lambda>(k, r). (k, er_type r))
     (filter (\<lambda>(_, r). mode_local (er_mode r) \<and> 0 < er_ref_count r) (t_entity d)))"

text \<open>
  The statement \<open>UPDATE entity SET mode = 'S', object_id = ?, data = NULL\<close> on a local row, with
  the log of the inodes that show the entity.
\<close>

definition entity_set_synced :: "entity_key \<Rightarrow> object_id \<Rightarrow> unit tx" where
  "entity_set_synced key oid d =
     (case exec_stmt [NObject oid] [] (d\<lparr>t_entity := AList.map_entry key (\<lambda>r. r\<lparr>er_mode := Synced oid\<rparr>) (t_entity d),
             t_change_log := t_change_log d @ map (\<lambda>(i, _). (Updated, KInode i)) (filter (\<lambda>(_, r). vf_key r = key) (t_vfs d))\<rparr>) of
        Inl e \<Rightarrow> Inl e | Inr d' \<Rightarrow> Inr ((), d'))"

definition insert_entity_row :: "entity_key \<Rightarrow> str \<Rightarrow> entity_type \<Rightarrow> storage_mode \<Rightarrow> unit tx" where
  "insert_entity_row key name T mode d =
     (if map_of (t_entity d) key \<noteq> None then Inl (SqlxError UniqueViolation)
      else if \<not> name_column_ok name then Inl (SqlxError CheckViolation)
      else case exec_stmt (mode_refs mode) [] (d\<lparr>t_entity := t_entity d @ [(key, \<lparr>er_ref_count = 0, er_name = name, er_type = T, er_mode = mode\<rparr>)]\<rparr>) of
             Inl e \<Rightarrow> Inl e | Inr d' \<Rightarrow> Inr ((), d'))"

definition insert_entity_ref :: "entity_key \<Rightarrow> entity_ref \<Rightarrow> unit tx" where
  "insert_entity_ref key r d =
     (if map_of (t_entity d) key = None then Inl (SqlxError ForeignKeyViolation)
      else case exec_stmt [ref_node r] [] (d\<lparr>t_entity_ref := t_entity_ref d @ [(key, r)]\<rparr>) of
             Inl e \<Rightarrow> Inl e | Inr d' \<Rightarrow> Inr ((), d'))"

definition register_entity :: "entity_type \<Rightarrow> entity \<Rightarrow> entity_key tx" where
  "register_entity T e =
     (let key = entity_key_of e; mode = draft_mode e
      in tx_bind (tx_get (\<lambda>d. map_of (t_entity d) key)) (\<lambda>row.
         case row of
           Some r \<Rightarrow>
             tx_bind (case mode of
                 Synced oid \<Rightarrow> if mode_local (er_mode r) then entity_set_synced key oid else tx_return ()
               | Local _ \<Rightarrow> tx_return ()) (\<lambda>_.
             tx_return key)
         | None \<Rightarrow>
             tx_bind (insert_entity_row key (re_name (ent_inner e)) T mode) (\<lambda>_.
             tx_bind (tx_for (entity_references e) (insert_entity_ref key)) (\<lambda>_.
             tx_return key))))"

definition entity_sync :: "env \<Rightarrow> entity_type \<Rightarrow> bytes \<Rightarrow> bytes \<Rightarrow> remote_oid \<Rightarrow> object_id \<Rightarrow> unit sync" where
  "entity_sync E T id_text rev_text remote_object object_id d =
     (case ev_uuid_parse E id_text of
        None \<Rightarrow> Inl (SyncEntityError EntityInvalidId)
      | Some entity_id \<Rightarrow>
          (case content_id_try_from_str rev_text of
             None \<Rightarrow> Inl (SyncEntityError EntityInvalidRevision)
           | Some revision \<Rightarrow>
               (case entity_load_from_backend (ev_hasher E) (ev_meta E) (ev_entity E) (ev_millis E)
                       (ev_uuid_text E) T object_id remote_object (ev_remote E) of
                  Inl e \<Rightarrow> Inl (SyncIoError e)
                | Inr e \<Rightarrow>
                    (case sync_tx vfs_db (register_entity T e) d of
                       Inl err \<Rightarrow> Inl err
                     | Inr (key, d') \<Rightarrow>
                         if fst key \<noteq> entity_id then Inl (SyncEntityError (EntityIdMismatch entity_id (fst key)))
                         else if snd key \<noteq> revision then Inl (SyncEntityError (EntityRevisionMismatch revision (snd key)))
                         else Inr ((), d')))))"

definition prepare_entity :: "env \<Rightarrow> entity_type \<Rightarrow> entity_key \<Rightarrow> entity option tx" where
  "prepare_entity E T key =
     tx_bind (mark_sync_job_item_pending (QEntity key)) (\<lambda>_.
     tx_bind (entity_by_key E T key) (\<lambda>found.
     tx_bind (tx_some (DataError (EntityNotFound key)) found) (\<lambda>e.
     case ent_mode e of
       SyncedMode _ \<Rightarrow> tx_bind (remove_sync_job_item (QEntity key)) (\<lambda>_. tx_return None)
     | _ \<Rightarrow> tx_return (Some e))))"

definition process_entity :: "entity_type \<Rightarrow> entity \<Rightarrow> bytes \<Rightarrow> timestamp \<Rightarrow> unit tx" where
  "process_entity T e location now =
     tx_bind (uploaded_object location now) (\<lambda>oid.
     tx_bind (register_entity T (entity_into_synced e oid)) (\<lambda>_.
     remove_sync_job_item (QEntity (entity_key_of e))))"

fun queue_each_entity :: "env \<Rightarrow> (entity_key \<times> entity_type) list \<Rightarrow> nat tx" where
  "queue_each_entity E [] = tx_return 0"
| "queue_each_entity E ((key, T) # keys) =
     tx_bind (entity_by_key E T key) (\<lambda>found.
     tx_bind (case found of
         Some e \<Rightarrow> (if ent_mode e = LocalMode
           then enqueue_sync_job_item (JobEntity key T) (of_nat (length (re_cart (ent_inner e))) + 32)
           else tx_return False)
       | None \<Rightarrow> tx_return False) (\<lambda>fresh.
     tx_bind (queue_each_entity E keys) (\<lambda>n. tx_return (if fresh then Suc n else n))))"

definition queue_entities :: "env \<Rightarrow> nat tx" where
  "queue_entities E = tx_bind pushable_entity_keys (queue_each_entity E)"

section \<open>Commits\<close>

definition commit_by_id :: "env \<Rightarrow> commit_id \<Rightarrow> commit option tx" where
  "commit_by_id E i =
     tx_bind (tx_get (\<lambda>d. map_of (t_commit d) i)) (\<lambda>row.
     case row of
       None \<Rightarrow> tx_return None
     | Some r \<Rightarrow>
         tx_bind (case cr_mode r of
             Local fb \<Rightarrow>
               (case commit_try_from_flatbuffer (ev_hasher E) (ev_commit E) (ev_millis E) fb (Local fb) of
                  Inl _ \<Rightarrow> tx_fail (DataError (ConversionError ''invalid commit''))
                | Inr c \<Rightarrow> tx_return c)
           | Synced oid \<Rightarrow>
               tx_bind (remote_oid_of E oid) (\<lambda>remote_oid.
               tx_io (commit_load_from_backend (ev_hasher E) (ev_meta E) (ev_commit E) (ev_millis E) oid remote_oid (ev_remote E)))) (\<lambda>c.
         if co_id c \<noteq> i then tx_fail (DataError (DCommitIdMismatch i (co_id c)))
         else tx_return (Some c)))"

definition is_commit_local :: "commit_id \<Rightarrow> bool tx" where
  "is_commit_local i =
     tx_bind (tx_get (\<lambda>d. map_of (t_commit d) i)) (\<lambda>row.
     tx_bind (tx_row row) (\<lambda>r. tx_return (mode_local (cr_mode r))))"

definition pushable_commit_ids :: "(commit_id \<times> u64) list tx" where
  "pushable_commit_ids = tx_get (\<lambda>d. map (\<lambda>(i, r). (i, local_length (cr_mode r)))
     (filter (\<lambda>(_, r). mode_local (cr_mode r) \<and> 0 < cr_ref_count r) (t_commit d)))"

text \<open>
  The upsert of a commit. The trigger that wants a directory runs before the conflict is
  seen; the update it becomes may change nothing or make a local row synced.
\<close>

definition register_commit :: "commit \<Rightarrow> unit tx" where
  "register_commit c d =
     (let i = co_id c; key = co_entity_key c; mode = co_mode c
      in if map_option er_type (map_of (t_entity d) key) = Some File
         then Inl (SqlxError (Aborted ''commit entity must be a directory''))
         else case map_of (t_commit d) i of
                None \<Rightarrow>
                  (case exec_stmt (NEntity key # mode_refs mode) [] (d\<lparr>t_commit := t_commit d @ [(i, \<lparr>cr_ref_count = 0,
                          cr_entity = key, cr_mode = mode\<rparr>)]\<rparr>) of
                     Inl e \<Rightarrow> Inl e | Inr d' \<Rightarrow> Inr ((), d'))
              | Some r \<Rightarrow>
                  if cr_entity r = key \<and> cr_mode r = mode then Inr ((), d)
                  else if cr_entity r = key \<and> mode_local (cr_mode r) \<and> \<not> mode_local mode
                  then (case exec_stmt (mode_refs mode) [] (d\<lparr>t_commit := AList.map_entry i (\<lambda>r. r\<lparr>cr_mode := mode\<rparr>) (t_commit d)\<rparr>) of
                          Inl e \<Rightarrow> Inl e | Inr d' \<Rightarrow> Inr ((), d'))
                  else Inl (SqlxError (Aborted ''commit update: only L->S mode transition allowed'')))"

text \<open>\<open>UPDATE head SET commit_id = ? WHERE name = ? AND type = ?\<close>, with the number of rows.\<close>

definition repoint_head :: "head \<Rightarrow> commit_id \<Rightarrow> nat tx" where
  "repoint_head h i d =
     (let hit = (\<lambda>(row, _). head_matches h row);
          changed = filter (\<lambda>p. hit p \<and> snd p \<noteq> i) (t_head d)
      in case exec_stmt (map (\<lambda>_. NCommit i) changed) (map (\<lambda>(_, c). NCommit c) changed)
                (d\<lparr>t_head := map (\<lambda>p. if hit p then (fst p, i) else p) (t_head d)\<rparr>) of
           Inl e \<Rightarrow> Inl e | Inr d' \<Rightarrow> Inr (length (filter hit (t_head d)), d'))"

definition update_commit :: "env \<Rightarrow> str \<Rightarrow> timestamp \<Rightarrow> commit option tx" where
  "update_commit E branch_name now =
     tx_bind (tx_get (\<lambda>d. case map_of (t_vfs d) ROOT_INODE_ID of
         Some r \<Rightarrow> if vf_parent r = None then Some (vf_key r) else None | None \<Rightarrow> None)) (\<lambda>root.
     tx_bind (tx_row root) (\<lambda>key.
     tx_bind (current_commit_id (Branch branch_name)) (\<lambda>prev.
     tx_bind (tx_some (DataError (HeadEntryNotFound (Branch branch_name))) prev) (\<lambda>prev_id.
     tx_bind (commit_by_id E prev_id) (\<lambda>prev_commit.
     tx_bind (tx_some (DataError (CommitNotFound prev_id)) prev_commit) (\<lambda>prev_commit.
     if co_entity_key prev_commit = key then tx_return None
     else let m = commit_into_mut prev_commit;
              c = commit_freeze (ev_hasher E) (ev_commit E) (m\<lparr>cm_commit_count := cm_commit_count m + 1,
                    cm_entity_key := key, cm_created := now, cm_preceding_commit_id := prev_id\<rparr>)
          in tx_bind (register_commit c) (\<lambda>_.
             tx_bind (repoint_head (Branch branch_name) (co_id c)) (\<lambda>affected_rows.
             tx_bind (affected_one affected_rows) (\<lambda>_. tx_return (Some c))))))))))"

definition commit_sync :: "env \<Rightarrow> bytes \<Rightarrow> remote_oid \<Rightarrow> object_id \<Rightarrow> unit sync" where
  "commit_sync E id_text remote_object object_id d =
     (case content_id_try_from_str id_text of
        None \<Rightarrow> Inl (SyncCommitError InvalidCommitId)
      | Some i \<Rightarrow>
          (case commit_load_from_backend (ev_hasher E) (ev_meta E) (ev_commit E) (ev_millis E) object_id remote_object (ev_remote E) of
             Inl e \<Rightarrow> Inl (SyncIoError e)
           | Inr c \<Rightarrow>
               if co_id c \<noteq> i then Inl (SyncCommitError (CommitIdMismatch i (co_id c)))
               else sync_tx SyncDbError (register_commit c) d))"

definition prepare_commit :: "env \<Rightarrow> commit_id \<Rightarrow> commit option tx" where
  "prepare_commit E i =
     tx_bind (mark_sync_job_item_pending (QCommit i)) (\<lambda>_.
     tx_bind (is_commit_local i) (\<lambda>local.
     if \<not> local then tx_bind (remove_sync_job_item (QCommit i)) (\<lambda>_. tx_return None)
     else tx_bind (commit_by_id E i) (\<lambda>c.
          tx_bind (tx_some (DataError (CommitNotFound i)) c) (\<lambda>c. tx_return (Some c)))))"

definition process_commit :: "env \<Rightarrow> commit \<Rightarrow> bytes \<Rightarrow> timestamp \<Rightarrow> unit tx" where
  "process_commit E c location now =
     tx_bind (uploaded_object location now) (\<lambda>oid.
     let c = commit_into_synced (ev_hasher E) oid c
     in tx_bind (register_commit c) (\<lambda>_. remove_sync_job_item (QCommit (co_id c))))"

definition queue_commits :: "nat tx" where
  "queue_commits =
     tx_bind pushable_commit_ids (\<lambda>ids. enqueue_all (map (\<lambda>(i, n). (JobCommit i, n + 32)) ids))"

section \<open>The invariant is kept\<close>

lemma insert_entity_row_keeps [wf_intros]: "tx_keeps (insert_entity_row k n T mode)"
  unfolding tx_keeps_def
proof (intro allI impI)
  fix d a d' assume ok: "db_ok d" and run: "insert_entity_row k n T mode d = Inr (a, d')"
  let ?d1 = "d\<lparr>t_entity := t_entity d @ [(k, \<lparr>er_ref_count = 0, er_name = n, er_type = T, er_mode = mode\<rparr>)]\<rparr>"
  from run have fresh: "map_of (t_entity d) k = None" and ex: "exec_stmt (mode_refs mode) [] ?d1 = Inr d'"
    by (auto simp: insert_entity_row_def split: if_splits sum.splits)
  have "keys_ok ?d1" using ok fresh by (auto simp: db_ok_def keys_ok_def map_of_eq_None_iff)
  moreover have "node_count m ?d1 = node_count m d \<or> node_count m d = None \<and> node_count m ?d1 = Some 0" for m
    using fresh by (cases m) (auto simp: map_add_def split: option.split)
  ultimately show "db_ok d'"
    using exec_stmt_keeps [OF ok _ _ _ ex] by (simp add: refs_def)
qed

lemma insert_entity_ref_keeps [wf_intros]: "tx_keeps (insert_entity_ref k r)"
  unfolding tx_keeps_def
proof (intro allI impI)
  fix d a d' assume ok: "db_ok d" and run: "insert_entity_ref k r d = Inr (a, d')"
  let ?d1 = "d\<lparr>t_entity_ref := t_entity_ref d @ [(k, r)]\<rparr>"
  from run have parent: "map_of (t_entity d) k \<noteq> None" and ex: "exec_stmt [ref_node r] [] ?d1 = Inr d'"
    by (auto simp: insert_entity_ref_def split: if_splits sum.splits)
  then have "k \<in> fst ` set (t_entity d)" by (simp add: map_of_eq_None_iff)
  with ok have "keys_ok ?d1" by (simp add: db_ok_def keys_ok_def)
  from exec_stmt_keeps [OF ok this _ _ ex] show "db_ok d'" by (simp add: refs_def)
qed

text \<open>Registering an entity turns a row that is local into a synced one.\<close>

lemma entity_set_synced_ok:
  assumes ok: "db_ok d" and r: "map_of (t_entity d) k = Some r" "mode_local (er_mode r)"
    and run: "entity_set_synced k oid d = Inr (a, d')"
  shows "db_ok d'"
proof -
  let ?d1 = "d\<lparr>t_entity := AList.map_entry k (\<lambda>r. r\<lparr>er_mode := Synced oid\<rparr>) (t_entity d),
    t_change_log := t_change_log d @ map (\<lambda>(i, _). (Updated, KInode i)) (filter (\<lambda>(_, r). vf_key r = k) (t_vfs d))\<rparr>"
  from run have ex: "exec_stmt [NObject oid] [] ?d1 = Inr d'"
    by (auto simp: entity_set_synced_def split: sum.splits)
  have "keys_ok ?d1" using ok by (simp add: db_ok_def keys_ok_def)
  moreover have "node_count m ?d1 = node_count m d \<or> node_count m d = None \<and> node_count m ?d1 = Some 0" for m
    by (cases m) (auto simp: map_of_map_entry split: option.splits)
  moreover have "mode_refs (er_mode r) = []" using r(2) by (cases "er_mode r") auto
  ultimately show ?thesis
    using exec_stmt_keeps [OF ok _ _ _ ex] ok outs_map_entry(3) [OF _ r(1), of "\<lambda>r. r\<lparr>er_mode := Synced oid\<rparr>"]
    by (simp add: db_ok_def keys_ok_def refs_def)
qed

lemma register_entity_keeps [wf_intros]: "tx_keeps (register_entity T e)"
proof -
  have new: "tx_keeps (tx_bind (insert_entity_row k n T m) (\<lambda>_. tx_bind (tx_for rs (insert_entity_ref k)) (\<lambda>_. tx_return k)))" for k n m rs
    by (intro wf_intros)
  show ?thesis
    unfolding tx_keeps_def
  proof (intro allI impI)
    fix d a d' assume ok: "db_ok d" and run: "register_entity T e d = Inr (a, d')"
    show "db_ok d'"
    proof (cases "map_of (t_entity d) (entity_key_of e)")
      case None
      with run tx_keepsD [OF new ok] show ?thesis by (simp add: register_entity_def Let_def tx_bind_def tx_get_def)
    next
      case (Some r)
      with run ok show ?thesis
        by (auto simp: register_entity_def Let_def tx_bind_def tx_get_def
            split: storage_mode.splits if_splits sum.splits dest: entity_set_synced_ok [OF ok Some])
    qed
  qed
qed

lemma keys_ok_new_commit: "keys_ok d \<Longrightarrow> map_of (t_commit d) i = None \<Longrightarrow> keys_ok (d\<lparr>t_commit := t_commit d @ [(i, r)]\<rparr>)"
  by (auto simp: keys_ok_def map_of_eq_None_iff)

lemma commit_outs_map_entry:
  assumes "distinct (map fst t)" and "map_of t k = Some r" and "cr_entity (g r) = cr_entity r"
  shows "count_list (commit_outs (AList.map_entry k g t)) n + count_list (mode_refs (cr_mode r)) n
    = count_list (commit_outs t) n + count_list (mode_refs (cr_mode (g r))) n"
  using count_concat_map_entry [OF assms(1,2), of "\<lambda>(_, r). NEntity (cr_entity r) # mode_refs (cr_mode r)" g n] assms(3)
  by (simp add: commit_outs_def split: if_splits)

lemma register_commit_keeps [wf_intros]: "tx_keeps (register_commit c)"
  unfolding tx_keeps_def
proof (intro allI impI)
  fix d a d' assume ok: "db_ok d" and run: "register_commit c d = Inr (a, d')"
  let ?i = "co_id c" and ?mode = "co_mode c"
  show "db_ok d'"
  proof (cases "map_of (t_commit d) ?i")
    case None
    let ?d1 = "d\<lparr>t_commit := t_commit d @ [(?i, \<lparr>cr_ref_count = 0, cr_entity = co_entity_key c, cr_mode = ?mode\<rparr>)]\<rparr>"
    from None run have ex: "exec_stmt (NEntity (co_entity_key c) # mode_refs ?mode) [] ?d1 = Inr d'"
      by (auto simp: register_commit_def Let_def split: if_splits sum.splits)
    have "node_count m ?d1 = node_count m d \<or> node_count m d = None \<and> node_count m ?d1 = Some 0" for m
      using None by (cases m) (auto simp: map_add_def split: option.split)
    from exec_stmt_keeps [OF ok keys_ok_new_commit _ this ex] show ?thesis
      using ok None by (simp add: db_ok_def refs_def)
  next
    case (Some r)
    let ?d1 = "d\<lparr>t_commit := AList.map_entry ?i (\<lambda>r. r\<lparr>cr_mode := ?mode\<rparr>) (t_commit d)\<rparr>"
    show ?thesis
    proof (cases "d' = d")
      case False
      with Some run have l: "mode_local (cr_mode r)" and ex: "exec_stmt (mode_refs ?mode) [] ?d1 = Inr d'"
        by (auto simp: register_commit_def Let_def split: if_splits sum.splits)
      from l have "mode_refs (cr_mode r) = []" by (cases "cr_mode r") auto
      moreover have "keys_ok ?d1" using ok by (simp add: db_ok_def keys_ok_def)
      moreover have "node_count m ?d1 = node_count m d \<or> node_count m d = None \<and> node_count m ?d1 = Some 0" for m
        by (cases m) (auto simp: map_of_map_entry split: option.splits)
      ultimately show ?thesis
        using exec_stmt_keeps [OF ok _ _ _ ex] ok commit_outs_map_entry [OF _ Some, of "\<lambda>r. r\<lparr>cr_mode := ?mode\<rparr>"]
        by (simp add: db_ok_def keys_ok_def refs_def)
    qed (use ok in simp)
  qed
qed

lemma count_repoint:
  "count_list (head_outs (map (\<lambda>p. if P p then (fst p, i) else p) t)) m
   + count_list (map (\<lambda>(_, c). NCommit c) (filter (\<lambda>p. P p \<and> snd p \<noteq> i) t)) m
   = count_list (head_outs t) m + count_list (map (\<lambda>_. NCommit i) (filter (\<lambda>p. P p \<and> snd p \<noteq> i) t)) m"
  by (induction t) (auto simp: split_def)

lemma repoint_head_keeps [wf_intros]: "tx_keeps (repoint_head h i)"
  unfolding tx_keeps_def
proof (intro allI impI)
  fix d a d' assume ok: "db_ok d" and run: "repoint_head h i d = Inr (a, d')"
  let ?hit = "\<lambda>(row, _). head_matches h row"
  let ?changed = "filter (\<lambda>p. ?hit p \<and> snd p \<noteq> i) (t_head d)"
  from run have ex: "exec_stmt (map (\<lambda>_. NCommit i) ?changed) (map (\<lambda>(_, c). NCommit c) ?changed)
      (d\<lparr>t_head := map (\<lambda>p. if ?hit p then (fst p, i) else p) (t_head d)\<rparr>) = Inr d'"
    by (auto simp: repoint_head_def Let_def split: sum.splits)
  show "db_ok d'"
  proof (rule conjunct1 [OF exec_stmt_keeps [OF ok _ _ _ ex]])
    show "keys_ok (d\<lparr>t_head := map (\<lambda>p. if ?hit p then (fst p, i) else p) (t_head d)\<rparr>)"
      using ok by (simp add: db_ok_def keys_ok_def)
  qed (use count_repoint [of ?hit i "t_head d"] in \<open>simp_all add: refs_def\<close>)
qed

lemma entity_reads_keep [wf_intros]:
  "tx_keeps (entity_by_key E T k)" "tx_keeps (entity_type_of k)" "tx_keeps pushable_entity_keys"
  "tx_keeps (commit_by_id E i)" "tx_keeps (is_commit_local i)" "tx_keeps pushable_commit_ids"
  unfolding entity_by_key_def entity_type_of_def pushable_entity_keys_def commit_by_id_def
    is_commit_local_def pushable_commit_ids_def
  by (auto intro!: wf_intros split: tx_cases)

lemma update_commit_keeps [wf_intros]: "tx_keeps (update_commit E b now)"
  unfolding update_commit_def Let_def by (intro wf_intros)

lemma queue_each_entity_keeps [wf_intros]: "tx_keeps (queue_each_entity E keys)"
  by (induction E keys rule: queue_each_entity.induct) (auto intro!: wf_intros split: option.split)

lemma push_entity_keeps [wf_intros]:
  "tx_keeps (prepare_entity E T k)" "tx_keeps (process_entity T e l now)" "tx_keeps (queue_entities E)"
  "tx_keeps (prepare_commit E i)" "tx_keeps (process_commit E c l now)" "tx_keeps queue_commits"
  unfolding prepare_entity_def process_entity_def queue_entities_def prepare_commit_def process_commit_def
    queue_commits_def Let_def
  by (auto intro!: wf_intros split: tx_cases entity_mode.split)

end
