(* ===== verification/VfsTable.thy ===== *)
theory VfsTable
  imports EntityTable
begin

text \<open>
  The tree of inodes (table \<open>vfs\<close>) and the open file handles (\<open>temp_file_handle\<close>,
  \<open>temp_file_chunks\<close>): the operations of \<open>janus-vfs/src/vfs/mod.rs\<close> and \<open>vfs/file.rs\<close> on
  them with the triggers of the schema, which mark parents dirty, keep the column \<open>path\<close> and
  count references. Where several constraints fail, which one SQLite reports is not modelled.
\<close>

section \<open>Data\<close>

record typed_inode =
  ti_parent :: "inode_id option"
  ti_id :: inode_id
  ti_path :: str
  ti_entity :: entity

datatype inode = InodeFile typed_inode | InodeDirectory typed_inode

record inode_mut =
  im_parent :: "inode_id option"
  im_id :: inode_id
  im_entity :: entity_mut

fun typed_inode_of :: "inode \<Rightarrow> typed_inode" where
  "typed_inode_of (InodeFile f) = f"
| "typed_inode_of (InodeDirectory d) = d"

definition inode_into_mut :: "typed_inode \<Rightarrow> inode_mut" where
  "inode_into_mut i = \<lparr>im_parent = ti_parent i, im_id = ti_id i, im_entity = entity_into_mut (ti_entity i)\<rparr>"

definition inode_id_from_entity_id :: "env \<Rightarrow> entity_id \<Rightarrow> inode_id" where
  "inode_id_from_entity_id E e = inode_id_new (ev_xxh E e)"

section \<open>The triggers of the tree\<close>

type_synonym vfs_table = "(inode_id, vfs_row) table"

definition clean_rows :: "vfs_table \<Rightarrow> nat" where
  "clean_rows t = length (filter (\<lambda>(_, r). \<not> vf_dirty r) t)"

lemma clean_rows_map_entry:
  "map_of t i = Some r \<Longrightarrow> \<not> vf_dirty r \<Longrightarrow>
    clean_rows (AList.map_entry i (\<lambda>r. r\<lparr>vf_dirty := True\<rparr>) t) < clean_rows t"
proof (induction t)
  case (Cons p t)
  then show ?case
    by (cases p) (auto simp: clean_rows_def split: if_splits)
qed (simp add: clean_rows_def)

text \<open>Marking an inode dirty, and then its parent unless that is dirty already.\<close>

function mark_dirty :: "inode_id option \<Rightarrow> vfs_table \<Rightarrow> vfs_table" where
  "mark_dirty None t = t"
| "mark_dirty (Some i) t =
     (case map_of t i of
        None \<Rightarrow> t
      | Some r \<Rightarrow>
          if vf_dirty r then t
          else mark_dirty (if vf_parent r = Some i then None else vf_parent r)
                 (AList.map_entry i (\<lambda>r. r\<lparr>vf_dirty := True\<rparr>) t))"
  by pat_completeness auto
termination
  by (relation "measure (\<lambda>(i, t). clean_rows t)") (auto simp: clean_rows_map_entry)

declare mark_dirty.simps(2) [simp del]

text \<open>
  The column \<open>path\<close> of an inode, from its name and the path of its parent. When the parent
  has none, the trigger sets the column to \<open>NULL\<close> and runs again, to the limit on the depth
  of triggers; so does a cycle of parents. The limit is SQLite's default.
\<close>

definition TRIGGER_DEPTH :: nat where
  "TRIGGER_DEPTH = 1000"

definition too_deep :: db_error where
  "too_deep = SqlxError (Aborted ''too many levels of trigger recursion'')"

definition path_text :: "vfs_table \<Rightarrow> inode_id \<Rightarrow> vfs_row \<Rightarrow> str option" where
  "path_text t i r =
     (if i = ROOT_INODE_ID then Some [47]
      else if vf_parent r = Some ROOT_INODE_ID then Some (47 # vf_name r)
      else case vf_parent r of
             None \<Rightarrow> None
           | Some p \<Rightarrow> (case map_of t p of
                None \<Rightarrow> None
              | Some q \<Rightarrow> map_option (\<lambda>s. s @ 47 # vf_name r) (vf_path q)))"

fun refresh_paths :: "nat \<Rightarrow> inode_id list \<Rightarrow> vfs_table \<Rightarrow> db_error + vfs_table \<times> inode_id list" where
  "refresh_paths n [] t = Inr (t, [])"
| "refresh_paths 0 (i # is) t = Inl too_deep"
| "refresh_paths (Suc n) (i # is) t =
     (case map_of t i of
        None \<Rightarrow> refresh_paths (Suc n) is t
      | Some r \<Rightarrow>
          (case path_text t i r of
             None \<Rightarrow> Inl too_deep
           | Some s \<Rightarrow>
               if list_ex (\<lambda>(j, q). j \<noteq> i \<and> vf_path q = Some s) t then Inl (SqlxError UniqueViolation)
               else (case refresh_paths n (map fst (filter (\<lambda>(j, q). vf_parent q = Some i \<and> j \<noteq> i) t))
                            (AList.map_entry i (\<lambda>r. r\<lparr>vf_path := Some s\<rparr>) t) of
                       Inl e \<Rightarrow> Inl e
                     | Inr (t1, changed) \<Rightarrow>
                         (case refresh_paths (Suc n) is t1 of
                            Inl e \<Rightarrow> Inl e
                          | Inr (t2, changed') \<Rightarrow> Inr (t2, i # changed @ changed')))))"

text \<open>The ancestors of an inode, nearest first, as the view \<open>vfs_inode_ancestors\<close> lists them.\<close>

fun ancestors :: "nat \<Rightarrow> vfs_table \<Rightarrow> inode_id \<Rightarrow> inode_id list" where
  "ancestors 0 t i = []"
| "ancestors (Suc n) t i =
     (case map_of t i of
        None \<Rightarrow> []
      | Some r \<Rightarrow> (case vf_parent r of None \<Rightarrow> [] | Some p \<Rightarrow> p # ancestors n t p))"

text \<open>Deleting rows with the rows that cascade from them: the deleted rows and those left.\<close>

function delete_tree :: "inode_id list \<Rightarrow> vfs_table \<Rightarrow> vfs_table \<times> vfs_table" where
  "delete_tree [] t = ([], t)"
| "delete_tree (i # is) t =
     (case map_of t i of
        None \<Rightarrow> delete_tree is t
      | Some r \<Rightarrow>
          (case delete_tree (map fst (filter (\<lambda>(_, q). vf_parent q = Some i) t) @ is) (AList.delete i t) of
             (gone, left) \<Rightarrow> ((i, r) # gone, left)))"
  by pat_completeness auto
termination
  by (relation "measures [\<lambda>(is, t). length t, \<lambda>(is, t). length is]") (auto simp: length_delete_less)

declare delete_tree.simps(2) [simp del]

definition log_inodes :: "change \<Rightarrow> inode_id list \<Rightarrow> (change \<times> change_key) list" where
  "log_inodes c is = map (\<lambda>i. (c, KInode i)) is"

section \<open>Statements on the tree\<close>

definition bad_parent :: "inode_id \<Rightarrow> inode_id option \<Rightarrow> vfs_table \<Rightarrow> bool" where
  "bad_parent i parent t =
     ((i = ROOT_INODE_ID \<and> parent \<noteq> None) \<or> (i \<noteq> ROOT_INODE_ID \<and> parent = None)
      \<or> (case parent of None \<Rightarrow> False | Some p \<Rightarrow> p = i \<or> map_option vf_type (map_of t p) = Some File))"

definition name_taken :: "inode_id \<Rightarrow> inode_id option \<Rightarrow> str \<Rightarrow> vfs_table \<Rightarrow> bool" where
  "name_taken i parent name t =
     (parent \<noteq> None \<and> list_ex (\<lambda>(j, q). j \<noteq> i \<and> vf_parent q = parent \<and> vf_name q = name) t)"

definition insert_vfs_row ::
  "inode_id \<Rightarrow> entity_type \<Rightarrow> entity_key \<Rightarrow> str \<Rightarrow> inode_id option \<Rightarrow> unit tx" where
  "insert_vfs_row i T key name parent d =
     (let t = t_vfs d
      in if (case map_of (t_entity d) key of Some e \<Rightarrow> er_type e \<noteq> T | None \<Rightarrow> False)
         then Inl (SqlxError (Aborted ''vfs: inode_type must match entity_type''))
         else if T \<noteq> Dir \<and> i = ROOT_INODE_ID then Inl (SqlxError (Aborted ''vfs: root inode_type must be D''))
         else if bad_parent i parent t then Inl (SqlxError (Aborted ''vfs: invalid parent''))
         else if \<not> (1000 \<le> sint i \<or> i = 1) \<or> \<not> name_column_ok name \<or> (case parent of Some p \<Rightarrow> sint p < 1 | None \<Rightarrow> False)
         then Inl (SqlxError CheckViolation)
         else if map_of t i \<noteq> None \<or> name_taken i parent name t \<or> list_ex (\<lambda>(_, q). fst (vf_key q) = fst key) t
         then Inl (SqlxError UniqueViolation)
         else if (case parent of Some p \<Rightarrow> map_of t p = None | None \<Rightarrow> False) then Inl (SqlxError ForeignKeyViolation)
         else let t1 = mark_dirty parent (t @ [(i, \<lparr>vf_type = T, vf_key = key, vf_name = name, vf_parent = parent,
                         vf_path = None, vf_dirty = False\<rparr>)])
              in case refresh_paths TRIGGER_DEPTH [i] t1 of
                   Inl e \<Rightarrow> Inl e
                 | Inr (t2, changed) \<Rightarrow>
                     (case exec_stmt [NEntity key] [] (d\<lparr>t_vfs := t2,
                             t_change_log := t_change_log d @ log_inodes Inserted [i] @ log_inodes Updated changed\<rparr>) of
                        Inl e \<Rightarrow> Inl e | Inr d' \<Rightarrow> Inr ((), d')))"

text \<open>\<open>UPDATE vfs SET name = ?, entity_id = ?, entity_rev = ?, is_dirty = 0 WHERE inode_id = ?\<close>.\<close>

definition set_inode :: "inode_id \<Rightarrow> str \<Rightarrow> entity_key \<Rightarrow> nat tx" where
  "set_inode i name key d =
     (let t = t_vfs d
      in case map_of t i of
           None \<Rightarrow> Inr (0, d)
         | Some r \<Rightarrow>
             if vf_key r \<noteq> key \<and> (case map_of (t_entity d) key of Some e \<Rightarrow> er_type e \<noteq> vf_type r | None \<Rightarrow> False)
             then Inl (SqlxError (Aborted ''vfs: inode_type must match entity_type''))
             else if fst key \<noteq> fst (vf_key r)
             then Inl (SqlxError (Aborted ''vfs: entity_id, inode_id and inode_type cannot be changed''))
             else if bad_parent i (vf_parent r) t then Inl (SqlxError (Aborted ''vfs: invalid parent''))
             else if \<not> name_column_ok name then Inl (SqlxError CheckViolation)
             else if name_taken i (vf_parent r) name t then Inl (SqlxError UniqueViolation)
             else let renamed = (name \<noteq> vf_name r); repointed = (key \<noteq> vf_key r);
                      t1 = AList.map_entry i (\<lambda>r. r\<lparr>vf_name := name, vf_key := key, vf_dirty := False\<rparr>) t;
                      t2 = (if renamed \<or> repointed then mark_dirty (vf_parent r) t1 else t1)
                  in case (if renamed then refresh_paths TRIGGER_DEPTH [i] t2 else Inr (t2, [])) of
                       Inl e \<Rightarrow> Inl e
                     | Inr (t3, changed) \<Rightarrow>
                         (case exec_stmt (if repointed then [NEntity key] else []) (if repointed then [NEntity (vf_key r)] else [])
                                 (d\<lparr>t_vfs := t3, t_change_log := t_change_log d
                                    @ log_inodes Updated (if renamed \<or> repointed then [i] else []) @ log_inodes Updated changed\<rparr>) of
                            Inl e \<Rightarrow> Inl e | Inr d' \<Rightarrow> Inr (1, d')))"

text \<open>\<open>UPDATE vfs SET parent = ? WHERE inode_id = ?\<close>.\<close>

definition set_parent :: "inode_id \<Rightarrow> inode_id \<Rightarrow> nat tx" where
  "set_parent i p d =
     (let t = t_vfs d
      in case map_of t i of
           None \<Rightarrow> Inr (0, d)
         | Some r \<Rightarrow>
             if bad_parent i (Some p) t then Inl (SqlxError (Aborted ''vfs: invalid parent''))
             else if vf_parent r \<noteq> Some p \<and> i \<in> set (ancestors (length t) t p)
             then Inl (SqlxError (Aborted ''Loop detected in hierarchy''))
             else if sint p < 1 then Inl (SqlxError CheckViolation)
             else if name_taken i (Some p) (vf_name r) t then Inl (SqlxError UniqueViolation)
             else if map_of t p = None then Inl (SqlxError ForeignKeyViolation)
             else if vf_parent r = Some p then Inr (1, d)
             else let t1 = AList.map_entry i (\<lambda>r. r\<lparr>vf_parent := Some p\<rparr>) t;
                      t2 = mark_dirty (vf_parent r) (mark_dirty (Some p) t1)
                  in case refresh_paths TRIGGER_DEPTH [i] t2 of
                       Inl e \<Rightarrow> Inl e
                     | Inr (t3, changed) \<Rightarrow>
                         Inr (1, d\<lparr>t_vfs := t3, t_change_log := t_change_log d @ log_inodes Updated (i # changed)\<rparr>))"

text \<open>
  Deleting inodes with everything below them. A file handle on a deleted inode is a violated
  foreign key.
\<close>

definition delete_inodes :: "inode_id list \<Rightarrow> unit tx" where
  "delete_inodes is d =
     (case delete_tree is (t_vfs d) of
        (gone, left) \<Rightarrow>
          if list_ex (\<lambda>(_, i). i \<in> fst ` set gone) (t_fh d) then Inl (SqlxError ForeignKeyViolation)
          else case exec_stmt [] (vfs_outs gone) (d\<lparr>t_vfs := fold (\<lambda>(_, r) t. mark_dirty (vf_parent r) t) gone left,
                      t_change_log := t_change_log d @ log_inodes Deleted (map fst gone)\<rparr>) of
                 Inl e \<Rightarrow> Inl e | Inr d' \<Rightarrow> Inr ((), d'))"

section \<open>Operations of a transaction\<close>

definition inode_by_id :: "env \<Rightarrow> inode_id \<Rightarrow> inode option tx" where
  "inode_by_id E i =
     tx_bind (tx_get (\<lambda>d. map_of (t_vfs d) i)) (\<lambda>row.
     case row of
       None \<Rightarrow> tx_return None
     | Some r \<Rightarrow>
         (case vf_path r of
            None \<Rightarrow> tx_fail (DataError (ConversionError ''inode path is missing''))
          | Some p \<Rightarrow>
              (case sanitize_path (ev_path E) p of
                 Inl _ \<Rightarrow> tx_fail (DataError (ConversionError ''vfs path error''))
               | Inr path \<Rightarrow>
                   tx_bind (entity_by_key E (vf_type r) (vf_key r)) (\<lambda>found.
                   tx_bind (tx_some (DataError (EntityNotFound (vf_key r))) found) (\<lambda>e.
                   let ti = \<lparr>ti_parent = vf_parent r, ti_id = i, ti_path = path, ti_entity = e\<rparr>
                   in tx_return (Some (case vf_type r of Dir \<Rightarrow> InodeDirectory ti | File \<Rightarrow> InodeFile ti)))))))"

definition inode_id_by_path :: "str \<Rightarrow> inode_id option tx" where
  "inode_id_by_path path = tx_get (\<lambda>d. map_option (\<lambda>(i, _). inode_id_new i) (find (\<lambda>(_, r). vf_path r = Some path) (t_vfs d)))"

definition delete_inode :: "inode_id \<Rightarrow> nat tx" where
  "delete_inode i = tx_bind (tx_get (\<lambda>d. if map_of (t_vfs d) i = None then 0 else 1)) (\<lambda>affected.
     tx_bind (delete_inodes [i]) (\<lambda>_. tx_return affected))"

definition create_inode :: "env \<Rightarrow> entity_type \<Rightarrow> str \<Rightarrow> inode_id \<Rightarrow> entity_key \<Rightarrow> inode_id tx" where
  "create_inode E T name parent key =
     (let i = inode_id_from_entity_id E (fst key)
      in tx_bind (insert_vfs_row i T key name (Some parent)) (\<lambda>_. tx_return i))"

definition update_inode :: "inode_id \<Rightarrow> str \<Rightarrow> entity_key \<Rightarrow> unit tx" where
  "update_inode i name key = tx_bind (set_inode i name key) affected_one"

definition move_inode :: "inode_id \<Rightarrow> inode_id \<Rightarrow> unit tx" where
  "move_inode i parent = tx_bind (set_parent i parent) affected_one"

definition tx_outcome :: "'a outcome \<Rightarrow> 'a tx" where
  "tx_outcome r = (case r of Panics \<Rightarrow> tx_fail Panicked | Returns a \<Rightarrow> tx_return a)"

definition tx_update :: "env \<Rightarrow> entity_type \<Rightarrow> inode_id \<Rightarrow> str \<Rightarrow> entity \<Rightarrow> inode tx" where
  "tx_update E T i name draft =
     tx_bind (register_entity T draft) (\<lambda>key.
     tx_bind (update_inode i name key) (\<lambda>_.
     tx_bind (inode_by_id E i) (\<lambda>found.
     tx_some (DataError (InodeNotFound i)) found)))"

definition tx_create_dir :: "env \<Rightarrow> entity_id \<Rightarrow> timestamp \<Rightarrow> str \<Rightarrow> inode_id \<Rightarrow> inode_id tx" where
  "tx_create_dir E generated now name parent =
     tx_bind (tx_outcome (new_directory_draft (ev_hasher E) (ev_entity E) (ev_millis E) generated now name [])) (\<lambda>e.
     tx_bind (register_entity Dir e) (\<lambda>key. create_inode E Dir name parent key))"

definition tx_create_file :: "env \<Rightarrow> entity_id \<Rightarrow> timestamp \<Rightarrow> str \<Rightarrow> inode_id \<Rightarrow> inode_id tx" where
  "tx_create_file E generated now name parent =
     (let b = finalize (ev_hasher E) blob_mut_empty
      in tx_bind (register_blob b) (\<lambda>_.
         tx_bind (tx_outcome (new_file_draft (ev_hasher E) (ev_entity E) (ev_millis E) generated now name b)) (\<lambda>e.
         tx_bind (register_entity File e) (\<lambda>key. create_inode E File name parent key))))"

text \<open>\<open>Transaction::fsync\<close>, its error at the end being one of the file system.\<close>

definition tx_fsync :: "env \<Rightarrow> inode_mut \<Rightarrow> blob \<Rightarrow> timestamp \<Rightarrow> inode tx" where
  "tx_fsync E file b now =
     (let e = (im_entity file)\<lparr>em_body := file_body_of_blob b, em_last_modified := now\<rparr>
      in tx_bind (register_blob b) (\<lambda>_.
         tx_bind (tx_outcome (entity_freeze (ev_hasher E) (ev_entity E) (ev_millis E) File e)) (\<lambda>draft.
         tx_update E File (im_id file) (em_name e) draft)))"

section \<open>File handles\<close>

definition create_fh :: "inode_id \<Rightarrow> nat tx" where
  "create_fh i d =
     (if map_of (t_vfs d) i = None then Inl (SqlxError ForeignKeyViolation)
      else let n = Suc (t_fh_seq d) in Inr (n, d\<lparr>t_fh := t_fh d @ [(n, i)], t_fh_seq := n\<rparr>))"

definition delete_handles :: "(nat \<Rightarrow> bool) \<Rightarrow> unit tx" where
  "delete_handles P d =
     (case exec_stmt [] (fh_outs (filter (\<lambda>(h, _). P h) (t_fh_chunk d)))
             (d\<lparr>t_fh := filter (\<lambda>(h, _). \<not> P h) (t_fh d), t_fh_chunk := filter (\<lambda>(h, _). \<not> P h) (t_fh_chunk d)\<rparr>) of
        Inl e \<Rightarrow> Inl e | Inr d' \<Rightarrow> Inr ((), d'))"

definition delete_fh :: "nat \<Rightarrow> unit tx" where
  "delete_fh fh = delete_handles (\<lambda>h. h = fh)"

definition housekeeping :: "unit tx" where
  "housekeeping = delete_handles (\<lambda>_. True)"

definition insert_temp_fh_chunk :: "nat \<Rightarrow> content_id \<Rightarrow> unit tx" where
  "insert_temp_fh_chunk fh c d =
     (if (fh, c) \<in> set (t_fh_chunk d) then Inr ((), d)
      else if map_of (t_fh d) fh = None then Inl (SqlxError ForeignKeyViolation)
      else case exec_stmt [NChunk c] [] (d\<lparr>t_fh_chunk := t_fh_chunk d @ [(fh, c)]\<rparr>) of
             Inl e \<Rightarrow> Inl e | Inr d' \<Rightarrow> Inr ((), d'))"

section \<open>Dirty directories\<close>

text \<open>The dirty inodes without a dirty child.\<close>

definition dirty_leaves :: "db \<Rightarrow> inode_id list" where
  "dirty_leaves d = map (\<lambda>(i, _). inode_id_new i) (filter (\<lambda>(i, r). vf_dirty r
     \<and> \<not> list_ex (\<lambda>(_, c). vf_parent c = Some i \<and> vf_dirty c) (t_vfs d)) (t_vfs d))"

definition update_directory :: "env \<Rightarrow> inode_mut \<Rightarrow> entity_key tx" where
  "update_directory E dir =
     tx_bind (tx_get (\<lambda>d. map (\<lambda>(_, r). vf_key r) (filter (\<lambda>(_, r). vf_parent r = Some (im_id dir)) (t_vfs d)))) (\<lambda>entries.
     tx_bind (tx_outcome (entity_freeze (ev_hasher E) (ev_entity E) (ev_millis E) Dir
                ((im_entity dir)\<lparr>em_body := DirectoryBody entries\<rparr>))) (\<lambda>draft.
     register_entity Dir draft))"

definition process_dirty_inode :: "env \<Rightarrow> inode_id \<Rightarrow> unit tx" where
  "process_dirty_inode E i =
     tx_bind (inode_by_id E i) (\<lambda>found.
     tx_bind (tx_some (DataError (InodeNotFound i)) found) (\<lambda>n.
     case n of
       InodeDirectory dir \<Rightarrow>
         tx_bind (update_directory E (inode_into_mut dir)) (\<lambda>key.
         update_inode i (re_name (ent_inner (ti_entity dir))) key)
     | InodeFile _ \<Rightarrow> tx_fail (DataError (DirtyFile i))))"

text \<open>The loop of \<open>process_dirty_inodes\<close>; no result means that it does not end.\<close>

partial_function (option) process_dirty_inodes :: "env \<Rightarrow> db \<Rightarrow> (db_error + unit \<times> db) option" where
  "process_dirty_inodes E d =
     (case dirty_leaves d of
        [] \<Rightarrow> Some (Inr ((), d))
      | inode_ids \<Rightarrow>
          (case tx_for inode_ids (process_dirty_inode E) d of
             Inl e \<Rightarrow> Some (Inl e)
           | Inr (_, d') \<Rightarrow> process_dirty_inodes E d'))"

section \<open>What the triggers leave alone\<close>

definition core :: "vfs_table \<Rightarrow> vfs_table" where
  "core t = map (\<lambda>(i, r). (i, r\<lparr>vf_dirty := False, vf_path := None\<rparr>)) t"

lemma core_simps [simp]: "core [] = []" "core (p # t) = (fst p, (snd p)\<lparr>vf_dirty := False, vf_path := None\<rparr>) # core t"
  "core (t @ u) = core t @ core u"
  by (simp_all add: core_def split: prod.split)

lemma core_outs: "vfs_outs (core t) = vfs_outs t" "map fst (core t) = map fst t"
  by (induction t) auto

lemma core_map_entry:
  assumes "\<And>r. (f r)\<lparr>vf_dirty := False, vf_path := None\<rparr> = r\<lparr>vf_dirty := False, vf_path := None\<rparr>"
  shows "core (AList.map_entry i f t) = core t"
  by (induction t) (use assms in auto)

lemma core_mark_dirty [simp]: "core (mark_dirty i t) = core t"
proof (induction i t rule: mark_dirty.induct)
  case (2 i t)
  then show ?case
    by (auto simp: mark_dirty.simps(2) [of i t] core_map_entry split: option.splits)
qed simp

lemma core_refresh: "refresh_paths n is t = Inr (t', ch) \<Longrightarrow> core t' = core t"
proof (induction n "is" t arbitrary: t' ch rule: refresh_paths.induct)
  case (3 n i "is" t)
  then show ?case
    by (fastforce simp: core_map_entry split: option.splits if_splits sum.splits prod.splits)
qed auto

lemma core_same:
  assumes "core t' = core t"
  shows "vfs_outs t' = vfs_outs t" "map fst t' = map fst t"
  using core_outs [of t] core_outs [of t'] assms by simp_all

lemma core_append_last: "core t' = core (t @ [p]) \<Longrightarrow> vfs_outs t' = vfs_outs t @ [NEntity (vf_key (snd p))] \<and> map fst t' = map fst t @ [fst p]"
  using core_same [of t' "t @ [p]"] by simp

lemma vfs_outs_map_entry:
  assumes "distinct (map fst t)" and "map_of t i = Some r"
  shows "count_list (vfs_outs (AList.map_entry i f t)) n + count_list [NEntity (vf_key r)] n
    = count_list (vfs_outs t) n + count_list [NEntity (vf_key (f r))] n"
proof -
  have "concat (map (\<lambda>(_, r). [NEntity (vf_key r)]) t) = vfs_outs t" for t
    by (induction t) auto
  with count_concat_map_entry [OF assms, of "\<lambda>(_, r). [NEntity (vf_key r)]" f n] show ?thesis by simp
qed

lemma delete_tree_parts:
  assumes "distinct (map fst t)" and "delete_tree is t = (gone, left)"
  shows "count_list (vfs_outs gone) n + count_list (vfs_outs left) n = count_list (vfs_outs t) n
    \<and> distinct (map fst left) \<and> set left \<subseteq> set t"
  using assms
proof (induction "is" t arbitrary: gone left rule: delete_tree.induct)
  case (2 i "is" t)
  show ?case
  proof (cases "map_of t i")
    case None
    with 2 show ?thesis by (simp add: delete_tree.simps)
  next
    case (Some r)
    obtain g l where gl: "delete_tree (map fst (filter (\<lambda>(_, q). vf_parent q = Some i) t) @ is) (AList.delete i t) = (g, l)"
      by fastforce
    with Some 2(4) have eq: "gone = (i, r) # g" "left = l" by (simp_all add: delete_tree.simps)
    have d: "distinct (map fst (AList.delete i t))" using 2(3) by (rule distinct_delete)
    have count: "count_list (vfs_outs (AList.delete i t)) n + count_list [NEntity (vf_key r)] n = count_list (vfs_outs t) n"
    proof -
      have "concat (map (\<lambda>(_, r). [NEntity (vf_key r)]) u) = vfs_outs u" for u
        by (induction u) auto
      with count_concat_delete [OF 2(3) Some, of "\<lambda>(_, r). [NEntity (vf_key r)]" n] show ?thesis by simp
    qed
    have "set (AList.delete i t) \<subseteq> set t" by (auto simp: AList.delete_eq)
    with 2(2) [OF Some d gl] count eq show ?thesis by auto
  qed
qed simp

section \<open>The invariant is kept\<close>

lemma refs_vfs: "refs (d\<lparr>t_vfs := t, t_change_log := l\<rparr>) = chunk_outs (t_chunk d) @ blob_outs (t_blob d) @ map_outs (t_chunk_map d)
     @ entity_outs (t_entity d) @ ref_outs (t_entity_ref d) @ commit_outs (t_commit d)
     @ head_outs (t_head d) @ vfs_outs t @ fh_outs (t_fh_chunk d)
     @ job_outs (t_sync_job d) @ queue_outs (t_queue d)"
  by (simp add: refs_def)

lemma keys_ok_vfs: "keys_ok d \<Longrightarrow> distinct (map fst t) \<Longrightarrow> keys_ok (d\<lparr>t_vfs := t, t_change_log := l\<rparr>)"
  by (simp add: keys_ok_def)

lemma vfs_stmt_keeps:
  assumes "db_ok d" and "distinct (map fst t)"
    and "\<And>n. count_list (vfs_outs t) n + count_list olds n = count_list (vfs_outs (t_vfs d)) n + count_list news n"
    and "exec_stmt news olds (d\<lparr>t_vfs := t, t_change_log := l\<rparr>) = Inr d'"
  shows "db_ok d'"
proof -
  have "keys_ok (d\<lparr>t_vfs := t, t_change_log := l\<rparr>)" using assms(1,2) by (simp add: db_ok_def keys_ok_vfs)
  from exec_stmt_keeps [OF assms(1) this _ _ assms(4)] show ?thesis
    using assms(3) by (simp add: refs_vfs) (simp add: refs_def algebra_simps)
qed

lemma insert_vfs_row_keeps [wf_intros]: "tx_keeps (insert_vfs_row i T k n p)"
  unfolding tx_keeps_def
proof (intro allI impI)
  fix d a d' assume ok: "db_ok d" and run: "insert_vfs_row i T k n p d = Inr (a, d')"
  from run obtain t2 ch l where fresh: "map_of (t_vfs d) i = None"
    and t2: "refresh_paths TRIGGER_DEPTH [i] (mark_dirty p (t_vfs d @ [(i, \<lparr>vf_type = T, vf_key = k, vf_name = n, vf_parent = p,
      vf_path = None, vf_dirty = False\<rparr>)])) = Inr (t2, ch)"
    and ex: "exec_stmt [NEntity k] [] (d\<lparr>t_vfs := t2, t_change_log := l\<rparr>) = Inr d'"
    by (auto simp: insert_vfs_row_def Let_def split: if_splits sum.splits)
  from core_refresh [OF t2] have "vfs_outs t2 = vfs_outs (t_vfs d) @ [NEntity k]" "map fst t2 = map fst (t_vfs d) @ [i]"
    using core_append_last [of t2 "t_vfs d"] by (simp_all del: core_simps(2))
  with fresh ok show "db_ok d'"
    by (intro vfs_stmt_keeps [OF ok _ _ ex]) (auto simp: db_ok_def keys_ok_def map_of_eq_None_iff)
qed

lemma set_inode_keeps [wf_intros]: "tx_keeps (set_inode i n k)"
  unfolding tx_keeps_def
proof (intro allI impI)
  fix d a d' assume ok: "db_ok d" and run: "set_inode i n k d = Inr (a, d')"
  then have dist: "distinct (map fst (t_vfs d))" by (simp add: db_ok_def keys_ok_def)
  show "db_ok d'"
  proof (cases "map_of (t_vfs d) i")
    case None
    with run ok show ?thesis by (simp add: set_inode_def Let_def)
  next
    case (Some r)
    let ?f = "\<lambda>r. r\<lparr>vf_name := n, vf_key := k, vf_dirty := False\<rparr>"
    let ?t1 = "AList.map_entry i ?f (t_vfs d)"
    from Some run obtain t2 t3 ch l where
      t2: "t2 = ?t1 \<or> t2 = mark_dirty (vf_parent r) ?t1"
      and t3: "(t3, ch) = (t2, []) \<or> refresh_paths TRIGGER_DEPTH [i] t2 = Inr (t3, ch)"
      and ex: "exec_stmt (if k \<noteq> vf_key r then [NEntity k] else []) (if k \<noteq> vf_key r then [NEntity (vf_key r)] else [])
        (d\<lparr>t_vfs := t3, t_change_log := l\<rparr>) = Inr d'"
      unfolding set_inode_def Let_def by (force split: if_splits sum.splits prod.splits)
    have "core t3 = core ?t1" using t2 t3 core_refresh [of _ _ t2 t3 ch] by auto
    from core_same [OF this] have "vfs_outs t3 = vfs_outs ?t1" "map fst t3 = map fst (t_vfs d)" by simp_all
    with dist show ?thesis
    proof (intro vfs_stmt_keeps [OF ok _ _ ex])
      fix m
      show "count_list (vfs_outs t3) m + count_list (if k \<noteq> vf_key r then [NEntity (vf_key r)] else []) m
          = count_list (vfs_outs (t_vfs d)) m + count_list (if k \<noteq> vf_key r then [NEntity k] else []) m"
        using vfs_outs_map_entry [OF dist Some, of ?f m] \<open>vfs_outs t3 = vfs_outs ?t1\<close>
        by (cases "k = vf_key r") (simp_all split: if_splits)
    qed simp
  qed
qed

lemma set_parent_keeps [wf_intros]: "tx_keeps (set_parent i p)"
  unfolding tx_keeps_def
proof (intro allI impI)
  fix d a d' assume ok: "db_ok d" and run: "set_parent i p d = Inr (a, d')"
  show "db_ok d'"
  proof (cases "d' = d")
    case False
    let ?t1 = "AList.map_entry i (\<lambda>r. r\<lparr>vf_parent := Some p\<rparr>) (t_vfs d)"
    from run False obtain r where r: "map_of (t_vfs d) i = Some r" by (auto simp: set_parent_def Let_def split: option.splits)
    with run False obtain t3 ch where t3: "refresh_paths TRIGGER_DEPTH [i] (mark_dirty (vf_parent r) (mark_dirty (Some p) ?t1)) = Inr (t3, ch)"
      and d': "d' = d\<lparr>t_vfs := t3, t_change_log := t_change_log d @ log_inodes Updated (i # ch)\<rparr>"
      by (simp add: set_parent_def Let_def split: if_splits sum.splits prod.splits)
    from core_same [of t3 ?t1] core_refresh [OF t3] have "vfs_outs t3 = vfs_outs ?t1" "map fst t3 = map fst (t_vfs d)" by simp_all
    moreover have "vfs_outs (AList.map_entry i (\<lambda>r. r\<lparr>vf_parent := Some p\<rparr>) t) = vfs_outs t" for t by (induction t) auto
    ultimately show ?thesis
      unfolding d' by (intro same_refs_ok [OF ok]) (use ok in \<open>simp_all add: refs_def db_ok_def keys_ok_def\<close>)
  qed (use ok in simp)
qed

lemma vfs_outs_fold_dirty: "core (fold (\<lambda>(_, r) t. mark_dirty (vf_parent r) t) gone t) = core t"
  by (induction gone arbitrary: t) auto

lemma delete_inodes_keeps [wf_intros]: "tx_keeps (delete_inodes is)"
  unfolding tx_keeps_def
proof (intro allI impI)
  fix d a d' assume ok: "db_ok d" and run: "delete_inodes is d = Inr (a, d')"
  obtain gone left where gl: "delete_tree is (t_vfs d) = (gone, left)" by fastforce
  let ?t = "fold (\<lambda>(_, r) t. mark_dirty (vf_parent r) t) gone left"
  from run gl obtain l where ex: "exec_stmt [] (vfs_outs gone) (d\<lparr>t_vfs := ?t, t_change_log := l\<rparr>) = Inr d'"
    by (auto simp: delete_inodes_def split: if_splits sum.splits)
  have "distinct (map fst (t_vfs d))" using ok by (simp add: db_ok_def keys_ok_def)
  note parts = delete_tree_parts [OF this gl]
  from core_same [OF vfs_outs_fold_dirty] have t: "vfs_outs ?t = vfs_outs left" "map fst ?t = map fst left" by blast+
  with parts show "db_ok d'"
    by (intro vfs_stmt_keeps [OF ok _ _ ex]) (simp_all add: t add.commute)
qed

lemma fh_outs_filter:
  "count_list (fh_outs (filter P t)) n + count_list (fh_outs (filter (\<lambda>x. \<not> P x) t)) n = count_list (fh_outs t) n"
  by (induction t) (auto simp: fh_outs_def)

lemma handles_keep [wf_intros]:
  "tx_keeps (create_fh i)" "tx_keeps (delete_handles P)" "tx_keeps (delete_fh h)" "tx_keeps housekeeping"
  "tx_keeps (insert_temp_fh_chunk h c)"
proof -
  have "h \<notin> fst ` set (t_fh d)" if "db_ok d" "h = Suc (t_fh_seq d)" for d h
    using that by (fastforce simp: db_ok_def keys_ok_def)
  then have "db_ok (d\<lparr>t_fh := t_fh d @ [(Suc (t_fh_seq d), i)], t_fh_seq := Suc (t_fh_seq d)\<rparr>)" if "db_ok d" for d
    using that by (intro same_refs_ok [OF that]) (auto simp: refs_def db_ok_def keys_ok_def intro: le_SucI)
  then show "tx_keeps (create_fh i)"
    by (auto simp: tx_keeps_def create_fh_def Let_def split: if_splits)
  show del: "tx_keeps (delete_handles P)" for P
    unfolding tx_keeps_def
  proof (intro allI impI)
    fix d a d' assume ok: "db_ok d" and run: "delete_handles P d = Inr (a, d')"
    let ?d1 = "d\<lparr>t_fh := filter (\<lambda>(h, _). \<not> P h) (t_fh d), t_fh_chunk := filter (\<lambda>(h, _). \<not> P h) (t_fh_chunk d)\<rparr>"
    from run have ex: "exec_stmt [] (fh_outs (filter (\<lambda>(h, _). P h) (t_fh_chunk d))) ?d1 = Inr d'"
      by (auto simp: delete_handles_def split: sum.splits)
    have "keys_ok ?d1" using ok by (auto simp: db_ok_def keys_ok_def distinct_map_filter)
    from exec_stmt_keeps [OF ok this _ _ ex] show "db_ok d'"
      using fh_outs_filter [of "\<lambda>(h, _). P h" "t_fh_chunk d"] by (simp add: refs_def split_def add.commute)
  qed
  show "tx_keeps (delete_fh h)" "tx_keeps housekeeping"
    by (simp_all add: delete_fh_def housekeeping_def del)
  show "tx_keeps (insert_temp_fh_chunk h c)"
    unfolding tx_keeps_def
  proof (intro allI impI)
    fix d a d' assume ok: "db_ok d" and run: "insert_temp_fh_chunk h c d = Inr (a, d')"
    show "db_ok d'"
    proof (cases "d' = d")
      case False
      let ?d1 = "d\<lparr>t_fh_chunk := t_fh_chunk d @ [(h, c)]\<rparr>"
      from run False have ex: "exec_stmt [NChunk c] [] ?d1 = Inr d'"
        by (auto simp: insert_temp_fh_chunk_def split: if_splits sum.splits)
      have "keys_ok ?d1" using ok by (simp add: db_ok_def keys_ok_def)
      from exec_stmt_keeps [OF ok this _ _ ex] show ?thesis by (simp add: refs_def)
    qed (use ok in simp)
  qed
qed

lemma tx_outcome_keeps [wf_intros]: "tx_keeps (tx_outcome r)"
  by (simp add: tx_outcome_def wf_intros split: outcome.split)

lemma inode_ops_keep [wf_intros]:
  "tx_keeps (inode_by_id E i)" "tx_keeps (inode_id_by_path p)" "tx_keeps (delete_inode i)"
  "tx_keeps (create_inode E T n q k)" "tx_keeps (update_inode i n k)" "tx_keeps (move_inode i q)"
  unfolding inode_by_id_def inode_id_by_path_def delete_inode_def create_inode_def update_inode_def
    move_inode_def Let_def
  by (auto intro!: wf_intros split: tx_cases)

lemma file_ops_keep [wf_intros]:
  "tx_keeps (tx_update E T i n e)" "tx_keeps (tx_create_dir E g now n q)" "tx_keeps (tx_create_file E g now n q)"
  "tx_keeps (tx_fsync E f b now)" "tx_keeps (update_directory E m)" "tx_keeps (process_dirty_inode E i)"
proof -
  show u: "tx_keeps (tx_update E T i n e)" for T i n e
    unfolding tx_update_def by (intro wf_intros)
  show "tx_keeps (tx_create_dir E g now n q)" "tx_keeps (tx_create_file E g now n q)" "tx_keeps (tx_fsync E f b now)"
    unfolding tx_create_dir_def tx_create_file_def tx_fsync_def Let_def by (intro wf_intros u)+
  show d: "tx_keeps (update_directory E m)" for m
    unfolding update_directory_def by (intro wf_intros)
  show "tx_keeps (process_dirty_inode E i)"
    unfolding process_dirty_inode_def by (auto intro!: wf_intros d split: inode.split)
qed

lemma process_dirty_inodes_keeps:
  assumes "process_dirty_inodes E d = Some (Inr (a, d'))" and "db_ok d"
  shows "db_ok d'"
proof -
  have "\<forall>a d'. r = Inr (a, d') \<longrightarrow> db_ok d \<longrightarrow> db_ok d'" if "process_dirty_inodes E d = Some r" for d r
  proof (rule process_dirty_inodes.raw_induct [where P = "\<lambda>E d r. \<forall>a d'. r = Inr (a, d') \<longrightarrow> db_ok d \<longrightarrow> db_ok d'", OF _ that])
    fix pdi E d r
    assume IH: "\<And>E d r. pdi E d = Some r \<Longrightarrow> \<forall>a d'. r = Inr (a, d') \<longrightarrow> db_ok d \<longrightarrow> db_ok d'"
      and body: "(case dirty_leaves d of [] \<Rightarrow> Some (Inr ((), d))
        | i # is \<Rightarrow> (case tx_for (i # is) (process_dirty_inode E) d of Inl e \<Rightarrow> Some (Inl e) | Inr (_, d') \<Rightarrow> pdi E d')) = Some r"
    show "\<forall>a d'. r = Inr (a, d') \<longrightarrow> db_ok d \<longrightarrow> db_ok d'"
    proof (cases "dirty_leaves d")
      case (Cons i "is")
      show ?thesis
      proof (cases "tx_for (i # is) (process_dirty_inode E) d")
        case (Inr p)
        obtain u d1 where p: "p = (u, d1)" by (cases p)
        have "db_ok d \<Longrightarrow> db_ok d1"
          using tx_keepsD [OF tx_keeps_for [OF file_ops_keep(6)] _ Inr [unfolded p]] .
        moreover from body Cons Inr p have "pdi E d1 = Some r" by (simp del: tx_for.simps)
        ultimately show ?thesis using IH by blast
      qed (use body Cons in \<open>auto simp del: tx_for.simps\<close>)
    qed (use body in auto)
  qed
  with assms show ?thesis by blast
qed

end
