(* ===== verification/ConfigTable.thy ===== *)
theory ConfigTable
  imports VfsTable
begin

text \<open>
  The tables \<open>config\<close> and \<open>head\<close> (\<open>janus-vfs/src/vfs/config.rs\<close>): reading and updating the
  configuration, and taking over a configuration from the remote storage, which rebuilds the
  tree of inodes from the commit its head names.
\<close>

section \<open>Heads\<close>

definition same_head_name :: "head \<Rightarrow> head \<Rightarrow> bool" where
  "same_head_name h row = (nocase (head_name row) = nocase (head_name h))"

text \<open>The upsert of a head; the name of an existing row keeps its spelling.\<close>

definition upsert_head :: "head \<Rightarrow> commit_id \<Rightarrow> unit tx" where
  "upsert_head h c d =
     (case find (\<lambda>(row, _). same_head_name h row) (t_head d) of
        None \<Rightarrow>
          (case exec_stmt [NCommit c] [] (d\<lparr>t_head := t_head d @ [(h, c)]\<rparr>) of
             Inl e \<Rightarrow> Inl e | Inr d' \<Rightarrow> Inr ((), d'))
      | Some (row, c0) \<Rightarrow>
          if is_tag row \<noteq> is_tag h then Inl (SqlxError (Aborted ''cannot update type''))
          else (case repoint_head row c d of Inl e \<Rightarrow> Inl e | Inr (_, d') \<Rightarrow> Inr ((), d')))"

text \<open>The head named by the configuration must exist.\<close>

definition config_head_holds :: "db \<Rightarrow> bool" where
  "config_head_holds d = list_all (\<lambda>r. list_ex (\<lambda>(row, _). nocase (head_name row) = nocase (cfr_head r)) (t_head d)) (t_config d)"

definition delete_head_row :: "head \<Rightarrow> unit tx" where
  "delete_head_row h d =
     (let hit = (\<lambda>(row, _). head_matches h row);
          d1 = d\<lparr>t_head := filter (\<lambda>p. \<not> hit p) (t_head d)\<rparr>
      in if \<not> config_head_holds d1 then Inl (SqlxError ForeignKeyViolation)
         else case exec_stmt [] (head_outs (filter hit (t_head d))) d1 of Inl e \<Rightarrow> Inl e | Inr d' \<Rightarrow> Inr ((), d'))"

definition valid_head :: "head \<Rightarrow> bool" where
  "valid_head h = (case label_from_str (head_name h) of Inr _ \<Rightarrow> True | Inl _ \<Rightarrow> False)"

definition current_heads :: "head list tx" where
  "current_heads = tx_get (\<lambda>d. filter valid_head (map fst (t_head d)))"

section \<open>Reading the configuration\<close>

definition config_is_empty :: "bool tx" where
  "config_is_empty = tx_get (\<lambda>d. t_config d = [])"

definition current_config :: "env \<Rightarrow> config tx" where
  "current_config E =
     tx_bind (tx_get (\<lambda>d. first_opt (t_config d))) (\<lambda>row.
     tx_bind (tx_row row) (\<lambda>r.
     case cfr_mode r of
       Local fb \<Rightarrow>
         (case config_try_from_flatbuffer (ev_config E) (ev_millis E) fb None of
            Inl _ \<Rightarrow> tx_fail (DataError (ConversionError ''invalid config''))
          | Inr c \<Rightarrow> tx_return c)
     | Synced oid \<Rightarrow>
         tx_bind (remote_oid_of E oid) (\<lambda>remote_oid.
         tx_io (config_load_from_backend (ev_meta E) (ev_config E) (ev_millis E) oid remote_oid (ev_remote E)))))"

definition pushable_config_data :: "bytes option tx" where
  "pushable_config_data = tx_get (\<lambda>d. case find (\<lambda>r. mode_local (cfr_mode r)) (t_config d) of
     Some r \<Rightarrow> (case cfr_mode r of Local data \<Rightarrow> Some data | Synced _ \<Rightarrow> None) | None \<Rightarrow> None)"

definition chunk_size :: "u32 tx" where
  "chunk_size =
     tx_bind (tx_get (\<lambda>d. first_opt (t_config d))) (\<lambda>row.
     tx_bind (tx_row row) (\<lambda>r.
     if cfr_chunk_size r = 0 then tx_fail (DataError (ConversionError ''chunk_size invalid''))
     else tx_return (cfr_chunk_size r)))"

section \<open>Updating the configuration\<close>

definition config_key_holds :: "storage_mode \<Rightarrow> db \<Rightarrow> bool" where
  "config_key_holds mode d = list_all (node_exists d) (mode_refs mode)"

text \<open>
  The heads the configuration gets: those in the table, with the description an entry of the
  same head has in the configuration.
\<close>

definition merge_heads :: "(head \<times> commit_id) list \<Rightarrow> (head \<times> head_entry) list \<Rightarrow> (head \<times> head_entry) list" where
  "merge_heads rows old =
     (let heads = fold (\<lambda>(h, c). AList.update h \<lparr>he_description = None, he_commit_id = c\<rparr>)
                    (filter (\<lambda>(h, _). valid_head h) rows) []
      in fold (\<lambda>(h, e) acc. case map_of acc h of
                 Some x \<Rightarrow> AList.update h (x\<lparr>he_commit_id := he_commit_id e\<rparr>) acc
               | None \<Rightarrow> AList.update h e acc)
           heads (filter (\<lambda>(h, _). map_of heads h \<noteq> None) old))"

definition maybe_update_config :: "env \<Rightarrow> timestamp \<Rightarrow> config option tx" where
  "maybe_update_config E now =
     tx_bind (current_config E) (\<lambda>prev.
     tx_bind (tx_get t_head) (\<lambda>rows.
     let m = config_into_mut prev
     in tx_bind (tx_outcome (config_freeze (ev_config E) (ev_millis E)
                   (m\<lparr>cfm_heads := merge_heads rows (cfm_heads m), cfm_last_modified := now\<rparr>))) (\<lambda>current.
        if heads_eq (ev_config E) current prev then tx_return None
        else (\<lambda>d. if \<not> config_key_holds (cfg_mode current) d then Inl (SqlxError ForeignKeyViolation)
                  else Inr (Some current, d\<lparr>t_config := map (\<lambda>r. r\<lparr>cfr_last_modified := cfg_last_modified current,
                         cfr_mode := cfg_mode current\<rparr>) (t_config d)\<rparr>)))))"

definition mark_config_as_synced :: "config \<Rightarrow> unit tx" where
  "mark_config_as_synced c d =
     (case cfg_mode c of
        Local _ \<Rightarrow> Inl (DataError UnsupportedStorageMode)
      | Synced oid \<Rightarrow>
          let hit = (\<lambda>r. cfr_mode r = Local (cfg_cart c))
          in if list_ex hit (t_config d) \<and> \<not> config_key_holds (Synced oid) d then Inl (SqlxError ForeignKeyViolation)
             else Inr ((), d\<lparr>t_config := map (\<lambda>r. if hit r then r\<lparr>cfr_mode := Synced oid\<rparr> else r) (t_config d)\<rparr>))"

section \<open>Rebuilding the tree\<close>

fun entity_children :: "entity_body \<Rightarrow> entity_key list" where
  "entity_children (FileBody _ _) = []"
| "entity_children (DirectoryBody entries) = entries"

definition create_child :: "env \<Rightarrow> inode_id \<Rightarrow> entity_key \<Rightarrow> (inode_id \<times> entity) tx" where
  "create_child E parent key =
     tx_bind (entity_type_of key) (\<lambda>T.
     tx_bind (tx_some (DataError (EntityNotFound key)) T) (\<lambda>T.
     tx_bind (entity_by_key E T key) (\<lambda>found.
     tx_bind (tx_some (DataError (EntityNotFound key)) found) (\<lambda>e.
     tx_bind (create_inode E T (re_name (ent_inner e)) parent (entity_key_of e)) (\<lambda>i.
     tx_return (i, e))))))"

fun create_children :: "env \<Rightarrow> inode_id \<Rightarrow> entity_key list \<Rightarrow> (inode_id \<times> entity) list tx" where
  "create_children E parent [] = tx_return []"
| "create_children E parent (key # keys) =
     tx_bind (create_child E parent key) (\<lambda>c.
     tx_bind (create_children E parent keys) (\<lambda>cs. tx_return (c # cs)))"

text \<open>The entities that no inode shows: creating an inode takes one away.\<close>

definition unshown :: "db \<Rightarrow> nat" where
  "unshown d = card (fst ` fst ` set (t_entity d) - (\<lambda>(_, r). fst (vf_key r)) ` set (t_vfs d))"

lemma core_ids: "core t' = core t \<Longrightarrow> (\<lambda>(_, r). fst (vf_key r)) ` set t' = (\<lambda>(_, r). fst (vf_key r)) ` set t"
proof -
  have eq: "(\<lambda>(_, r). fst (vf_key r)) ` set u = (\<lambda>(_, r). fst (vf_key r)) ` set (core u)" for u
    by (induction u) auto
  assume "core t' = core t"
  with eq [of t] eq [of t'] show ?thesis by simp
qed

lemma entity_keys_set_count [simp]: "map fst (t_entity (set_count n c d)) = map fst (t_entity d)"
  "t_vfs (set_count n c d) = t_vfs d"
  by (cases n; simp)+

lemma entity_keys_retain [simp]: "map fst (t_entity (retain ns d)) = map fst (t_entity d)" "t_vfs (retain ns d) = t_vfs d"
  by (induction ns arbitrary: d) (auto split: option.split)

lemma insert_vfs_row_unshown:
  assumes "insert_vfs_row i T k n p d = Inr (u, d')"
  shows "Suc (unshown d') \<le> unshown d"
proof -
  let ?new = "(i, \<lparr>vf_type = T, vf_key = k, vf_name = n, vf_parent = p, vf_path = None, vf_dirty = False\<rparr>)"
  from assms obtain t2 ch l where fresh: "\<not> list_ex (\<lambda>(_, q). fst (vf_key q) = fst k) (t_vfs d)"
    and t2: "refresh_paths TRIGGER_DEPTH [i] (mark_dirty p (t_vfs d @ [?new])) = Inr (t2, ch)"
    and ex: "exec_stmt [NEntity k] [] (d\<lparr>t_vfs := t2, t_change_log := l\<rparr>) = Inr d'"
    by (auto simp: insert_vfs_row_def Let_def split: if_splits sum.splits)
  from ex have d': "d' = retain [NEntity k] (d\<lparr>t_vfs := t2, t_change_log := l\<rparr>)"
    and k: "node_exists (d\<lparr>t_vfs := t2, t_change_log := l\<rparr>) (NEntity k)"
    by (auto simp: exec_stmt_def split: if_splits)
  have ids: "(\<lambda>(_, r). fst (vf_key r)) ` set (t_vfs d') = insert (fst k) ((\<lambda>(_, r). fst (vf_key r)) ` set (t_vfs d))"
    using core_ids [of t2 "t_vfs d @ [?new]"] core_refresh [OF t2] by (auto simp: d' simp del: retain.simps)
  have ents: "fst ` set (t_entity d') = fst ` set (t_entity d)"
    unfolding d' list.set_map [symmetric] entity_keys_retain by simp
  from k have kin: "k \<in> fst ` set (t_entity d)"
    by (auto simp: node_exists_def dest!: map_of_SomeD intro: rev_image_eqI)
  have "fst k \<notin> (\<lambda>(_, r). fst (vf_key r)) ` set (t_vfs d)"
    using fresh by (auto simp: list_ex_iff)
  with kin have "fst ` fst ` set (t_entity d) - insert (fst k) ((\<lambda>(_, r). fst (vf_key r)) ` set (t_vfs d))
      \<subset> fst ` fst ` set (t_entity d) - (\<lambda>(_, r). fst (vf_key r)) ` set (t_vfs d)" by auto
  from psubset_card_mono [OF _ this] show ?thesis by (simp add: unshown_def ids ents)
qed

lemma reads_only:
  "entity_type_of k d = Inr (a, d') \<Longrightarrow> d' = d" "entity_by_key E T k d = Inr (b, d') \<Longrightarrow> d' = d"
  by (auto simp: entity_type_of_def entity_by_key_def tx_bind_Inr object_by_id_def tx_some_def tx_io_def
      split: option.splits sum.splits storage_mode.splits if_splits)

lemma create_child_unshown: "create_child E q k d = Inr (c, d') \<Longrightarrow> Suc (unshown d') \<le> unshown d"
  by (auto simp: create_child_def create_inode_def Let_def tx_bind_Inr tx_some_def split: option.splits
      dest!: reads_only insert_vfs_row_unshown)

lemma create_children_unshown:
  "create_children E q ks d = Inr (cs, d') \<Longrightarrow> unshown d' + length cs \<le> unshown d"
proof (induction ks arbitrary: d cs)
  case (Cons k ks)
  from Cons.prems obtain c cs' d1 where "create_child E q k d = Inr (c, d1)"
    "create_children E q ks d1 = Inr (cs', d')" "cs = c # cs'"
    by (auto simp: tx_bind_Inr)
  with create_child_unshown [of E q k d c d1] Cons.IH [of d1 cs'] show ?case by simp
qed simp

text \<open>Breadth first, from a queue of inodes with their entities.\<close>

function rebuild_tree :: "env \<Rightarrow> (inode_id \<times> entity) list \<Rightarrow> unit tx" where
  "rebuild_tree E [] d = Inr ((), d)"
| "rebuild_tree E ((parent, e) # queue) d =
     (case create_children E parent (entity_children (re_body (ent_inner e))) d of
        Inl err \<Rightarrow> Inl err
      | Inr (cs, d') \<Rightarrow> rebuild_tree E (queue @ cs) d')"
  by pat_completeness auto
termination
  by (relation "measure (\<lambda>(E, queue, d). 2 * unshown d + length queue)") (auto dest: create_children_unshown)

definition insert_config :: "config \<Rightarrow> head \<Rightarrow> vfs_id \<Rightarrow> unit tx" where
  "insert_config c h i d =
     (let row = \<lparr>cfr_vfs_id = i, cfr_head = head_name h, cfr_last_modified = cfg_last_modified c,
            cfr_chunk_size = cfg_chunk_size c, cfr_mode = cfg_mode c\<rparr>;
          d1 = d\<lparr>t_config := t_config d @ [row]\<rparr>
      in if t_config d \<noteq> [] then Inl (SqlxError (Aborted ''Only one config entry allowed''))
         else if cfg_chunk_size c = 0 then Inl (SqlxError CheckViolation)
         else if config_head_holds d1 \<and> config_key_holds (cfg_mode c) d then Inr ((), d1)
         else Inl (SqlxError ForeignKeyViolation))"

definition update_config_row :: "config \<Rightarrow> head \<Rightarrow> vfs_id \<Rightarrow> nat tx" where
  "update_config_row c h i d =
     (let hit = (\<lambda>r. cfr_vfs_id r = i);
          d1 = d\<lparr>t_config := map (\<lambda>r. if hit r then r\<lparr>cfr_last_modified := cfg_last_modified c, cfr_mode := cfg_mode c\<rparr> else r) (t_config d)\<rparr>
      in if list_ex (\<lambda>r. hit r \<and> cfr_head r \<noteq> head_name h) (t_config d)
         then Inl (SqlxError (Aborted ''cannot modify vfs_id, head or chunk_size''))
         else if list_ex hit (t_config d) \<and> \<not> config_key_holds (cfg_mode c) d then Inl (SqlxError ForeignKeyViolation)
         else Inr (length (filter hit (t_config d)), d1))"

definition set_config :: "env \<Rightarrow> config \<Rightarrow> head \<Rightarrow> vfs_id \<Rightarrow> unit tx" where
  "set_config E c h i =
     (if \<not> heads_contains_key (ev_config E) (cfg_heads c) h then tx_fail (DataError (HeadEntryNotFound h))
      else tx_bind (current_commit_id h) (\<lambda>prev_commit_id.
      tx_bind (tx_for (heads_iter (cfg_heads c)) (\<lambda>(h', e). upsert_head h' (he_commit_id e))) (\<lambda>_.
      tx_bind config_is_empty (\<lambda>empty.
      tx_bind (if empty then insert_config c h i else tx_bind (update_config_row c h i) affected_one) (\<lambda>_.
      tx_bind current_heads (\<lambda>heads.
      tx_bind (tx_for (filter (\<lambda>h'. \<not> heads_contains_key (ev_config E) (cfg_heads c) h') heads) delete_head_row) (\<lambda>_.
      tx_bind (current_commit_id h) (\<lambda>now_id.
      tx_bind (tx_some (DataError (HeadEntryNotFound h)) now_id) (\<lambda>current_id.
      if Some current_id = prev_commit_id then tx_return ()
      else tx_bind (commit_by_id E current_id) (\<lambda>found.
      tx_bind (tx_some (DataError (CommitNotFound current_id)) found) (\<lambda>commit.
      tx_bind (tx_get (\<lambda>d. map_option vf_key (map_of (t_vfs d) ROOT_INODE_ID))) (\<lambda>current_root.
      if current_root = Some (co_entity_key commit) then tx_return ()
      else tx_bind (\<lambda>d. delete_inodes (map fst (t_vfs d)) d) (\<lambda>_.
      tx_bind (entity_by_key E Dir (co_entity_key commit)) (\<lambda>found.
      tx_bind (tx_some (DataError (EntityNotFound (co_entity_key commit))) found) (\<lambda>root.
      tx_bind (insert_vfs_row ROOT_INODE_ID Dir (entity_key_of root) (re_name (ent_inner root)) None) (\<lambda>_.
      rebuild_tree E [(ROOT_INODE_ID, root)]))))))))))))))))"

definition maybe_set_config :: "env \<Rightarrow> config \<Rightarrow> head \<Rightarrow> vfs_id \<Rightarrow> unit tx" where
  "maybe_set_config E c h i =
     tx_bind config_is_empty (\<lambda>empty.
     if empty then set_config E c h i
     else tx_bind (current_config E) (\<lambda>current.
          if sint (cfg_last_modified c) \<le> sint (cfg_last_modified current) \<or> \<not> config_is_synced c
          then tx_return () else set_config E c h i))"

section \<open>Pull and push\<close>

definition config_sync :: "env \<Rightarrow> head \<Rightarrow> vfs_id \<Rightarrow> remote_oid \<Rightarrow> object_id \<Rightarrow> unit sync" where
  "config_sync E h i remote_object object_id d =
     (case config_load_from_backend (ev_meta E) (ev_config E) (ev_millis E) object_id remote_object (ev_remote E) of
        Inl e \<Rightarrow> Inl (SyncIoError e)
      | Inr c \<Rightarrow> sync_tx SyncDbError (maybe_set_config E c h i) d)"

definition queue_config :: "nat tx" where
  "queue_config =
     tx_bind pushable_config_data (\<lambda>data.
     case data of
       Some bytes \<Rightarrow> tx_bind (enqueue_sync_job_item (JobConfig bytes) (of_nat (length bytes) + 32)) (\<lambda>_. tx_return 1)
     | None \<Rightarrow> tx_return 0)"

definition prepare_config :: "env \<Rightarrow> bytes \<Rightarrow> config option sync" where
  "prepare_config E data d =
     (case config_try_from_flatbuffer (ev_config E) (ev_millis E) data None of
        Inl e \<Rightarrow> Inl (SyncConfigError e)
      | Inr c \<Rightarrow> sync_tx SyncDbError (tx_bind (mark_sync_job_item_pending (QConfig (cfg_cart c))) (\<lambda>_. tx_return (Some c))) d)"

definition process_config :: "config \<Rightarrow> bytes \<Rightarrow> timestamp \<Rightarrow> unit tx" where
  "process_config c location now =
     tx_bind (uploaded_object location now) (\<lambda>oid.
     let c = config_into_synced oid c
     in tx_bind (mark_config_as_synced c) (\<lambda>_. remove_sync_job_item (QConfig (cfg_cart c))))"

section \<open>The invariant is kept\<close>

lemma config_update_ok:
  "db_ok d \<Longrightarrow> db_ok (d\<lparr>t_config := c\<rparr>)"
  by (rule same_refs_ok) (simp_all add: refs_def db_ok_def keys_ok_def)

lemma head_keys: "keys_ok d \<Longrightarrow> keys_ok (d\<lparr>t_head := h\<rparr>)"
  by (simp add: keys_ok_def)

lemma upsert_head_keeps [wf_intros]: "tx_keeps (upsert_head h c)"
  unfolding tx_keeps_def
proof (intro allI impI)
  fix d a d' assume ok: "db_ok d" and run: "upsert_head h c d = Inr (a, d')"
  show "db_ok d'"
  proof (cases "find (\<lambda>(row, _). same_head_name h row) (t_head d)")
    case None
    with run have ex: "exec_stmt [NCommit c] [] (d\<lparr>t_head := t_head d @ [(h, c)]\<rparr>) = Inr d'"
      by (auto simp: upsert_head_def split: sum.splits)
    have "keys_ok (d\<lparr>t_head := t_head d @ [(h, c)]\<rparr>)" using ok by (simp add: db_ok_def head_keys)
    from exec_stmt_keeps [OF ok this _ _ ex] show ?thesis by (simp add: refs_def)
  next
    case (Some p)
    with run tx_keepsD [OF repoint_head_keeps ok] show ?thesis
      by (cases p) (auto simp: upsert_head_def split: sum.splits if_splits)
  qed
qed

lemma head_outs_filter:
  "count_list (head_outs (filter P t)) n + count_list (head_outs (filter (\<lambda>x. \<not> P x) t)) n = count_list (head_outs t) n"
  by (induction t) auto

lemma delete_head_row_keeps [wf_intros]: "tx_keeps (delete_head_row h)"
  unfolding tx_keeps_def
proof (intro allI impI)
  fix d a d' assume ok: "db_ok d" and run: "delete_head_row h d = Inr (a, d')"
  let ?hit = "\<lambda>(row, _). head_matches h row"
  from run have ex: "exec_stmt [] (head_outs (filter ?hit (t_head d))) (d\<lparr>t_head := filter (\<lambda>p. \<not> ?hit p) (t_head d)\<rparr>) = Inr d'"
    by (auto simp: delete_head_row_def Let_def split: sum.splits if_splits)
  have "keys_ok (d\<lparr>t_head := filter (\<lambda>p. \<not> ?hit p) (t_head d)\<rparr>)" using ok by (simp add: db_ok_def head_keys)
  from exec_stmt_keeps [OF ok this _ _ ex] show "db_ok d'"
    using head_outs_filter [of ?hit "t_head d"] by (simp add: refs_def add.commute)
qed

lemma config_rows_keep [wf_intros]:
  "tx_keeps (insert_config c h i)" "tx_keeps (update_config_row c h i)" "tx_keeps (mark_config_as_synced c)"
  by (auto simp: tx_keeps_def insert_config_def update_config_row_def mark_config_as_synced_def Let_def config_update_ok
      split: if_splits storage_mode.splits)

lemma config_reads_keep [wf_intros]:
  "tx_keeps current_heads" "tx_keeps config_is_empty" "tx_keeps (current_config E)"
  "tx_keeps pushable_config_data" "tx_keeps chunk_size"
  unfolding current_heads_def config_is_empty_def current_config_def pushable_config_data_def chunk_size_def
  by (auto intro!: wf_intros split: tx_cases)

lemma maybe_update_config_keeps [wf_intros]: "tx_keeps (maybe_update_config E now)"
proof -
  have "tx_keeps (\<lambda>d. if \<not> config_key_holds m d then Inl e else Inr (x, d\<lparr>t_config := map f (t_config d)\<rparr>))" for m e x f
    by (auto simp: tx_keeps_def config_update_ok)
  then show ?thesis unfolding maybe_update_config_def Let_def by (intro wf_intros)
qed

lemma create_children_keeps [wf_intros]: "tx_keeps (create_children E q ks)"
  by (induction ks) (auto simp: create_child_def intro!: wf_intros)

lemma rebuild_tree_keeps [wf_intros]: "tx_keeps (rebuild_tree E queue)"
  unfolding tx_keeps_def
proof (intro allI impI)
  fix d a d' assume "db_ok d" and "rebuild_tree E queue d = Inr (a, d')"
  then show "db_ok d'"
    by (induction E queue d rule: rebuild_tree.induct)
      (auto split: sum.splits prod.splits dest: tx_keepsD [OF create_children_keeps])
qed

lemma set_config_keeps [wf_intros]: "tx_keeps (set_config E c h i)" "tx_keeps (maybe_set_config E c h i)"
proof -
  have "tx_keeps (\<lambda>d. delete_inodes (map fst (t_vfs d)) d)"
    using delete_inodes_keeps by (auto simp: tx_keeps_def)
  then show *: "tx_keeps (set_config E c h i)" for h
    unfolding set_config_def by (auto intro!: wf_intros)
  show "tx_keeps (maybe_set_config E c h i)"
    unfolding maybe_set_config_def by (intro wf_intros *)
qed

lemma push_config_keeps [wf_intros]: "tx_keeps queue_config" "tx_keeps (process_config c l now)"
  unfolding queue_config_def process_config_def Let_def by (auto intro!: wf_intros split: option.split)

end
