(* ===== verification/Transact.thy ===== *)
theory Transact
  imports ConfigTable BlobIo
begin

text \<open>
  Committing a transaction (\<open>Transaction::commit\<close> in \<open>janus-vfs/src/db.rs\<close>), the caches it
  invalidates (\<open>vfs/cache.rs\<close>), and the operations of the file system that run in one
  transaction (\<open>vfs/mod.rs\<close>, \<open>vfs/directory.rs\<close>, \<open>vfs/file.rs\<close>, \<open>vfs/path.rs\<close>). Operations run
  one after another; the caches (crate \<open>moka\<close>) are maps, and an entry may be evicted at any
  time. The clock is read where the code reads it: each reading is an argument.
\<close>

section \<open>Committing\<close>

record changelog =
  affected_inode_ids :: "inode_id list"
  affected_chunk_ids :: "content_id list"

definition get_changelog :: "changelog tx" where
  "get_changelog = tx_get (\<lambda>d. let keys = remdups (map snd (t_change_log d))
     in \<lparr>affected_inode_ids = List.map_filter (\<lambda>k. case k of KInode i \<Rightarrow> Some (inode_id_new i) | KChunk _ \<Rightarrow> None) keys,
         affected_chunk_ids = List.map_filter (\<lambda>k. case k of KChunk c \<Rightarrow> Some c | KInode _ \<Rightarrow> None) keys\<rparr>)"

definition clear_changelog :: "unit tx" where
  "clear_changelog d = Inr ((), d\<lparr>t_change_log := []\<rparr>)"

definition commit_config :: "env \<Rightarrow> str option \<Rightarrow> timestamp \<Rightarrow> timestamp \<Rightarrow> unit tx" where
  "commit_config E branch now later =
     (case branch of
        None \<Rightarrow> tx_return ()
      | Some branch_name \<Rightarrow>
          tx_bind config_is_empty (\<lambda>empty.
          if empty then tx_return ()
          else tx_bind (update_commit E branch_name now) (\<lambda>c.
               if c \<noteq> None then tx_bind (maybe_update_config E later) (\<lambda>_. tx_return ()) else tx_return ())))"

definition commit_tx :: "env \<Rightarrow> str option \<Rightarrow> timestamp \<Rightarrow> timestamp \<Rightarrow> db \<Rightarrow> (db_error + changelog \<times> db) option" where
  "commit_tx E branch now later d =
     (case process_dirty_inodes E d of
        None \<Rightarrow> None
      | Some (Inl e) \<Rightarrow> Some (Inl e)
      | Some (Inr (_, d1)) \<Rightarrow>
          Some (tx_bind (commit_config E branch now later) (\<lambda>_.
                tx_bind get_changelog (\<lambda>cl.
                tx_bind clear_changelog (\<lambda>_. tx_return cl))) d1))"

section \<open>The file system\<close>

record caches =
  path_cache :: "str \<Rightarrow> inode_id option option"
  inode_cache :: "inode_id \<Rightarrow> inode option option"
  chunk_cache :: "content_id \<Rightarrow> chunk option option"

definition forget :: "'k list \<Rightarrow> ('k \<Rightarrow> 'v option) \<Rightarrow> 'k \<Rightarrow> 'v option" where
  "forget ks m = (\<lambda>k. if k \<in> set ks then None else m k)"

definition invalidate_caches :: "changelog \<Rightarrow> caches \<Rightarrow> caches" where
  "invalidate_caches cl c =
     (let c1 = (if affected_inode_ids cl = [] then c
                else c\<lparr>path_cache := (\<lambda>_. None), inode_cache := forget (affected_inode_ids cl) (inode_cache c)\<rparr>)
      in if affected_chunk_ids cl = [] then c1
         else c1\<lparr>chunk_cache := forget (affected_chunk_ids cl) (chunk_cache c1)\<rparr>)"

record vfs =
  v_id :: vfs_id
  v_head :: head
  v_read_only :: bool
  v_db :: db
  v_caches :: caches

type_synonym 'a vfs_run = "vfs \<Rightarrow> ((vfs_error + 'a) \<times> vfs) option"

definition db_tx :: "'a tx \<Rightarrow> db \<Rightarrow> vfs_error + 'a \<times> db" where
  "db_tx m d = (case m d of Inl e \<Rightarrow> Inl (VfsDbError e) | Inr r \<Rightarrow> Inr r)"

text \<open>
  A read transaction, and a write transaction that is committed when its body succeeds. An
  error drops the transaction: the database stays as it was.
\<close>

definition read_tx :: "(db \<Rightarrow> vfs_error + 'a \<times> db) \<Rightarrow> vfs \<Rightarrow> vfs_error + 'a" where
  "read_tx m v = (case m (v_db v) of Inl e \<Rightarrow> Inl e | Inr (a, _) \<Rightarrow> Inr a)"

definition write_tx_as ::
  "(db_error \<Rightarrow> 'e) \<Rightarrow> env \<Rightarrow> timestamp \<Rightarrow> timestamp \<Rightarrow> (db \<Rightarrow> 'e + 'a \<times> db) \<Rightarrow> vfs \<Rightarrow> (('e + 'a) \<times> vfs) option" where
  "write_tx_as wrap E now later m v =
     (case m ((v_db v)\<lparr>t_change_log := []\<rparr>) of
        Inl e \<Rightarrow> Some (Inl e, v)
      | Inr (a, d1) \<Rightarrow>
          (case commit_tx E (maybe_branch_name (v_head v)) now later d1 of
             None \<Rightarrow> None
           | Some (Inl e) \<Rightarrow> Some (Inl (wrap e), v)
           | Some (Inr (cl, d2)) \<Rightarrow>
               Some (Inr a, v\<lparr>v_db := d2, v_caches := invalidate_caches cl (v_caches v)\<rparr>)))"

definition write_tx :: "env \<Rightarrow> timestamp \<Rightarrow> timestamp \<Rightarrow> (db \<Rightarrow> vfs_error + 'a \<times> db) \<Rightarrow> 'a vfs_run" where
  "write_tx = write_tx_as VfsDbError"

definition vfs_is_empty :: "vfs \<Rightarrow> vfs_error + bool" where
  "vfs_is_empty v = read_tx (db_tx config_is_empty) v"

definition vfs_max_chunk_size :: "vfs \<Rightarrow> vfs_error + u32" where
  "vfs_max_chunk_size v = read_tx (db_tx chunk_size) v"

definition vfs_current_commit :: "env \<Rightarrow> vfs \<Rightarrow> vfs_error + commit" where
  "vfs_current_commit E v = read_tx (db_tx (
     tx_bind (current_commit_id (v_head v)) (\<lambda>found.
     tx_bind (tx_some (DataError (HeadEntryNotFound (v_head v))) found) (\<lambda>i.
     tx_bind (commit_by_id E i) (\<lambda>c.
     tx_some (DataError (CommitNotFound i)) c))))) v"

definition vfs_current_config :: "env \<Rightarrow> vfs \<Rightarrow> vfs_error + config" where
  "vfs_current_config E v = read_tx (db_tx (current_config E)) v"

text \<open>Looking up inodes through the caches; an error is not cached.\<close>

definition vfs_inode_by_id :: "env \<Rightarrow> inode_id \<Rightarrow> vfs \<Rightarrow> (vfs_error + inode option) \<times> vfs" where
  "vfs_inode_by_id E i v =
     (case inode_cache (v_caches v) i of
        Some found \<Rightarrow> (Inr found, v)
      | None \<Rightarrow>
          (case read_tx (db_tx (inode_by_id E i)) v of
             Inl e \<Rightarrow> (Inl (CachedError e), v)
           | Inr found \<Rightarrow>
               (Inr found, v\<lparr>v_caches := (v_caches v)\<lparr>inode_cache := (inode_cache (v_caches v))(i := Some found)\<rparr>\<rparr>)))"

definition vfs_inode_id_by_path :: "str \<Rightarrow> vfs \<Rightarrow> (vfs_error + inode_id option) \<times> vfs" where
  "vfs_inode_id_by_path p v =
     (if path_is_root p then (Inr (Some ROOT_INODE_ID), v)
      else case path_cache (v_caches v) p of
             Some found \<Rightarrow> (Inr found, v)
           | None \<Rightarrow>
               (case read_tx (db_tx (inode_id_by_path p)) v of
                  Inl e \<Rightarrow> (Inl (CachedError e), v)
                | Inr found \<Rightarrow>
                    (Inr found, v\<lparr>v_caches := (v_caches v)\<lparr>path_cache := (path_cache (v_caches v))(p := Some found)\<rparr>\<rparr>)))"

definition vfs_inode_by_path :: "env \<Rightarrow> str \<Rightarrow> vfs \<Rightarrow> (vfs_error + inode option) \<times> vfs" where
  "vfs_inode_by_path E p v =
     (case vfs_inode_id_by_path p v of
        (Inl e, v1) \<Rightarrow> (Inl e, v1)
      | (Inr None, v1) \<Rightarrow> (Inr None, v1)
      | (Inr (Some i), v1) \<Rightarrow> vfs_inode_by_id E i v1)"

definition vfs_root :: "env \<Rightarrow> vfs \<Rightarrow> (vfs_error + typed_inode) \<times> vfs" where
  "vfs_root E v =
     (case vfs_inode_by_id E ROOT_INODE_ID v of
        (Inl e, v1) \<Rightarrow> (Inl e, v1)
      | (Inr (Some (InodeDirectory root)), v1) \<Rightarrow> (Inr root, v1)
      | (Inr _, v1) \<Rightarrow> (Inl MissingRoot, v1))"

text \<open>The stream of \<open>Vfs::list\<close> read to its end: the inodes of the entries, up to an error.\<close>

fun list_from :: "env \<Rightarrow> inode_id list \<Rightarrow> vfs \<Rightarrow> (vfs_error + inode) list \<times> vfs" where
  "list_from E [] v = ([], v)"
| "list_from E (i # is) v =
     (case vfs_inode_by_id E i v of
        (Inl e, v1) \<Rightarrow> ([Inl e], v1)
      | (Inr None, v1) \<Rightarrow> ([Inl (VfsDbError (DataError (InodeNotFound i)))], v1)
      | (Inr (Some n), v1) \<Rightarrow> (case list_from E is v1 of (ns, v2) \<Rightarrow> (Inr n # ns, v2)))"

definition vfs_list :: "env \<Rightarrow> typed_inode \<Rightarrow> vfs \<Rightarrow> (vfs_error + inode) list \<times> vfs" where
  "vfs_list E dir v =
     list_from E (map (\<lambda>key. inode_id_from_entity_id E (fst key)) (entity_children (re_body (ent_inner (ti_entity dir))))) v"

section \<open>Changing the tree\<close>

definition vfs_update :: "env \<Rightarrow> timestamp \<Rightarrow> timestamp \<Rightarrow> entity_type \<Rightarrow> inode_mut \<Rightarrow> vfs \<Rightarrow> ((vfs_error + inode) \<times> vfs) outcome option" where
  "vfs_update E now later T m v =
     (if v_read_only v then Some (Returns (Inl ReadOnlyFileSystem, v))
      else case entity_freeze (ev_hasher E) (ev_entity E) (ev_millis E) T (im_entity m) of
             Panics \<Rightarrow> Some Panics
           | Returns draft \<Rightarrow>
               map_option Returns (write_tx E now later (db_tx (tx_update E T (im_id m) (em_name (im_entity m)) draft)) v))"

definition vfs_delete :: "env \<Rightarrow> timestamp \<Rightarrow> timestamp \<Rightarrow> inode_id \<Rightarrow> unit vfs_run" where
  "vfs_delete E now later i v =
     (if v_read_only v then Some (Inl ReadOnlyFileSystem, v)
      else if i = ROOT_INODE_ID then Some (Inl DeleteRootError, v)
      else write_tx E now later (db_tx (tx_bind (delete_inode i) (\<lambda>_. tx_return ()))) v)"

definition vfs_mv :: "env \<Rightarrow> timestamp \<Rightarrow> timestamp \<Rightarrow> inode_id \<Rightarrow> typed_inode \<Rightarrow> unit vfs_run" where
  "vfs_mv E now later i parent v =
     (if v_read_only v then Some (Inl ReadOnlyFileSystem, v)
      else if i = ROOT_INODE_ID then Some (Inl MoveRootError, v)
      else write_tx E now later (db_tx (move_inode i (ti_id parent))) v)"

text \<open>\<open>Vfs::copy\<close> ends in \<open>todo!()\<close>.\<close>

definition vfs_copy :: "inode_id \<Rightarrow> vfs \<Rightarrow> ((vfs_error + unit) \<times> vfs) outcome" where
  "vfs_copy i v =
     (if v_read_only v then Returns (Inl ReadOnlyFileSystem, v)
      else if i = ROOT_INODE_ID then Returns (Inl CopyRootError, v)
      else Panics)"

definition created_dir :: "inode_id \<Rightarrow> inode option \<Rightarrow> vfs_error + typed_inode" where
  "created_dir i found = (case found of Some (InodeDirectory dir) \<Rightarrow> Inr dir | _ \<Rightarrow> Inl (VfsOther ''inode is not a directory''))"

definition created_file :: "inode_id \<Rightarrow> inode option \<Rightarrow> vfs_error + typed_inode" where
  "created_file i found = (case found of Some (InodeFile file) \<Rightarrow> Inr file | _ \<Rightarrow> Inl (VfsOther ''inode is not a file''))"

definition create_body ::
  "env \<Rightarrow> inode_id tx \<Rightarrow> (inode_id \<Rightarrow> inode option \<Rightarrow> vfs_error + typed_inode) \<Rightarrow> db \<Rightarrow> vfs_error + typed_inode \<times> db" where
  "create_body E mk check d =
     (case db_tx (tx_bind mk (\<lambda>i. tx_bind (inode_by_id E i) (\<lambda>found. tx_return (i, found)))) d of
        Inl e \<Rightarrow> Inl e
      | Inr ((i, found), d1) \<Rightarrow> (case check i found of Inl e \<Rightarrow> Inl e | Inr n \<Rightarrow> Inr (n, d1)))"

definition vfs_create_dir ::
  "env \<Rightarrow> entity_id \<Rightarrow> timestamp \<Rightarrow> timestamp \<Rightarrow> timestamp \<Rightarrow> typed_inode \<Rightarrow> str \<Rightarrow> typed_inode vfs_run" where
  "vfs_create_dir E generated created now later parent name v =
     (if v_read_only v then Some (Inl ReadOnlyFileSystem, v)
      else write_tx E now later (create_body E (tx_create_dir E generated created name (ti_id parent)) created_dir) v)"

text \<open>Unlike \<open>create_dir\<close>, \<open>create_file\<close> has no check for a read-only file system.\<close>

definition vfs_create_file ::
  "env \<Rightarrow> entity_id \<Rightarrow> timestamp \<Rightarrow> timestamp \<Rightarrow> timestamp \<Rightarrow> typed_inode \<Rightarrow> str \<Rightarrow> typed_inode vfs_run" where
  "vfs_create_file E generated created now later parent name v =
     write_tx E now later (create_body E (tx_create_file E generated created name (ti_id parent)) created_file) v"

section \<open>Chunks\<close>

text \<open>The traits \<open>ChunkSource\<close> and \<open>ChunkSink\<close> of the file system and of an open file.\<close>

definition other_error :: "vfs_error \<Rightarrow> io_error" where
  "other_error e = IoError KOther ''file system error''"

definition vfs_get_chunk :: "env \<Rightarrow> content_id \<Rightarrow> vfs \<Rightarrow> (io_error + chunk option) \<times> vfs" where
  "vfs_get_chunk E i v =
     (case chunk_cache (v_caches v) i of
        Some found \<Rightarrow> (Inr found, v)
      | None \<Rightarrow>
          (case read_tx (db_tx (chunk_by_id E i)) v of
             Inl e \<Rightarrow> (Inl (other_error e), v)
           | Inr found \<Rightarrow>
               (Inr found, v\<lparr>v_caches := (v_caches v)\<lparr>chunk_cache := (chunk_cache (v_caches v))(i := Some found)\<rparr>\<rparr>)))"

definition vfs_insert_chunk :: "env \<Rightarrow> timestamp \<Rightarrow> timestamp \<Rightarrow> chunk \<Rightarrow> vfs \<Rightarrow> ((io_error + unit) \<times> vfs) option" where
  "vfs_insert_chunk E now later c v =
     (if v_read_only v then Some (Inl (IoError KReadOnlyFilesystem ''read-only file system''), v)
      else case write_tx E now later (db_tx (register_chunk c (Local []))) v of
             None \<Rightarrow> None
           | Some (Inl e, v1) \<Rightarrow> Some (Inl (other_error e), v1)
           | Some (Inr _, v1) \<Rightarrow>
               Some (Inr (), v1\<lparr>v_caches := (v_caches v1)\<lparr>chunk_cache := (chunk_cache (v_caches v1))(ch_id c := Some (Some c))\<rparr>\<rparr>))"

definition tracker_insert_chunk ::
  "env \<Rightarrow> timestamp \<Rightarrow> timestamp \<Rightarrow> nat \<Rightarrow> chunk \<Rightarrow> vfs \<Rightarrow> ((io_error + unit) \<times> vfs) option" where
  "tracker_insert_chunk E now later fh c v =
     (case vfs_insert_chunk E now later c v of
        None \<Rightarrow> None
      | Some (Inl e, v1) \<Rightarrow> Some (Inl e, v1)
      | Some (Inr _, v1) \<Rightarrow>
          (case write_tx E now later (db_tx (insert_temp_fh_chunk fh (ch_id c))) v1 of
             None \<Rightarrow> None
           | Some (Inl e, v2) \<Rightarrow> Some (Inl (other_error e), v2)
           | Some (Inr _, v2) \<Rightarrow> Some (Inr (), v2)))"

section \<open>Files\<close>

definition file_blob_id :: "typed_inode \<Rightarrow> content_id" where
  "file_blob_id f = (case re_body (ent_inner (ti_entity f)) of FileBody _ b \<Rightarrow> b | DirectoryBody _ \<Rightarrow> zeroed_id)"

definition file_len :: "typed_inode \<Rightarrow> u64" where
  "file_len f = (case re_body (ent_inner (ti_entity f)) of FileBody n _ \<Rightarrow> n | DirectoryBody _ \<Rightarrow> 0)"

definition vfs_blob_by_id :: "env \<Rightarrow> content_id \<Rightarrow> vfs \<Rightarrow> vfs_error + blob option" where
  "vfs_blob_by_id E b v = read_tx (db_tx (blob_by_id E b)) v"

definition file_blob :: "env \<Rightarrow> typed_inode \<Rightarrow> vfs \<Rightarrow> vfs_error + blob" where
  "file_blob E f v =
     (case vfs_blob_by_id E (file_blob_id f) v of
        Inl e \<Rightarrow> Inl e
      | Inr None \<Rightarrow> Inl (VfsDbError (DataError (BlobNotFound (file_blob_id f))))
      | Inr (Some b) \<Rightarrow> Inr b)"

definition vfs_open :: "env \<Rightarrow> typed_inode \<Rightarrow> vfs \<Rightarrow> vfs_error + vfs blob_reader" where
  "vfs_open E f v = (case file_blob E f v of Inl e \<Rightarrow> Inl e | Inr b \<Rightarrow> Inr (new_reader b v))"

text \<open>An open file: the writer's world is the file system it belongs to.\<close>

record file_handle =
  fhd_id :: nat
  fhd_writer :: "vfs blob_writer"
  fhd_file :: inode_mut
  fhd_armed :: bool

definition open_body :: "env \<Rightarrow> typed_inode \<Rightarrow> db \<Rightarrow> vfs_error + (nat \<times> typed_inode) \<times> db" where
  "open_body E f d =
     (case db_tx (tx_bind (inode_by_id E (ti_id f)) (\<lambda>found.
                  tx_some (DataError (InodeNotFound (ti_id f))) found)) d of
        Inl e \<Rightarrow> Inl e
      | Inr (InodeDirectory _, _) \<Rightarrow> Inl (VfsOther ''inode is not a file'')
      | Inr (InodeFile current, d1) \<Rightarrow>
          if f \<noteq> current then Inl (VfsOther ''file has been modified'')
          else (case db_tx (create_fh (ti_id f)) d1 of
                  Inl e \<Rightarrow> Inl e
                | Inr (fh, d2) \<Rightarrow> Inr ((fh, current), d2)))"

text \<open>Opening for writing, once the lock of the inode is held.\<close>

definition vfs_open_rw :: "env \<Rightarrow> timestamp \<Rightarrow> timestamp \<Rightarrow> typed_inode \<Rightarrow> file_handle vfs_run" where
  "vfs_open_rw E now later f v =
     (if v_read_only v then Some (Inl ReadOnlyFileSystem, v)
      else case file_blob E f v of
             Inl e \<Rightarrow> Some (Inl e, v)
           | Inr b \<Rightarrow>
               (case write_tx E now later (open_body E f) v of
                  None \<Rightarrow> None
                | Some (Inl e, v1) \<Rightarrow> Some (Inl e, v1)
                | Some (Inr (fh, current), v1) \<Rightarrow>
                    (case vfs_max_chunk_size v1 of
                       Inl e \<Rightarrow> Some (Inl e, v1)
                     | Inr n \<Rightarrow>
                         Some (Inr \<lparr>fhd_id = fh, fhd_writer = new_writer (into_mut b) v1 (ucast n),
                                    fhd_file = inode_into_mut current, fhd_armed = True\<rparr>, v1))))"

definition fsync_body :: "env \<Rightarrow> inode_mut \<Rightarrow> blob \<Rightarrow> timestamp \<Rightarrow> db \<Rightarrow> vfs_error + typed_inode \<times> db" where
  "fsync_body E file b modified d =
     (case db_tx (tx_fsync E file b modified) d of
        Inl e \<Rightarrow> Inl e
      | Inr (n, d1) \<Rightarrow> (case n of InodeFile f \<Rightarrow> Inr (f, d1) | InodeDirectory _ \<Rightarrow> Inl (VfsOther ''inode is not a file'')))"

text \<open>
  Storing the blob a writer finished: as the new content of the file (\<open>fsync\<close>), and with the
  end of the handle (\<open>commit\<close>).
\<close>

definition handle_fsync :: "env \<Rightarrow> timestamp \<Rightarrow> timestamp \<Rightarrow> timestamp \<Rightarrow> file_handle \<Rightarrow> blob \<Rightarrow> (typed_inode \<times> file_handle) vfs_run" where
  "handle_fsync E modified now later h b v =
     (case write_tx E now later (fsync_body E (fhd_file h) b modified) v of
        None \<Rightarrow> None
      | Some (Inl e, v1) \<Rightarrow> Some (Inl e, v1)
      | Some (Inr f, v1) \<Rightarrow> Some (Inr (f, h\<lparr>fhd_file := inode_into_mut f\<rparr>), v1))"

definition handle_commit :: "env \<Rightarrow> timestamp \<Rightarrow> timestamp \<Rightarrow> timestamp \<Rightarrow> file_handle \<Rightarrow> blob \<Rightarrow> (typed_inode \<times> file_handle) vfs_run" where
  "handle_commit E modified now later h b v =
     (case write_tx E now later (\<lambda>d.
             case fsync_body E (fhd_file h) b modified d of
               Inl e \<Rightarrow> Inl e
             | Inr (f, d1) \<Rightarrow> (case db_tx (delete_fh (fhd_id h)) d1 of Inl e \<Rightarrow> Inl e | Inr (_, d2) \<Rightarrow> Inr (f, d2))) v of
        None \<Rightarrow> None
      | Some (Inl e, v1) \<Rightarrow> Some (Inl e, v1)
      | Some (Inr f, v1) \<Rightarrow> Some (Inr (f, h\<lparr>fhd_armed := False\<rparr>), v1))"

text \<open>
  Dropping a handle that was not committed tells the reaper, which removes it; the reaper
  ignores errors.
\<close>

definition reap :: "env \<Rightarrow> timestamp \<Rightarrow> timestamp \<Rightarrow> nat \<Rightarrow> vfs \<Rightarrow> vfs option" where
  "reap E now later fh v =
     (let d = (v_db v)\<lparr>t_change_log := []\<rparr>;
          d1 = (case delete_fh fh d of Inl _ \<Rightarrow> d | Inr (_, d1) \<Rightarrow> d1)
      in map_option snd (write_tx E now later (\<lambda>_. Inr ((), d1)) v))"

end
