(* ===== verification/Push.thy ===== *)
theory Push
  imports Transact
begin

text \<open>
  Pushing local data to the remote storage (\<open>janus-vfs/src/sync/push.rs\<close>) through the
  uploader of \<open>janus-io/src/upload.rs\<close>. What the remote backend answers to each upload is a
  parameter, numbered by the uploads made so far; so are the readings of the clock, which
  does not advance during one step. Waiting between attempts is not modelled.
\<close>

section \<open>The uploader\<close>

text \<open>
  The backend: whether it packs several objects into one upload, how much a pack still takes,
  whether adding to it works, and what the n-th upload answers (the locations of the objects
  or an error; \<open>pin\<close> is the check of a packed object after the upload).
\<close>

record upload_backend =
  ub_packed :: bool
  ub_remaining :: "uploadable list \<Rightarrow> u64"
  ub_add :: "uploadable list \<Rightarrow> uploadable \<Rightarrow> upload_error option"
  ub_upload :: "nat \<Rightarrow> uploadable list \<Rightarrow> upload_error + bytes list"
  ub_pin :: "nat \<Rightarrow> bytes \<Rightarrow> upload_error + bytes"

datatype uploader_inner = Packed "uploadable list" | Simple "uploadable option"

record uploader =
  up_inner :: uploader_inner
  up_idx :: nat

definition prepare_multi_upload :: "upload_backend \<Rightarrow> uploader" where
  "prepare_multi_upload U = \<lparr>up_inner = (if ub_packed U then Packed [] else Simple None), up_idx = 0\<rparr>"

definition space_remaining :: "upload_backend \<Rightarrow> uploader \<Rightarrow> u64" where
  "space_remaining U up = (case up_inner up of
     Packed packed \<Rightarrow> ub_remaining U packed
   | Simple simple \<Rightarrow> if simple \<noteq> None then 0 else - 1)"

definition up_is_full :: "uploader \<Rightarrow> bool" where
  "up_is_full up = (case up_inner up of Packed _ \<Rightarrow> False | Simple simple \<Rightarrow> simple \<noteq> None)"

definition up_is_empty :: "uploader \<Rightarrow> bool" where
  "up_is_empty up = (up_idx up = 0)"

definition up_enqueue :: "upload_backend \<Rightarrow> uploadable \<Rightarrow> uploader \<Rightarrow> upload_error + uploader" where
  "up_enqueue U ob up =
     (if up_is_full up then Inl UploadQueueFull
      else case up_inner up of
             Packed packed \<Rightarrow>
               (case ub_add U packed ob of
                  Some e \<Rightarrow> Inl e
                | None \<Rightarrow> Inr \<lparr>up_inner = Packed (packed @ [ob]), up_idx = Suc (up_idx up)\<rparr>)
           | Simple (Some _) \<Rightarrow> Inl UploadQueueFull
           | Simple None \<Rightarrow> Inr \<lparr>up_inner = Simple (Some ob), up_idx = Suc (up_idx up)\<rparr>)"

fun pin_all :: "upload_backend \<Rightarrow> nat \<Rightarrow> bytes list \<Rightarrow> upload_error + bytes list" where
  "pin_all U n [] = Inr []"
| "pin_all U n (loc # locs) =
     (case ub_pin U n loc of
        Inl e \<Rightarrow> Inl e
      | Inr loc' \<Rightarrow> (case pin_all U n locs of Inl e \<Rightarrow> Inl e | Inr locs' \<Rightarrow> Inr (loc' # locs')))"

definition process_packed :: "upload_backend \<Rightarrow> nat \<Rightarrow> uploadable list \<Rightarrow> upload_error + bytes list" where
  "process_packed U n packed =
     (case ub_upload U n packed of
        Inl e \<Rightarrow> Inl e
      | Inr locs \<Rightarrow> if length locs \<noteq> length packed then Inl ObjectMismatch else pin_all U n locs)"

definition process_simple :: "upload_backend \<Rightarrow> nat \<Rightarrow> uploadable \<Rightarrow> upload_error + bytes list" where
  "process_simple U n ob =
     (case ub_upload U n [ob] of
        Inl e \<Rightarrow> Inl e
      | Inr (loc # _) \<Rightarrow> Inr [loc]
      | Inr [] \<Rightarrow> Inl (UploadOther ''no object''))"

definition up_process :: "upload_backend \<Rightarrow> nat \<Rightarrow> uploader \<Rightarrow> upload_error + bytes list" where
  "up_process U n up =
     (case up_inner up of
        Packed packed \<Rightarrow> if up_idx up = 0 then Inr [] else process_packed U n packed
      | Simple (Some simple) \<Rightarrow> process_simple U n simple
      | Simple None \<Rightarrow> Inr [])"

text \<open>The number of objects answered is the number of objects enqueued.\<close>

definition uploader_ok :: "uploader \<Rightarrow> bool" where
  "uploader_ok up = (case up_inner up of
     Packed packed \<Rightarrow> up_idx up = length packed
   | Simple simple \<Rightarrow> up_idx up = (if simple = None then 0 else 1))"

lemma uploader_ok_prepare [wf_intros]: "uploader_ok (prepare_multi_upload U)"
  by (simp add: uploader_ok_def prepare_multi_upload_def)

lemma up_enqueue_ok:
  "uploader_ok up \<Longrightarrow> up_enqueue U ob up = Inr up' \<Longrightarrow> uploader_ok up' \<and> up_idx up' = Suc (up_idx up)"
  by (auto simp: uploader_ok_def up_enqueue_def up_is_full_def split: uploader_inner.splits option.splits if_splits)

lemma length_pin_all: "pin_all U n locs = Inr locs' \<Longrightarrow> length locs' = length locs"
  by (induction locs arbitrary: locs') (auto split: sum.splits)

lemma up_process_length: "uploader_ok up \<Longrightarrow> up_process U n up = Inr locs \<Longrightarrow> length locs = up_idx up"
  by (auto simp: uploader_ok_def up_process_def process_packed_def process_simple_def
      split: uploader_inner.splits option.splits if_splits sum.splits list.splits dest!: length_pin_all)

section \<open>Items\<close>

datatype pending =
    PChunk chunk
  | PBlob blob
  | PFile entity
  | PDir entity
  | PCommit commit
  | PConfig config

fun pending_uploadable :: "env \<Rightarrow> vfs_id \<Rightarrow> pending \<Rightarrow> uploadable" where
  "pending_uploadable E i (PChunk c) = chunk_to_uploadable_object (ev_uuid_text E i) c"
| "pending_uploadable E i (PBlob b) = blob_to_uploadable_object (ev_blob E) (ev_uuid_text E i) b"
| "pending_uploadable E i (PFile f) = entity_to_uploadable_object (ev_uuid_text E) File (ev_uuid_text E i) f"
| "pending_uploadable E i (PDir d) = entity_to_uploadable_object (ev_uuid_text E) Dir (ev_uuid_text E i) d"
| "pending_uploadable E i (PCommit c) = commit_to_uploadable_object (ev_commit E) (ev_uuid_text E i) c"
| "pending_uploadable E i (PConfig c) = config_to_uploadable_object (ev_decimal E) (ev_uuid_text E i) c"

definition sync_bind :: "'a sync \<Rightarrow> ('a \<Rightarrow> 'b sync) \<Rightarrow> 'b sync" where
  "sync_bind m f d = (case m d of Inl e \<Rightarrow> Inl e | Inr (a, d') \<Rightarrow> f a d')"

definition sync_return :: "'a \<Rightarrow> 'a sync" where
  "sync_return a d = Inr (a, d)"

definition next_queue_item :: "env \<Rightarrow> u64 option \<Rightarrow> pending option sync" where
  "next_queue_item E max_estimated_size =
     sync_bind (sync_tx SyncDbError (next_sync_item max_estimated_size)) (\<lambda>item.
     case item of
       Some (JobChunk i) \<Rightarrow> sync_bind (sync_tx SyncDbError (prepare_chunk E i)) (\<lambda>c. sync_return (map_option PChunk c))
     | Some (JobBlob i) \<Rightarrow> sync_bind (sync_tx SyncDbError (prepare_blob E i)) (\<lambda>b. sync_return (map_option PBlob b))
     | Some (JobEntity key File) \<Rightarrow> sync_bind (sync_tx SyncDbError (prepare_entity E File key)) (\<lambda>e. sync_return (map_option PFile e))
     | Some (JobEntity key Dir) \<Rightarrow> sync_bind (sync_tx SyncDbError (prepare_entity E Dir key)) (\<lambda>e. sync_return (map_option PDir e))
     | Some (JobCommit i) \<Rightarrow> sync_bind (sync_tx SyncDbError (prepare_commit E i)) (\<lambda>c. sync_return (map_option PCommit c))
     | Some (JobConfig data) \<Rightarrow> sync_bind (prepare_config E data) (\<lambda>c. sync_return (map_option PConfig c))
     | None \<Rightarrow> sync_return None)"

fun process_item :: "env \<Rightarrow> timestamp \<Rightarrow> pending \<Rightarrow> bytes \<Rightarrow> unit tx" where
  "process_item E now (PChunk c) loc = process_chunk c loc now"
| "process_item E now (PBlob b) loc = process_blob E b loc now"
| "process_item E now (PFile f) loc = process_entity File f loc now"
| "process_item E now (PDir d) loc = process_entity Dir d loc now"
| "process_item E now (PCommit c) loc = process_commit E c loc now"
| "process_item E now (PConfig c) loc = process_config c loc now"

fun process_items :: "env \<Rightarrow> timestamp \<Rightarrow> (pending \<times> bytes) list \<Rightarrow> unit tx" where
  "process_items E now [] = tx_return ()"
| "process_items E now ((item, loc) # rest) = tx_bind (process_item E now item loc) (\<lambda>_. process_items E now rest)"

section \<open>Filling the uploader\<close>

text \<open>Every item that is taken from the queue becomes pending.\<close>

definition unpended :: "db \<Rightarrow> nat" where
  "unpended d = length (filter (\<lambda>(_, r). \<not> q_pending r) (t_queue d))"

lemma pend_unpended:
  "length (filter (\<lambda>(_, r). q_item r = it \<and> \<not> q_pending r) t) = 1 \<Longrightarrow>
    length (filter (\<lambda>(_, r). \<not> q_pending r) (map (\<lambda>(i, r). if q_item r = it \<and> \<not> q_pending r then (i, r\<lparr>q_pending := True\<rparr>) else (i, r)) t))
      + 1 = length (filter (\<lambda>(_, r). \<not> q_pending r) t)"
proof -
  have "length (filter (\<lambda>(_, r). \<not> q_pending r) (map (\<lambda>(i, r). if q_item r = it \<and> \<not> q_pending r then (i, r\<lparr>q_pending := True\<rparr>) else (i, r)) t))
      + length (filter (\<lambda>(_, r). q_item r = it \<and> \<not> q_pending r) t) = length (filter (\<lambda>(_, r). \<not> q_pending r) t)"
    by (induction t) (auto split: if_splits)
  then show "length (filter (\<lambda>(_, r). q_item r = it \<and> \<not> q_pending r) t) = 1 \<Longrightarrow> ?thesis" by simp
qed

lemma mark_pending_unpended:
  "mark_sync_job_item_pending it d = Inr (u, d') \<Longrightarrow> Suc (unpended d') = unpended d"
  using pend_unpended [of it "t_queue d"]
  by (auto simp: mark_sync_job_item_pending_def pend_queue_item_def tx_bind_Inr affected_one_def unpended_def Let_def
      split: if_splits)

lemma reads_same:
  "is_chunk_local i d = Inr (a, d') \<Longrightarrow> d' = d" "is_commit_local i d = Inr (b, d') \<Longrightarrow> d' = d"
  "chunk_by_id E i d = Inr (c, d') \<Longrightarrow> d' = d" "blob_by_id E i d = Inr (e, d') \<Longrightarrow> d' = d"
  "commit_by_id E i d = Inr (f, d') \<Longrightarrow> d' = d" "tx_some err v d = Inr (g, d') \<Longrightarrow> d' = d"
  "next_sync_item m d = Inr (h, d') \<Longrightarrow> d' = d"
  by (auto simp: is_chunk_local_def is_commit_local_def chunk_by_id_def blob_by_id_def commit_by_id_def tx_row_def
      remote_oid_of_def object_by_id_def next_sync_item_def chunk_item_def blob_item_def commit_item_def config_item_def
      entity_item_def queue_row_of_def tx_bind_Inr tx_some_def tx_io_def Let_def
      split: option.splits sum.splits storage_mode.splits if_splits queue_item.splits)

lemma prepare_unpended:
  "prepare_chunk E i d = Inr (Some c, d') \<Longrightarrow> unpended d' < unpended d"
  "prepare_blob E i d = Inr (Some b, d') \<Longrightarrow> unpended d' < unpended d"
  "prepare_entity E T k d = Inr (Some e, d') \<Longrightarrow> unpended d' < unpended d"
  "prepare_commit E i d = Inr (Some m, d') \<Longrightarrow> unpended d' < unpended d"
  "prepare_config E bs d = Inr (Some f, d') \<Longrightarrow> unpended d' < unpended d"
proof -
  show "prepare_chunk E i d = Inr (Some c, d') \<Longrightarrow> unpended d' < unpended d"
    by (auto simp: prepare_chunk_def tx_bind_Inr dest!: mark_pending_unpended reads_same split: if_splits)
  show "prepare_blob E i d = Inr (Some b, d') \<Longrightarrow> unpended d' < unpended d"
    by (auto simp: prepare_blob_def tx_bind_Inr dest!: mark_pending_unpended reads_same split: storage_mode.splits)
      (metis storage_mode.exhaust)
  show "prepare_entity E T k d = Inr (Some e, d') \<Longrightarrow> unpended d' < unpended d"
    by (auto simp: prepare_entity_def tx_bind_Inr dest!: mark_pending_unpended reads_same reads_only split: entity_mode.splits)
      (metis entity_mode.exhaust)
  show "prepare_commit E i d = Inr (Some m, d') \<Longrightarrow> unpended d' < unpended d"
    by (auto simp: prepare_commit_def tx_bind_Inr dest!: mark_pending_unpended reads_same split: if_splits)
  show "prepare_config E bs d = Inr (Some f, d') \<Longrightarrow> unpended d' < unpended d"
    by (auto simp: prepare_config_def sync_tx_def tx_bind_Inr dest!: mark_pending_unpended split: sum.splits)
qed

lemma next_queue_item_unpended:
  "next_queue_item E m d = Inr (Some p, d') \<Longrightarrow> unpended d' < unpended d"
  by (auto simp: next_queue_item_def sync_bind_def sync_return_def sync_tx_def
      dest!: reads_same prepare_unpended split: sum.splits option.splits job_item.splits entity_type.splits)

definition enqueue_pending :: "env \<Rightarrow> upload_backend \<Rightarrow> vfs_id \<Rightarrow> pending \<Rightarrow> uploader \<Rightarrow> sync_error + uploader" where
  "enqueue_pending E U i item up =
     (case up_enqueue U (pending_uploadable E i item) up of Inl e \<Rightarrow> Inl (SyncUploadError e) | Inr up' \<Rightarrow> Inr up')"

function fill_uploader :: "env \<Rightarrow> upload_backend \<Rightarrow> vfs_id \<Rightarrow> uploader \<Rightarrow> pending list \<Rightarrow> (uploader \<times> pending list) sync" where
  "fill_uploader E U i up items d =
     (if up_is_full up then Inr ((up, items), d)
      else case next_queue_item E (Some (space_remaining U up)) d of
             Inl e \<Rightarrow> Inl e
           | Inr (Some item, d1) \<Rightarrow>
               (case enqueue_pending E U i item up of
                  Inl e \<Rightarrow> Inl e
                | Inr up' \<Rightarrow> fill_uploader E U i up' (items @ [item]) d1)
           | Inr (None, d1) \<Rightarrow>
               if \<not> up_is_empty up then Inr ((up, items), d1)
               else (case next_queue_item E None d1 of
                       Inl e \<Rightarrow> Inl e
                     | Inr (None, d2) \<Rightarrow> Inr ((up, items), d2)
                     | Inr (Some item, d2) \<Rightarrow>
                         (case enqueue_pending E U i item up of
                            Inl e \<Rightarrow> Inl e
                          | Inr up' \<Rightarrow> Inr ((up', items @ [item]), d2))))"
  by pat_completeness auto
termination
  by (relation "measure (\<lambda>(E, U, i, up, items, d). unpended d)") (auto dest: next_queue_item_unpended)

declare fill_uploader.simps [simp del]

section \<open>Running a push\<close>

text \<open>The state of a push: the file system and the number of uploads made.\<close>

type_synonym push_state = "vfs \<times> nat"

text \<open>One round of \<open>_process_queue\<close>: fill an uploader, upload, record what was uploaded.\<close>

definition push_round :: "env \<Rightarrow> upload_backend \<Rightarrow> (nat \<Rightarrow> timestamp) \<Rightarrow> push_state \<Rightarrow> ((sync_error + bool) \<times> push_state) outcome option" where
  "push_round E U clock = (\<lambda>(v, n).
     case write_tx_as SyncDbError E (clock n) (clock n) (fill_uploader E U (v_id v) (prepare_multi_upload U) []) v of
       None \<Rightarrow> None
     | Some (Inl e, v1) \<Rightarrow> Some (Returns (Inl e, v1, n))
     | Some (Inr (up, items), v1) \<Rightarrow>
         if up_is_empty up then Some (Returns (Inr False, v1, n))
         else (case up_process U n up of
                 Inl e \<Rightarrow> Some (Returns (Inl (SyncUploadError e), v1, Suc n))
               | Inr objects \<Rightarrow>
                   if length objects \<noteq> length items then Some Panics
                   else (case write_tx_as SyncDbError E (clock n) (clock n)
                                (sync_tx SyncDbError (process_items E (clock n) (zip items objects))) v1 of
                           None \<Rightarrow> None
                         | Some (Inl e, v2) \<Rightarrow> Some (Returns (Inl e, v2, Suc n))
                         | Some (Inr _, v2) \<Rightarrow> Some (Returns (Inr True, v2, Suc n)))))"

partial_function (option) push_rounds ::
  "env \<Rightarrow> upload_backend \<Rightarrow> (nat \<Rightarrow> timestamp) \<Rightarrow> push_state \<Rightarrow> ((sync_error + unit) \<times> push_state) outcome option" where
  "push_rounds E U clock s =
     (case push_round E U clock s of
        None \<Rightarrow> None
      | Some Panics \<Rightarrow> Some Panics
      | Some (Returns (Inl e, s')) \<Rightarrow> Some (Returns (Inl e, s'))
      | Some (Returns (Inr again, s')) \<Rightarrow> if again then push_rounds E U clock s' else Some (Returns (Inr (), s')))"

definition process_queue_once ::
  "env \<Rightarrow> upload_backend \<Rightarrow> (nat \<Rightarrow> timestamp) \<Rightarrow> push_state \<Rightarrow> ((sync_error + unit) \<times> push_state) outcome option" where
  "process_queue_once E U clock = (\<lambda>(v, n).
     case write_tx_as SyncDbError E (clock n) (clock n) (sync_tx SyncDbError reset_pending_job_items) v of
       None \<Rightarrow> None
     | Some (Inl e, v1) \<Rightarrow> Some (Returns (Inl e, v1, n))
     | Some (Inr _, v1) \<Rightarrow> push_rounds E U clock (v1, n))"

text \<open>At most \<open>max_attempts\<close> attempts; the first argument is how many are left after this one.\<close>

fun process_queue ::
  "nat \<Rightarrow> env \<Rightarrow> upload_backend \<Rightarrow> (nat \<Rightarrow> timestamp) \<Rightarrow> push_state \<Rightarrow> ((sync_error + unit) \<times> push_state) outcome option" where
  "process_queue left E U clock s =
     (case process_queue_once E U clock s of
        None \<Rightarrow> None
      | Some Panics \<Rightarrow> Some Panics
      | Some (Returns (Inr _, s')) \<Rightarrow> Some (Returns (Inr (), s'))
      | Some (Returns (Inl _, s')) \<Rightarrow>
          (case left of 0 \<Rightarrow> Some (Returns (Inl TooManyErrors, s')) | Suc m \<Rightarrow> process_queue m E U clock s'))"

definition create_new_queue :: "env \<Rightarrow> str \<Rightarrow> timestamp \<Rightarrow> nat tx" where
  "create_new_queue E branch_name now =
     tx_bind (create_sync_job branch_name now) (\<lambda>_.
     tx_bind queue_chunks (\<lambda>a.
     tx_bind (queue_blobs E) (\<lambda>b.
     tx_bind (queue_entities E) (\<lambda>c.
     tx_bind queue_commits (\<lambda>e.
     tx_bind queue_config (\<lambda>f. tx_return (a + b + c + e + f)))))))"

text \<open>The first transaction of \<open>_run\<close>: whether there is a queue to work on.\<close>

definition start_push :: "env \<Rightarrow> str \<Rightarrow> timestamp \<Rightarrow> bool tx" where
  "start_push E branch_name now =
     tx_bind clear_sync_job (\<lambda>_.
     tx_bind has_push_items (\<lambda>any.
     if \<not> any then tx_return False
     else tx_bind (create_new_queue E branch_name now) (\<lambda>n.
          if n = 0 then tx_bind clear_sync_job (\<lambda>_. tx_return False) else tx_return True)))"

definition push_run ::
  "env \<Rightarrow> upload_backend \<Rightarrow> (nat \<Rightarrow> timestamp) \<Rightarrow> nat \<Rightarrow> str \<Rightarrow> push_state \<Rightarrow> ((sync_error + unit) \<times> push_state) outcome option" where
  "push_run E U clock max_attempts branch_name = (\<lambda>(v, n).
     case write_tx_as SyncDbError E (clock n) (clock n) (sync_tx SyncDbError (start_push E branch_name (clock n))) v of
       None \<Rightarrow> None
     | Some (Inl e, v1) \<Rightarrow> Some (Returns (Inl e, v1, n))
     | Some (Inr has_items, v1) \<Rightarrow>
         if has_items then process_queue (max_attempts - 1) E U clock (v1, n) else Some (Returns (Inr (), v1, n)))"

definition push_task ::
  "env \<Rightarrow> upload_backend \<Rightarrow> (nat \<Rightarrow> timestamp) \<Rightarrow> nat \<Rightarrow> str \<Rightarrow> push_state \<Rightarrow> ((sync_error + unit) \<times> push_state) outcome option" where
  "push_task E U clock max_attempts branch_name = (\<lambda>(v, n).
     if v_read_only v then Some (Returns (Inl (SyncVfsError ReadOnlyFileSystem), v, n))
     else case push_run E U clock max_attempts branch_name (v, n) of
            None \<Rightarrow> None
          | Some Panics \<Rightarrow> Some Panics
          | Some (Returns (res, v1, n1)) \<Rightarrow>
              (case write_tx_as SyncDbError E (clock n1) (clock n1) (sync_tx SyncDbError clear_sync_job) v1 of
                 None \<Rightarrow> None
               | Some (Inl e, v2) \<Rightarrow> Some (Returns (Inl e, v2, n1))
               | Some (Inr _, v2) \<Rightarrow> Some (Returns (res, v2, n1))))"

definition push :: "env \<Rightarrow> upload_backend \<Rightarrow> (nat \<Rightarrow> timestamp) \<Rightarrow> nat \<Rightarrow> push_state \<Rightarrow> ((sync_error + unit) \<times> push_state) outcome option" where
  "push E U clock max_attempts = (\<lambda>(v, n).
     case maybe_branch_name (v_head v) of
       None \<Rightarrow> Some (Returns (Inl NotBranchError, v, n))
     | Some branch_name \<Rightarrow> push_task E U clock max_attempts branch_name (v, n))"

end
