(* ===== verification/EntitySort.thy ===== *)
theory EntitySort
  imports Push
begin

text \<open>
  The order in which a pull takes over the entities (\<open>PullTask::sort_entities\<close> in
  \<open>janus-vfs/src/vfs/entity.rs\<close>): an entity refers to its children, so directories come after
  the entities in them. The order in which a \<open>HashMap\<close> yields its keys is a parameter.
\<close>

section \<open>Remote objects\<close>

text \<open>
  An object of the remote storage with its metadata, converted. The code repeats the conversion
  where it needs it, always on the same bytes.
\<close>

record remote_object =
  ro_id :: remote_oid
  ro_metadata :: metadata

definition ro_get :: "env \<Rightarrow> remote_object \<Rightarrow> bytes \<Rightarrow> bytes option" where
  "ro_get E o' key = md_get (ev_meta E) (ro_metadata o') key"

section \<open>Depths\<close>

definition MAX_DEPTH :: nat where
  "MAX_DEPTH = 1024"

type_synonym dirs = "entity_key \<Rightarrow> entity_key list option"

type_synonym depths = "entity_key \<Rightarrow> nat option"

text \<open>
  The depth of a directory: one more than that of its deepest child, 0 without directories in
  it. Depths already known are remembered; the first argument bounds the nesting.
\<close>

function dir_depth :: "nat \<Rightarrow> dirs \<Rightarrow> entity_key \<Rightarrow> depths \<Rightarrow> sync_error + nat \<times> depths"
  and deepest_child :: "nat \<Rightarrow> dirs \<Rightarrow> entity_key list \<Rightarrow> nat \<Rightarrow> depths \<Rightarrow> sync_error + nat \<times> depths" where
  "dir_depth budget dirs key memo =
     (case memo key of
        Some d \<Rightarrow> Inr (d, memo)
      | None \<Rightarrow>
          (case budget of
             0 \<Rightarrow> Inl MaxDepthExceeded
           | Suc budget' \<Rightarrow>
               (case deepest_child budget' dirs (case dirs key of Some children \<Rightarrow> children | None \<Rightarrow> []) 0 memo of
                  Inl e \<Rightarrow> Inl e
                | Inr (d, memo') \<Rightarrow> Inr (d, memo'(key \<mapsto> d)))))"
| "deepest_child budget dirs [] d memo = Inr (d, memo)"
| "deepest_child budget dirs (c # cs) d memo =
     (if dirs c = None then deepest_child budget dirs cs d memo
      else case dir_depth budget dirs c memo of
             Inl e \<Rightarrow> Inl e
           | Inr (n, memo') \<Rightarrow> deepest_child budget dirs cs (max d (n + 1)) memo')"
  by pat_completeness auto
termination
  by (relation "measures [\<lambda>x. case x of Inl (b, _) \<Rightarrow> 2 * b | Inr (b, _) \<Rightarrow> 2 * b + 1,
                          \<lambda>x. case x of Inl _ \<Rightarrow> 0 | Inr (_, _, cs, _) \<Rightarrow> length cs]") auto

declare dir_depth.simps [simp del]

fun all_depths :: "nat \<Rightarrow> dirs \<Rightarrow> entity_key list \<Rightarrow> depths \<Rightarrow> sync_error + depths" where
  "all_depths budget dirs [] memo = Inr memo"
| "all_depths budget dirs (k # ks) memo =
     (case dir_depth budget dirs k memo of Inl e \<Rightarrow> Inl e | Inr (_, memo') \<Rightarrow> all_depths budget dirs ks memo')"

section \<open>Sorting\<close>

text \<open>The directories among the objects: for each its location, its key and its children.\<close>

fun load_dirs :: "env \<Rightarrow> remote_object list \<Rightarrow> sync_error + (remote_oid \<times> entity_key \<times> entity_key list) list" where
  "load_dirs E [] = Inr []"
| "load_dirs E (o' # os) =
     (if ro_get E o' METADATA_ENTITY_TYPE \<noteq> Some (handler_metadata_type Dir) then load_dirs E os
      else case entity_load_from_backend (ev_hasher E) (ev_meta E) (ev_entity E) (ev_millis E) (ev_uuid_text E)
                  Dir 0 (ro_id o') (ev_remote E) of
             Inl e \<Rightarrow> Inl (SyncIoError e)
           | Inr dir \<Rightarrow>
               (case load_dirs E os of
                  Inl e \<Rightarrow> Inl e
                | Inr ds \<Rightarrow> Inr ((ro_id o', entity_key_of dir, entity_children (re_body (ent_inner dir))) # ds)))"

definition dirs_of :: "(remote_oid \<times> entity_key \<times> entity_key list) list \<Rightarrow> dirs" where
  "dirs_of ds = map_of (rev (map snd ds))"

definition key_of :: "(remote_oid \<times> entity_key \<times> entity_key list) list \<Rightarrow> remote_oid \<Rightarrow> entity_key option" where
  "key_of ds = map_of (rev (map (\<lambda>(i, k, _). (i, k)) ds))"

definition rank :: "(remote_oid \<times> entity_key \<times> entity_key list) list \<Rightarrow> depths \<Rightarrow> remote_object \<Rightarrow> nat" where
  "rank ds memo o' =
     (case key_of ds (ro_id o') of
        None \<Rightarrow> 0
      | Some k \<Rightarrow> (case memo k of Some d \<Rightarrow> d + 1 | None \<Rightarrow> 0))"

definition sort_entities :: "env \<Rightarrow> (entity_key list \<Rightarrow> entity_key list) \<Rightarrow> remote_object list \<Rightarrow> sync_error + remote_object list" where
  "sort_entities E order objects =
     (case load_dirs E objects of
        Inl e \<Rightarrow> Inl e
      | Inr ds \<Rightarrow>
          (case all_depths MAX_DEPTH (dirs_of ds) (order (remdups (map (\<lambda>(_, k, _). k) ds))) (\<lambda>_. None) of
             Inl e \<Rightarrow> Inl e
           | Inr memo \<Rightarrow> Inr (sort_key (rank ds memo) objects)))"

section \<open>Children come first\<close>

text \<open>Every depth that is known exceeds those of the children that are directories.\<close>

definition depths_ok :: "dirs \<Rightarrow> depths \<Rightarrow> bool" where
  "depths_ok dirs memo \<longleftrightarrow> (\<forall>k d cs c. memo k = Some d \<longrightarrow> dirs k = Some cs \<longrightarrow> c \<in> set cs \<longrightarrow> dirs c \<noteq> None
     \<longrightarrow> (\<exists>n. memo c = Some n \<and> n < d))"

lemma map_le_imp: "m \<subseteq>\<^sub>m m' \<Longrightarrow> m k = Some v \<Longrightarrow> m' k = Some v"
  by (metis domI map_le_def)

lemma depths_okD:
  "depths_ok dirs memo \<Longrightarrow> memo k = Some d \<Longrightarrow> dirs k = Some cs \<Longrightarrow> c \<in> set cs \<Longrightarrow> dirs c \<noteq> None
     \<Longrightarrow> \<exists>n. memo c = Some n \<and> n < d"
  unfolding depths_ok_def by blast

lemma depth_extends:
  "dir_depth b dirs k memo = Inr (d, memo') \<Longrightarrow> depths_ok dirs memo \<Longrightarrow>
     depths_ok dirs memo' \<and> memo \<subseteq>\<^sub>m memo' \<and> memo' k = Some d"
  "deepest_child b dirs cs d0 memo = Inr (d, memo') \<Longrightarrow> depths_ok dirs memo \<Longrightarrow>
     depths_ok dirs memo' \<and> memo \<subseteq>\<^sub>m memo' \<and> d0 \<le> d
       \<and> (\<forall>c \<in> set cs. dirs c \<noteq> None \<longrightarrow> (\<exists>n. memo' c = Some n \<and> n < d))
       \<and> (d = d0 \<or> (\<exists>c \<in> set cs. dirs c \<noteq> None \<and> (\<exists>n. memo' c = Some n \<and> d = Suc n)))"
proof (induction b dirs k memo and b dirs cs d0 memo arbitrary: d memo' and d memo' rule: dir_depth_deepest_child.induct)
  case (1 b dirs k memo)
  show ?case
  proof (cases "memo k")
    case (Some n)
    with 1 show ?thesis by (auto simp: dir_depth.simps)
  next
    case None
    let ?cs = "case dirs k of Some children \<Rightarrow> children | None \<Rightarrow> []"
    from None 1(2) obtain b' m where b: "b = Suc b'" and run: "deepest_child b' dirs ?cs 0 memo = Inr (d, m)"
      and m: "memo' = m(k \<mapsto> d)"
      by (auto simp: dir_depth.simps [of b] split: nat.splits sum.splits)
    from 1(1) [OF None b run 1(3)] have ok: "depths_ok dirs m" and le: "memo \<subseteq>\<^sub>m m"
      and below: "\<forall>c \<in> set ?cs. dirs c \<noteq> None \<longrightarrow> (\<exists>n. m c = Some n \<and> n < d)"
      and max: "d = 0 \<or> (\<exists>c \<in> set ?cs. dirs c \<noteq> None \<and> (\<exists>n. m c = Some n \<and> d = Suc n))" by auto
    have known: "d \<le> n" if n: "m k = Some n" and "dirs k \<noteq> None" for n
    proof -
      from that obtain cs where cs: "dirs k = Some cs" by auto
      with ok n have "\<forall>c \<in> set cs. dirs c \<noteq> None \<longrightarrow> (\<exists>j. m c = Some j \<and> j < n)"
        using depths_okD by blast
      with max cs show ?thesis by fastforce
    qed
    have "depths_ok dirs memo'"
      unfolding depths_ok_def
    proof (intro allI impI)
      fix k' d' cs c
      assume *: "memo' k' = Some d'" "dirs k' = Some cs" "c \<in> set cs" "dirs c \<noteq> None"
      show "\<exists>n. memo' c = Some n \<and> n < d'"
      proof (cases "k' = k")
        case True
        with * below obtain n where n: "m c = Some n" "n < d" by auto
        with known * True have "c \<noteq> k" by fastforce
        with n * True show ?thesis by (simp add: m)
      next
        case False
        with * ok obtain n where n: "m c = Some n" "n < d'"
          using depths_okD [of dirs m k' d' cs c] by (auto simp: m)
        show ?thesis
        proof (cases "c = k")
          case True
          with known [of n] n * have "d < d'" by simp
          with True show ?thesis by (simp add: m)
        qed (use n m in simp)
      qed
    qed
    moreover have "memo \<subseteq>\<^sub>m memo'" using le None by (auto simp: m map_le_def)
    ultimately show ?thesis by (simp add: m fun_upd_def)
  qed
next
  case (3 b dirs c cs d0 memo)
  show ?case
  proof (cases "dirs c = None")
    case True
    with 3 show ?thesis by auto
  next
    case False
    with 3(4) obtain n m where one: "dir_depth b dirs c memo = Inr (n, m)"
      and rest: "deepest_child b dirs cs (max d0 (n + 1)) m = Inr (d, memo')"
      by (auto split: sum.splits)
    from 3(2) [OF False one 3(5)] have m: "depths_ok dirs m" "memo \<subseteq>\<^sub>m m" "m c = Some n" by auto
    from 3(3) [OF False one refl rest m(1)] have r: "depths_ok dirs memo'" "m \<subseteq>\<^sub>m memo'" "max d0 (n + 1) \<le> d"
      "\<forall>c \<in> set cs. dirs c \<noteq> None \<longrightarrow> (\<exists>n. memo' c = Some n \<and> n < d)"
      "d = max d0 (n + 1) \<or> (\<exists>c \<in> set cs. dirs c \<noteq> None \<and> (\<exists>n. memo' c = Some n \<and> d = Suc n))" by auto
    have c: "memo' c = Some n" using map_le_imp [OF r(2) m(3)] .
    have "memo \<subseteq>\<^sub>m memo'" using m(2) r(2) by (rule map_le_trans)
    moreover have "d = d0 \<or> (\<exists>c' \<in> set (c # cs). dirs c' \<noteq> None \<and> (\<exists>n. memo' c' = Some n \<and> d = Suc n))"
      using r(5) c False by (auto simp: max_def split: if_splits)
    ultimately show ?thesis using r c by auto
  qed
qed auto

lemma all_depths_ok:
  "all_depths b dirs ks memo = Inr memo' \<Longrightarrow> depths_ok dirs memo \<Longrightarrow>
     depths_ok dirs memo' \<and> memo \<subseteq>\<^sub>m memo' \<and> (\<forall>k \<in> set ks. memo' k \<noteq> None)"
proof (induction ks arbitrary: memo)
  case (Cons k ks)
  from Cons.prems(1) obtain d m where one: "dir_depth b dirs k memo = Inr (d, m)"
    and rest: "all_depths b dirs ks m = Inr memo'" by (auto split: sum.splits)
  from depth_extends(1) [OF one Cons.prems(2)] have m: "depths_ok dirs m" "memo \<subseteq>\<^sub>m m" "m k = Some d" by auto
  from Cons.IH [OF rest m(1)] m(2,3) show ?case by (auto intro: map_le_trans map_le_imp)
qed auto

lemma nth_sort_key_less:
  assumes "f (sort_key f xs ! i) < f (sort_key f xs ! j)" and "i < length xs" "j < length xs"
  shows "i < j"
proof (rule ccontr)
  assume "\<not> i < j"
  then have "f (sort_key f xs ! j) \<le> f (sort_key f xs ! i)"
    using sorted_nth_mono [OF sorted_sort_key, of j i f xs] assms(2,3) by simp
  with assms(1) show False by simp
qed

text \<open>The directory an object holds.\<close>

definition holds_dir :: "env \<Rightarrow> remote_object \<Rightarrow> entity_key \<Rightarrow> entity_key list \<Rightarrow> bool" where
  "holds_dir E o' k cs \<longleftrightarrow> ro_get E o' METADATA_ENTITY_TYPE = Some (handler_metadata_type Dir)
     \<and> (case entity_load_from_backend (ev_hasher E) (ev_meta E) (ev_entity E) (ev_millis E) (ev_uuid_text E) Dir 0 (ro_id o') (ev_remote E) of
          Inr dir \<Rightarrow> k = entity_key_of dir \<and> cs = entity_children (re_body (ent_inner dir))
        | Inl _ \<Rightarrow> False)"

lemma load_dirs_iff:
  "load_dirs E os = Inr ds \<Longrightarrow> (i, k, cs) \<in> set ds \<longleftrightarrow> (\<exists>o' \<in> set os. ro_id o' = i \<and> holds_dir E o' k cs)"
proof (induction os arbitrary: ds)
  case (Cons o' os)
  show ?case
  proof (cases "ro_get E o' METADATA_ENTITY_TYPE = Some (handler_metadata_type Dir)")
    case False
    with Cons show ?thesis by (auto simp: holds_dir_def)
  next
    case True
    with Cons.prems obtain dir ds' where "ds = (ro_id o', entity_key_of dir, entity_children (re_body (ent_inner dir))) # ds'"
      and "load_dirs E os = Inr ds'"
      and "entity_load_from_backend (ev_hasher E) (ev_meta E) (ev_entity E) (ev_millis E) (ev_uuid_text E) Dir 0 (ro_id o') (ev_remote E) = Inr dir"
      by (auto split: sum.splits)
    with True have "ds = (ro_id o', entity_key_of dir, entity_children (re_body (ent_inner dir))) # ds'"
      "load_dirs E os = Inr ds'"
      "holds_dir E o' k cs \<longleftrightarrow> k = entity_key_of dir \<and> cs = entity_children (re_body (ent_inner dir))"
      by (auto simp: holds_dir_def)
    with Cons.IH [of ds'] show ?thesis by auto
  qed
qed simp

lemma load_dirs_ids: "load_dirs E os = Inr ds \<Longrightarrow> fst ` set ds \<subseteq> ro_id ` set os"
  using load_dirs_iff by fastforce

lemma load_dirs_distinct:
  "load_dirs E os = Inr ds \<Longrightarrow> distinct (map ro_id os) \<Longrightarrow> distinct (map fst ds)"
proof (induction os arbitrary: ds)
  case (Cons o' os)
  from Cons.prems(1) consider "load_dirs E os = Inr ds"
    | "ds \<noteq> []" "fst (hd ds) = ro_id o'" "load_dirs E os = Inr (tl ds)"
    by (auto split: if_splits sum.splits)
  then show ?case
  proof cases
    case 2
    with load_dirs_ids [OF 2(3)] Cons.IH [OF 2(3)] Cons.prems(2) show ?thesis by (cases ds) auto
  qed (use Cons in simp)
qed simp

lemma key_of_Some:
  assumes "distinct (map fst ds)"
  shows "key_of ds i = Some k \<longleftrightarrow> (\<exists>cs. (i, k, cs) \<in> set ds)"
proof -
  have "distinct (map fst (rev (map (\<lambda>(i, k, _). (i, k)) ds)))"
    using assms by (simp add: rev_map [symmetric] comp_def split_def)
  from map_of_eq_Some_iff [OF this, of i k] show ?thesis
    by (force simp: key_of_def)
qed

lemma dirs_of_Some:
  assumes "\<And>i k cs j cs'. (i, k, cs) \<in> set ds \<Longrightarrow> (j, k, cs') \<in> set ds \<Longrightarrow> cs = cs'"
    and "(i, k, cs) \<in> set ds"
  shows "dirs_of ds k = Some cs"
proof -
  have "k \<in> fst ` set (rev (map snd ds))" using assms(2) by force
  then obtain cs' where cs': "dirs_of ds k = Some cs'"
    unfolding dirs_of_def by (metis map_of_eq_None_iff option.exhaust)
  then have "(k, cs') \<in> set (rev (map snd ds))" unfolding dirs_of_def by (rule map_of_SomeD)
  with assms have "cs' = cs" by force
  with cs' show ?thesis by simp
qed


text \<open>A storage with two directories, the first in the second.\<close>

definition tree_env :: env where
  "tree_env = \<lparr>ev_hasher = (\<lambda>_ _. replicate 32 0), ev_meta = demo_metadata_format,
     ev_blob = demo_blob_format, ev_commit = demo_commit_format,
     ev_entity = \<lparr>enc_entity = (\<lambda>fl. take 1 (fl_id fl)),
       dec_entity = (\<lambda>bs. Some \<lparr>fl_id = replicate 16 (hd bs), fl_name = [100], fl_created = 7, fl_last_modified = 8,
         fl_body = FlatDirectory (Some (if bs = [2] then [(replicate 16 1, replicate 32 0)] else []))\<rparr>)\<rparr>,
     ev_config = demo_config_format, ev_millis = (\<lambda>_. True), ev_uuid_text = (\<lambda>i. i), ev_uuid_parse = Some,
     ev_decimal = (\<lambda>_. [48]), ev_xxh = (\<lambda>_. 2000),
     ev_remote = (\<lambda>i. Inr \<lparr>dl_metadata = IoMock [(METADATA_VFS_OBJECT_TYPE, ENTITY_OBJECT_TYPE),
         (METADATA_ENTITY_TYPE, handler_metadata_type Dir), (METADATA_ENTITY_ID, replicate 16 (hd i)),
         (METADATA_ENTITY_REVISION, content_id_display (replicate 32 0))], dl_content = Inr i\<rparr>),
     ev_parse_oid = Some,
     ev_path = \<lparr>pl_normalize = (\<lambda>p. p), pl_is_absolute = (\<lambda>_. True), pl_is_valid = (\<lambda>_. True),
       pl_components = (\<lambda>p. [p]), pl_file_name = (\<lambda>_. None), pl_parent = (\<lambda>_. None), pl_join = (\<lambda>p n. p @ 47 # n)\<rparr>\<rparr>"

definition tree_object :: "u8 \<Rightarrow> remote_object" where
  "tree_object n = \<lparr>ro_id = [n], ro_metadata = MdHashMap [(METADATA_ENTITY_TYPE, handler_metadata_type Dir)]\<rparr>"

lemma tree_names: "distinct [METADATA_VFS_OBJECT_TYPE, METADATA_ENTITY_TYPE, METADATA_ENTITY_ID, METADATA_ENTITY_REVISION]"
  by code_simp

lemma tree_name_ok: "check_valid_filename [100] = Inr ()"
  by code_simp

lemma tree_load:
  "entity_load_from_backend (ev_hasher tree_env) (ev_meta tree_env) (ev_entity tree_env) (ev_millis tree_env) (ev_uuid_text tree_env)
     Dir 0 [n] (ev_remote tree_env)
   = Inr \<lparr>ent_inner = \<lparr>re_id = replicate 16 n, re_name = [100], re_revision = replicate 32 0, re_created = 7, re_last_modified = 8,
       re_body = DirectoryBody (if n = 2 then [(replicate 16 1, replicate 32 0)] else []), re_cart = [n]\<rparr>, ent_mode = SyncedMode 0\<rparr>"
  using tree_names
  by (simp add: entity_load_from_backend_def tree_env_def md_try_from_io_def md_get_def
      synced_try_from_flatbuffer_def raw_try_from_flatbuffer_def tree_name_ok timestamp_from_millis_def demo_metadata_format_def eq_commute
      del: replicate.simps handler_metadata_type.simps)
lemma tree_objects:
  "load_dirs tree_env [tree_object 2, tree_object 1]
     = Inr [([2], (replicate 16 2, replicate 32 0), [(replicate 16 1, replicate 32 0)]), ([1], (replicate 16 1, replicate 32 0), [])]"
proof -
  have T: "ro_get tree_env (tree_object n) METADATA_ENTITY_TYPE = Some (handler_metadata_type Dir)" "ro_id (tree_object n) = [n]" for n
    by (simp_all add: ro_get_def tree_object_def md_get_def)
  show ?thesis by (simp add: T tree_load entity_key_of_def del: replicate.simps)
qed

lemma tree_sorted: "sort_entities tree_env rev [tree_object 2, tree_object 1] = Inr [tree_object 1, tree_object 2]"
  unfolding sort_entities_def tree_objects sum.case by code_simp

lemma tree_holds:
  "holds_dir tree_env (tree_object 2) k cs \<longleftrightarrow> k = (replicate 16 2, replicate 32 0) \<and> cs = [(replicate 16 1, replicate 32 0)]"
  "holds_dir tree_env (tree_object 1) k cs \<longleftrightarrow> k = (replicate 16 1, replicate 32 0) \<and> cs = []"
proof -
  have ids: "ro_id (tree_object n) = [n]" for n by (simp add: tree_object_def)
  show "holds_dir tree_env (tree_object 2) k cs \<longleftrightarrow> k = (replicate 16 2, replicate 32 0) \<and> cs = [(replicate 16 1, replicate 32 0)]"
    using load_dirs_iff [OF tree_objects, of "[2]" k cs] by (auto simp: ids)
  show "holds_dir tree_env (tree_object 1) k cs \<longleftrightarrow> k = (replicate 16 1, replicate 32 0) \<and> cs = []"
    using load_dirs_iff [OF tree_objects, of "[1]" k cs] by (auto simp: ids)
qed

lemma tree_keys: "(replicate 16 2, x) \<noteq> (replicate 16 (1 :: u8), y)" "(replicate 16 (1 :: u8), y) \<noteq> (replicate 16 2, x)"
  by (simp_all add: replicate_eq_replicate)


section \<open>The budget is enough\<close>

lemma dir_depth_total:
  assumes "\<And>k cs c. dirs k = Some cs \<Longrightarrow> c \<in> set cs \<Longrightarrow> dirs c \<noteq> None \<Longrightarrow> r c < r k"
  shows "r k < b \<Longrightarrow> \<exists>x. dir_depth b dirs k memo = Inr x"
    and "(\<And>c. c \<in> set cs \<Longrightarrow> dirs c \<noteq> None \<Longrightarrow> r c < b) \<Longrightarrow> \<exists>x. deepest_child b dirs cs d0 memo = Inr x"
  using assms
proof (induction b dirs k memo and b dirs cs d0 memo rule: dir_depth_deepest_child.induct)
  case (1 b dirs k memo)
  show ?case
  proof (cases "memo k")
    case None
    from 1(2) obtain b' where b: "b = Suc b'" by (cases b) auto
    have "\<exists>x. deepest_child b' dirs (case dirs k of Some children \<Rightarrow> children | None \<Rightarrow> []) 0 memo = Inr x"
    proof (rule 1(1) [OF None b])
      show "r c < b'" if "c \<in> set (case dirs k of Some children \<Rightarrow> children | None \<Rightarrow> [])" "dirs c \<noteq> None" for c
        using that 1(2) 1(3) [of k "the (dirs k)" c] b by (cases "dirs k") auto
    qed (use 1(3) in blast)
    with None b show ?thesis by (auto simp: dir_depth.simps)
  qed (simp add: dir_depth.simps)
next
  case (3 b dirs c cs d0 memo)
  show ?case
  proof (cases "dirs c = None")
    case True
    with 3(1) [OF True] 3(4,5) show ?thesis by simp
  next
    case False
    with 3(2) [OF False] 3(4,5) obtain n m where one: "dir_depth b dirs c memo = Inr (n, m)" by fastforce
    from 3(3) [OF False one refl] 3(4,5) have "\<exists>x. deepest_child b dirs cs (max d0 (n + 1)) m = Inr x" by simp
    with one False show ?thesis by auto
  qed
qed simp

lemma all_depths_total:
  assumes "\<And>k cs c. dirs k = Some cs \<Longrightarrow> c \<in> set cs \<Longrightarrow> dirs c \<noteq> None \<Longrightarrow> r c < r k"
    and "\<forall>k \<in> set ks. r k < b"
  shows "\<exists>memo'. all_depths b dirs ks memo = Inr memo'"
  using assms(2)
proof (induction ks arbitrary: memo)
  case (Cons k ks)
  from dir_depth_total(1) [of dirs r k b memo] assms(1) Cons.prems obtain d m where "dir_depth b dirs k memo = Inr (d, m)"
    by fastforce
  with Cons show ?case by simp
qed simp

text \<open>
  C24: when the directories nest at most 1024 deep without a cycle, sorting ends with a result,
  whatever the order in which the map is walked.
\<close>

theorem sort_entities_total:
  assumes "load_dirs E objects = Inr ds"
    and "\<And>k cs c. dirs_of ds k = Some cs \<Longrightarrow> c \<in> set cs \<Longrightarrow> dirs_of ds c \<noteq> None \<Longrightarrow> r c < r k"
    and "\<And>i k cs. (i, k, cs) \<in> set ds \<Longrightarrow> r k < (1024 :: nat)"
    and "\<And>ks. set (order ks) = set ks"
  shows "\<exists>objs. sort_entities E order objects = Inr objs \<and> mset objs = mset objects"
proof -
  have "\<exists>memo. all_depths MAX_DEPTH (dirs_of ds) (order (remdups (map (\<lambda>(_, k, _). k) ds))) (\<lambda>_. None) = Inr memo"
    by (rule all_depths_total [of "dirs_of ds" r, OF assms(2)]) (use assms(3,4) in \<open>auto simp: MAX_DEPTH_def\<close>)
  with assms(1) show ?thesis by (auto simp: sort_entities_def)
qed

theorem sort_entities_total_witness:
  "\<exists>objs. sort_entities tree_env rev [tree_object 2, tree_object 1] = Inr objs
     \<and> mset objs = mset [tree_object 2, tree_object 1]"
proof (rule sort_entities_total [OF tree_objects, where r = "\<lambda>k. if fst k = replicate 16 2 then 1 else 0"])
  fix k cs c
  assume "dirs_of [([2], (replicate 16 2, replicate 32 0), [(replicate 16 1, replicate 32 0)]), ([1], (replicate 16 1, replicate 32 0), [])] k = Some cs"
    and "c \<in> set cs"
  then show "(if fst c = replicate 16 2 then 1 else 0) < (if fst k = replicate 16 2 then 1 else (0 :: nat))"
    by (auto simp: dirs_of_def tree_keys replicate_eq_replicate split: if_splits)
qed simp_all

end
