(* ===== verification/Pull.thy ===== *)
theory Pull
  imports EntitySort
begin

text \<open>
  Pulling remote objects into the database (\<open>janus-vfs/src/sync/pull.rs\<close>) and a whole
  synchronisation (\<open>sync/mod.rs\<close>). What the remote storage lists is an argument. The code
  processes up to \<open>max_concurrency\<close> objects of a group at once, each in one write transaction;
  there is one writer, so these run one after another, in an order that is a parameter.
\<close>

section \<open>The objects of a file system\<close>

text \<open>An entry of the listing: an error of the stream, or an object and its raw metadata.\<close>

type_synonym listing = "(io_error + remote_oid \<times> io_metadata) list"

text \<open>Objects whose metadata is unknown, of another version or of another file system are skipped.\<close>

definition backend_object :: "env \<Rightarrow> bytes \<Rightarrow> remote_oid \<times> io_metadata \<Rightarrow> remote_object option" where
  "backend_object E id_text = (\<lambda>(oid, raw).
     case md_try_from_io (ev_meta E) raw of
       Inl _ \<Rightarrow> None
     | Inr md \<Rightarrow>
         if md_get (ev_meta E) md METADATA_VFS_VERSION \<noteq> Some (ascii ''1'') then None
         else if md_get (ev_meta E) md METADATA_VFS_ID \<noteq> Some id_text then None
         else Some \<lparr>ro_id = oid, ro_metadata = md\<rparr>)"

fun backend_objects :: "env \<Rightarrow> bytes \<Rightarrow> listing \<Rightarrow> io_error + remote_object list" where
  "backend_objects E id_text [] = Inr []"
| "backend_objects E id_text (Inl e # xs) = Inl e"
| "backend_objects E id_text (Inr x # xs) =
     (case backend_objects E id_text xs of
        Inl e \<Rightarrow> Inl e
      | Inr os \<Rightarrow> Inr (case backend_object E id_text x of None \<Rightarrow> os | Some o' \<Rightarrow> o' # os))"

definition known_object_ids :: "vfs \<Rightarrow> vfs_error + object_id list" where
  "known_object_ids v = (case read_tx (db_tx list_objects) v of Inl e \<Rightarrow> Inl e | Inr os \<Rightarrow> Inr (map obj_id os))"

definition has_type :: "env \<Rightarrow> bytes \<Rightarrow> remote_object \<Rightarrow> bool" where
  "has_type E T o' \<longleftrightarrow> ro_get E o' METADATA_VFS_OBJECT_TYPE = Some T"

section \<open>One object\<close>

text \<open>Taking over an object that is new; an object of another type is only recorded.\<close>

definition sync_new_object :: "env \<Rightarrow> head \<Rightarrow> vfs_id \<Rightarrow> remote_object \<Rightarrow> object_id \<Rightarrow> unit sync" where
  "sync_new_object E h i o' oid =
     (if has_type E ENTITY_OBJECT_TYPE o' then
        (case (ro_get E o' METADATA_ENTITY_ID, ro_get E o' METADATA_ENTITY_REVISION, ro_get E o' METADATA_ENTITY_TYPE) of
           (Some id_text, Some rev_text, Some T) \<Rightarrow>
             if T = handler_metadata_type File then entity_sync E File id_text rev_text (ro_id o') oid
             else if T = handler_metadata_type Dir then entity_sync E Dir id_text rev_text (ro_id o') oid
             else sync_return ()
         | _ \<Rightarrow> sync_return ())
      else if has_type E BLOB_OBJECT_TYPE o' then
        (case ro_get E o' METADATA_BLOB_ID of Some id_text \<Rightarrow> blob_sync E id_text (ro_id o') oid | None \<Rightarrow> sync_return ())
      else if has_type E CHUNK_OBJECT_TYPE o' then
        (case ro_get E o' METADATA_CHUNK_ID of Some id_text \<Rightarrow> chunk_sync id_text oid | None \<Rightarrow> sync_return ())
      else if has_type E COMMIT_OBJECT_TYPE o' then
        (case ro_get E o' METADATA_COMMIT_ID of Some id_text \<Rightarrow> commit_sync E id_text (ro_id o') oid | None \<Rightarrow> sync_return ())
      else if has_type E CONFIG_OBJECT_TYPE o' then config_sync E h i (ro_id o') oid
      else sync_return ())"

definition sync_object_body :: "env \<Rightarrow> (remote_oid \<Rightarrow> bytes) \<Rightarrow> head \<Rightarrow> vfs_id \<Rightarrow> timestamp \<Rightarrow> remote_object \<Rightarrow> object_id sync" where
  "sync_object_body E location h i now o' =
     sync_bind (sync_tx SyncDbError (create_or_mark_object (location (ro_id o')) now)) (\<lambda>r.
     case r of
       ObjectExisting existing \<Rightarrow> sync_return (obj_id existing)
     | ObjectNew oid \<Rightarrow> sync_bind (sync_new_object E h i o' oid) (\<lambda>_. sync_return oid))"

text \<open>A pull: the file system and the number of transactions made, which numbers the readings of the clock.\<close>

type_synonym pull_state = "vfs \<times> nat"

definition sync_object :: "env \<Rightarrow> (remote_oid \<Rightarrow> bytes) \<Rightarrow> (nat \<Rightarrow> timestamp) \<Rightarrow> remote_object \<Rightarrow> pull_state \<Rightarrow> ((sync_error + object_id) \<times> pull_state) option" where
  "sync_object E location clock o' = (\<lambda>(v, n).
     map_option (\<lambda>(r, v'). (r, v', Suc n))
       (write_tx_as SyncDbError E (clock n) (clock n) (sync_object_body E location (v_head v) (v_id v) (clock n) o') v))"

text \<open>A group of objects: those that fail are logged and left out of the result.\<close>

fun process_objects :: "env \<Rightarrow> (remote_oid \<Rightarrow> bytes) \<Rightarrow> (nat \<Rightarrow> timestamp) \<Rightarrow> remote_object list \<Rightarrow> pull_state \<Rightarrow> (object_id list \<times> pull_state) option" where
  "process_objects E location clock [] s = Some ([], s)"
| "process_objects E location clock (o' # os) s =
     (case sync_object E location clock o' s of
        None \<Rightarrow> None
      | Some (r, s1) \<Rightarrow>
          (case process_objects E location clock os s1 of
             None \<Rightarrow> None
           | Some (ids, s2) \<Rightarrow> Some (case r of Inl _ \<Rightarrow> ids | Inr oid \<Rightarrow> oid # ids, s2)))"

fun process_groups :: "env \<Rightarrow> (remote_oid \<Rightarrow> bytes) \<Rightarrow> (nat \<Rightarrow> timestamp) \<Rightarrow> (remote_object list \<Rightarrow> remote_object list)
    \<Rightarrow> remote_object list list \<Rightarrow> object_id list \<Rightarrow> pull_state \<Rightarrow> (object_id list \<times> pull_state) option" where
  "process_groups E location clock schedule [] erroneous s = Some (erroneous, s)"
| "process_groups E location clock schedule (g # gs) erroneous s =
     (case process_objects E location clock (schedule g) s of
        None \<Rightarrow> None
      | Some (processed, s1) \<Rightarrow>
          process_groups E location clock schedule gs (filter (\<lambda>i. i \<notin> set processed) erroneous) s1)"

section \<open>A pull\<close>

definition groups :: "env \<Rightarrow> remote_object list \<Rightarrow> remote_object list \<Rightarrow> remote_object list list" where
  "groups E objects entities =
     [filter (has_type E CHUNK_OBJECT_TYPE) objects, filter (has_type E BLOB_OBJECT_TYPE) objects, entities,
      filter (has_type E COMMIT_OBJECT_TYPE) objects, filter (has_type E CONFIG_OBJECT_TYPE) objects]"

definition pull_run :: "env \<Rightarrow> (remote_oid \<Rightarrow> bytes) \<Rightarrow> (nat \<Rightarrow> timestamp) \<Rightarrow> (entity_key list \<Rightarrow> entity_key list)
    \<Rightarrow> (remote_object list \<Rightarrow> remote_object list) \<Rightarrow> listing \<Rightarrow> pull_state \<Rightarrow> ((sync_error + unit) \<times> pull_state) option" where
  "pull_run E location clock order schedule listed = (\<lambda>(v, n).
     case known_object_ids v of
       Inl e \<Rightarrow> Some (Inl (SyncVfsError e), v, n)
     | Inr known \<Rightarrow>
         (case backend_objects E (ev_uuid_text E (v_id v)) listed of
            Inl e \<Rightarrow> Some (Inl (SyncIoError e), v, n)
          | Inr objects \<Rightarrow>
              (case sort_entities E order (filter (has_type E ENTITY_OBJECT_TYPE) objects) of
                 Inl e \<Rightarrow> Some (Inl e, v, n)
               | Inr entities \<Rightarrow>
                   (case process_groups E location clock schedule (groups E objects entities) known (v, n) of
                      None \<Rightarrow> None
                    | Some (erroneous, v1, n1) \<Rightarrow>
                        if erroneous = [] then Some (Inr (), v1, n1)
                        else map_option (\<lambda>(r, v2). (r, v2, Suc n1))
                               (write_tx_as SyncDbError E (clock n1) (clock n1)
                                  (sync_tx SyncDbError (mark_object_error erroneous)) v1)))))"

section \<open>A synchronisation\<close>

text \<open>\<open>Vfs::sync\<close>: push what is local, then pull. The listing is what the storage answers after the push.\<close>

definition vfs_sync :: "env \<Rightarrow> upload_backend \<Rightarrow> (remote_oid \<Rightarrow> bytes) \<Rightarrow> (nat \<Rightarrow> timestamp) \<Rightarrow> (nat \<Rightarrow> timestamp) \<Rightarrow> nat
    \<Rightarrow> (entity_key list \<Rightarrow> entity_key list) \<Rightarrow> (remote_object list \<Rightarrow> remote_object list) \<Rightarrow> (nat \<Rightarrow> listing)
    \<Rightarrow> push_state \<Rightarrow> ((sync_error + unit) \<times> push_state) outcome option" where
  "vfs_sync E U location clock pull_clock max_attempts order schedule listed = (\<lambda>(v, n).
     case (if v_read_only v then Inr True else vfs_is_empty v) of
       Inl e \<Rightarrow> Some (Returns (Inl (SyncVfsError e), v, n))
     | Inr skip_push \<Rightarrow>
         (case (if skip_push then Some (Returns (Inr (), v, n)) else push E U clock max_attempts (v, n)) of
            None \<Rightarrow> None
          | Some Panics \<Rightarrow> Some Panics
          | Some (Returns (Inl e, v1, n1)) \<Rightarrow> Some (Returns (Inl e, v1, n1))
          | Some (Returns (Inr _, v1, n1)) \<Rightarrow>
              map_option (\<lambda>(r, v2, _). Returns (r, v2, n1))
                (pull_run E location pull_clock order schedule (listed n1) (v1, 0))))"

end
