(* ===== verification/Lifecycle.thy ===== *)
theory Lifecycle
  imports Pull
begin

text \<open>
  The life of a file system: opening it (\<open>Db::new\<close> in \<open>janus-vfs/src/db.rs\<close>, \<open>Vfs::new\<close> in
  \<open>vfs/mod.rs\<close>), and the states its operations reach one after another, with the invariant of
  the database in all of them.
\<close>

section \<open>Opening\<close>

definition no_caches :: caches where
  "no_caches = \<lparr>path_cache = (\<lambda>_. None), inode_cache = (\<lambda>_. None), chunk_cache = (\<lambda>_. None)\<rparr>"

text \<open>The first transaction removes the file handles that a previous process left.\<close>

definition db_new :: "env \<Rightarrow> head \<Rightarrow> timestamp \<Rightarrow> timestamp \<Rightarrow> db \<Rightarrow> (db_error + db) option" where
  "db_new E h now later d =
     (case housekeeping d of
        Inl e \<Rightarrow> Some (Inl e)
      | Inr (_, d1) \<Rightarrow>
          (case commit_tx E (maybe_branch_name h) now later d1 of
             None \<Rightarrow> None
           | Some (Inl e) \<Rightarrow> Some (Inl e)
           | Some (Inr (_, d2)) \<Rightarrow> Some (Inr d2)))"

text \<open>A file system on a tag is read-only. An empty one is synchronised first.\<close>

definition vfs_new :: "env \<Rightarrow> upload_backend \<Rightarrow> (remote_oid \<Rightarrow> bytes) \<Rightarrow> (nat \<Rightarrow> timestamp) \<Rightarrow> (nat \<Rightarrow> timestamp) \<Rightarrow> nat
    \<Rightarrow> (entity_key list \<Rightarrow> entity_key list) \<Rightarrow> (remote_object list \<Rightarrow> remote_object list) \<Rightarrow> (nat \<Rightarrow> listing)
    \<Rightarrow> vfs_id \<Rightarrow> head \<Rightarrow> bool \<Rightarrow> db \<Rightarrow> (vfs_error + vfs) outcome option" where
  "vfs_new E U location clock pull_clock max_attempts order schedule listed i h read_only d =
     (case db_new E h (clock 0) (clock 0) d of
        None \<Rightarrow> None
      | Some (Inl e) \<Rightarrow> Some (Returns (Inl (VfsDbError e)))
      | Some (Inr d1) \<Rightarrow>
          let this = \<lparr>v_id = i, v_head = h, v_read_only = (is_tag h \<or> read_only), v_db = d1, v_caches = no_caches\<rparr>
          in case vfs_is_empty this of
               Inl e \<Rightarrow> Some (Returns (Inl e))
             | Inr False \<Rightarrow> Some (Returns (Inr this))
             | Inr True \<Rightarrow>
                 (case vfs_sync E U location clock pull_clock max_attempts order schedule listed (this, 0) of
                    None \<Rightarrow> None
                  | Some Panics \<Rightarrow> Some Panics
                  | Some (Returns (Inl e, _)) \<Rightarrow> Some (Returns (Inl (VfsOther ''sync error'')))
                  | Some (Returns (Inr _, this', _)) \<Rightarrow>
                      (case vfs_is_empty this' of
                         Inl e \<Rightarrow> Some (Returns (Inl e))
                       | Inr True \<Rightarrow> Some (Returns (Inl InitialSyncError))
                       | Inr False \<Rightarrow> Some (Returns (Inr this')))))"

section \<open>Bodies that keep the invariant\<close>

definition keeps :: "(db \<Rightarrow> 'e + 'a \<times> db) \<Rightarrow> bool" where
  "keeps m = (\<forall>d a d'. db_ok d \<longrightarrow> m d = Inr (a, d') \<longrightarrow> db_ok d')"

lemma keepsD: "keeps m \<Longrightarrow> db_ok d \<Longrightarrow> m d = Inr (a, d') \<Longrightarrow> db_ok d'"
  by (auto simp: keeps_def)

lemma keeps_tx [wf_intros]: "tx_keeps m \<Longrightarrow> keeps (db_tx m)" "tx_keeps m \<Longrightarrow> keeps (sync_tx wrap m)"
  by (auto simp: tx_keeps_def keeps_def db_tx_def sync_tx_def split: sum.splits)

lemma keeps_sync [wf_intros]:
  "keeps m \<Longrightarrow> (\<And>a. keeps (f a)) \<Longrightarrow> keeps (sync_bind m f)" "keeps (sync_return a)"
proof -
  show "keeps (sync_bind m f)" if m: "keeps m" and f: "\<And>a. keeps (f a)"
    unfolding keeps_def
  proof (intro allI impI)
    fix d b d' assume ok: "db_ok d" and run: "sync_bind m f d = Inr (b, d')"
    then obtain a d1 where "m d = Inr (a, d1)" "f a d1 = Inr (b, d')"
      by (auto simp: sync_bind_def split: sum.splits)
    with keepsD [OF m ok] keepsD [OF f] show "db_ok d'" by blast
  qed
  show "keeps (sync_return a)" by (simp add: keeps_def sync_return_def)
qed

lemma keeps_if [wf_intros]: "keeps m \<Longrightarrow> keeps n \<Longrightarrow> keeps (if b then m else n)"
  by simp

lemma commit_config_keeps: "tx_keeps (commit_config E b t l)"
  unfolding commit_config_def by (auto intro!: wf_intros split: option.split)

lemma db_ok_change_log [simp]: "db_ok (d\<lparr>t_change_log := l\<rparr>) = db_ok d"
proof -
  have "node_count n (d\<lparr>t_change_log := l\<rparr>) = node_count n d" for n by (cases n) simp_all
  moreover have "refs (d\<lparr>t_change_log := l\<rparr>) = refs d" by (simp add: refs_def)
  ultimately show ?thesis by (simp add: db_ok_def keys_ok_def counts_with_def cong: option.case_cong)
qed

lemma changelog_keeps: "tx_keeps get_changelog" "tx_keeps clear_changelog"
  by (auto simp: get_changelog_def clear_changelog_def tx_keeps_def)

lemma commit_tx_keeps:
  assumes run: "commit_tx E b now later d = Some (Inr (cl, d'))" and ok: "db_ok d"
  shows "db_ok d'"
proof -
  from run obtain u d1 where d1: "process_dirty_inodes E d = Some (Inr (u, d1))"
    and rest: "tx_bind (commit_config E b now later) (\<lambda>_. tx_bind get_changelog (\<lambda>cl. tx_bind clear_changelog (\<lambda>_. tx_return cl))) d1
      = Inr (cl, d')"
    by (auto simp: commit_tx_def split: option.splits sum.splits)
  have "tx_keeps (tx_bind (commit_config E b now later) (\<lambda>_. tx_bind get_changelog (\<lambda>cl. tx_bind clear_changelog (\<lambda>_. tx_return cl))))"
    by (intro wf_intros commit_config_keeps changelog_keeps)
  from tx_keepsD [OF this process_dirty_inodes_keeps [OF d1 ok] rest] show ?thesis .
qed

lemma write_tx_as_keeps:
  assumes run: "write_tx_as wrap E now later m v = Some (r, v')" and ok: "db_ok (v_db v)" and m: "keeps m"
  shows "db_ok (v_db v')"
proof -
  from run consider "v' = v" | a d1 cl d2 where "m ((v_db v)\<lparr>t_change_log := []\<rparr>) = Inr (a, d1)"
      "commit_tx E (maybe_branch_name (v_head v)) now later d1 = Some (Inr (cl, d2))" "v_db v' = d2"
    by (auto simp: write_tx_as_def split: sum.splits option.splits)
  then show ?thesis
  proof cases
    case 2
    with commit_tx_keeps [OF 2(2) keepsD [OF m _ 2(1)]] ok show ?thesis by simp
  qed (use ok in simp)
qed


section \<open>Reachable states\<close>

lemma vfs_upd_db [simp]: "v_db (v\<lparr>v_caches := c\<rparr>) = v_db v"
  by simp

lemma write_tx_keeps:
  "write_tx E now later m v = Some (r, v') \<Longrightarrow> db_ok (v_db v) \<Longrightarrow> keeps m \<Longrightarrow> db_ok (v_db v')"
  unfolding write_tx_def by (rule write_tx_as_keeps)

lemma create_body_keeps: "tx_keeps mk \<Longrightarrow> keeps (create_body E mk check)"
proof -
  assume "tx_keeps mk"
  then have "keeps (db_tx (tx_bind mk (\<lambda>i. tx_bind (inode_by_id E i) (\<lambda>found. tx_return (i, found)))))"
    by (intro wf_intros)
  then show ?thesis
    unfolding keeps_def create_body_def by (fastforce split: sum.splits)
qed

text \<open>
  One step of the file system: an operation of its interface, successful or not, an object
  taken over by a pull, a transaction of a push, or an eviction from the caches.
\<close>

inductive vfs_step :: "env \<Rightarrow> vfs \<Rightarrow> vfs \<Rightarrow> bool" for E :: env where
  step_update: "vfs_update E now later T m v = Some (Returns (r, v')) \<Longrightarrow> vfs_step E v v'"
| step_delete: "vfs_delete E now later i v = Some (r, v') \<Longrightarrow> vfs_step E v v'"
| step_mv: "vfs_mv E now later i parent v = Some (r, v') \<Longrightarrow> vfs_step E v v'"
| step_create_dir: "vfs_create_dir E g created now later parent name v = Some (r, v') \<Longrightarrow> vfs_step E v v'"
| step_create_file: "vfs_create_file E g created now later parent name v = Some (r, v') \<Longrightarrow> vfs_step E v v'"
| step_inode_by_id: "vfs_inode_by_id E i v = (r, v') \<Longrightarrow> vfs_step E v v'"
| step_inode_id_by_path: "vfs_inode_id_by_path p v = (r, v') \<Longrightarrow> vfs_step E v v'"
| step_get_chunk: "vfs_get_chunk E c v = (r, v') \<Longrightarrow> vfs_step E v v'"
| step_insert_chunk: "vfs_insert_chunk E now later c v = Some (r, v') \<Longrightarrow> vfs_step E v v'"
| step_track_chunk: "tracker_insert_chunk E now later fh c v = Some (r, v') \<Longrightarrow> vfs_step E v v'"
| step_open_rw: "vfs_open_rw E now later f v = Some (r, v') \<Longrightarrow> vfs_step E v v'"
| step_fsync: "handle_fsync E modified now later h b v = Some (r, v') \<Longrightarrow> vfs_step E v v'"
| step_commit: "handle_commit E modified now later h b v = Some (r, v') \<Longrightarrow> vfs_step E v v'"
| step_reap: "reap E now later fh v = Some v' \<Longrightarrow> vfs_step E v v'"
| step_sync_object: "sync_object E location clock o' (v, n) = Some (r, v', n') \<Longrightarrow> vfs_step E v v'"
| step_mark_error: "write_tx_as SyncDbError E now later (sync_tx SyncDbError (mark_object_error is)) v = Some (r, v') \<Longrightarrow> vfs_step E v v'"
| step_push: "push_round E U clock (v, n) = Some (Returns (r, v', n')) \<Longrightarrow> vfs_step E v v'"
| step_start_push: "write_tx_as SyncDbError E now later (sync_tx SyncDbError (start_push E b t)) v = Some (r, v') \<Longrightarrow> vfs_step E v v'"
| step_reset_push: "write_tx_as SyncDbError E now later (sync_tx SyncDbError reset_pending_job_items) v = Some (r, v') \<Longrightarrow> vfs_step E v v'"
| step_end_push: "write_tx_as SyncDbError E now later (sync_tx SyncDbError clear_sync_job) v = Some (r, v') \<Longrightarrow> vfs_step E v v'"
| step_evict: "(\<And>p. path_cache c p = None \<or> path_cache c p = path_cache (v_caches v) p) \<Longrightarrow>
    (\<And>i. inode_cache c i = None \<or> inode_cache c i = inode_cache (v_caches v) i) \<Longrightarrow>
    (\<And>i. chunk_cache c i = None \<or> chunk_cache c i = chunk_cache (v_caches v) i) \<Longrightarrow> vfs_step E v (v\<lparr>v_caches := c\<rparr>)"

inductive reachable :: "env \<Rightarrow> vfs \<Rightarrow> bool" for E :: env where
  opened: "db_new E h now later d = Some (Inr d') \<Longrightarrow> d = empty_db \<or> (reachable E w \<and> d = v_db w) \<Longrightarrow>
    reachable E \<lparr>v_id = i, v_head = h, v_read_only = (is_tag h \<or> ro), v_db = d', v_caches = no_caches\<rparr>"
| stepped: "reachable E v \<Longrightarrow> vfs_step E v v' \<Longrightarrow> reachable E v'"

lemma db_new_keeps: "db_new E h now later d = Some (Inr d') \<Longrightarrow> db_ok d \<Longrightarrow> db_ok d'"
  by (auto simp: db_new_def split: option.splits sum.splits
      intro: commit_tx_keeps [OF _ tx_keepsD [OF handles_keep(4)]])


lemma open_body_keeps: "keeps (open_body E f)"
proof -
  have a: "keeps (db_tx (tx_bind (inode_by_id E i) (\<lambda>found. tx_some e found)))" for i e by (intro wf_intros)
  have b: "keeps (db_tx (create_fh i))" for i by (intro wf_intros)
  show ?thesis
    unfolding keeps_def open_body_def
    by (auto split: sum.splits inode.splits if_splits dest: keepsD [OF a] keepsD [OF b])
qed

lemma fsync_body_keeps: "keeps (fsync_body E f b m)"
proof -
  have "keeps (db_tx (tx_fsync E f b m))" by (intro wf_intros)
  then show ?thesis
    unfolding keeps_def fsync_body_def by (fastforce split: sum.splits inode.splits)
qed

lemma commit_body_keeps:
  "keeps (\<lambda>d. case fsync_body E f b m d of Inl e \<Rightarrow> Inl e
     | Inr (x, d1) \<Rightarrow> (case db_tx (delete_fh h) d1 of Inl e \<Rightarrow> Inl e | Inr (_, d2) \<Rightarrow> Inr (x, d2)))"
proof -
  have del: "keeps (db_tx (delete_fh h))" by (intro wf_intros)
  show ?thesis
    unfolding keeps_def
  proof (intro allI impI)
    fix d x d'
    assume ok: "db_ok d" and run: "(case fsync_body E f b m d of Inl e \<Rightarrow> Inl e
      | Inr (x, d1) \<Rightarrow> (case db_tx (delete_fh h) d1 of Inl e \<Rightarrow> Inl e | Inr (_, d2) \<Rightarrow> Inr (x, d2))) = Inr (x, d')"
    then obtain y d1 u where "fsync_body E f b m d = Inr (y, d1)" "db_tx (delete_fh h) d1 = Inr (u, d')"
      by (auto split: sum.splits)
    with keepsD [OF fsync_body_keeps ok] keepsD [OF del] show "db_ok d'" by blast
  qed
qed

lemma item_syncs_keep [wf_intros]:
  "keeps (chunk_sync t oid)" "keeps (blob_sync E t o' oid)" "keeps (entity_sync E T t r o' oid)"
  "keeps (commit_sync E t o' oid)" "keeps (config_sync E h i o' oid)"
proof -
  have *: "keeps (sync_tx vfs_db (tx_bind (register_remote_chunk c oid) (\<lambda>_. tx_return ())))"
    "keeps (sync_tx vfs_db (register_blob b))" "keeps (sync_tx vfs_db (register_entity T e))"
    "keeps (sync_tx SyncDbError (register_commit m))" "keeps (sync_tx SyncDbError (maybe_set_config E g h i))" for c b e m g
    by (intro wf_intros)+
  show "keeps (chunk_sync t oid)"
    unfolding chunk_sync_def using *(1) by (auto simp: keeps_def split: option.split)
  show "keeps (blob_sync E t o' oid)"
    unfolding keeps_def blob_sync_def using keepsD [OF *(2)] by (auto split: option.splits sum.splits if_splits)
  show "keeps (entity_sync E T t r o' oid)"
    unfolding keeps_def entity_sync_def using keepsD [OF *(3)] by (auto split: option.splits sum.splits if_splits)
  show "keeps (commit_sync E t o' oid)"
    unfolding keeps_def commit_sync_def using keepsD [OF *(4)] by (auto split: option.splits sum.splits if_splits)
  show "keeps (config_sync E h i o' oid)"
    unfolding keeps_def config_sync_def using keepsD [OF *(5)] by (auto split: option.splits sum.splits if_splits)
qed

lemma sync_object_body_keeps: "keeps (sync_object_body E location h i now o')"
proof -
  have "keeps (sync_new_object E h i o' oid)" for oid
    unfolding sync_new_object_def by (auto intro!: wf_intros split: option.split)
  then show ?thesis
    unfolding sync_object_body_def by (auto intro!: wf_intros split: object_create_result.split)
qed

lemma next_queue_item_keeps: "keeps (next_queue_item E m)"
proof -
  have "keeps (prepare_config E data)" for data
  proof -
    have "keeps (sync_tx SyncDbError (tx_bind (mark_sync_job_item_pending it) (\<lambda>_. tx_return c)))" for it c
      by (intro wf_intros)
    note tx = keepsD [OF this]
    show ?thesis
      unfolding keeps_def prepare_config_def by (auto split: sum.splits dest: tx)
  qed
  moreover have "tx_keeps (next_sync_item m)" by (auto simp: tx_keeps_def dest: reads_same)
  ultimately show ?thesis
    unfolding next_queue_item_def
    by (auto intro!: wf_intros split: option.split job_item.split entity_type.split)
qed

lemma fill_uploader_keeps: "fill_uploader E U i up items d = Inr (r, d') \<Longrightarrow> db_ok d \<Longrightarrow> db_ok d'"
proof (induction E U i up items d rule: fill_uploader.induct)
  case (1 E U i up items d)
  note nq = keepsD [OF next_queue_item_keeps]
  show ?case
  proof (cases "up_is_full up")
    case True
    with 1 show ?thesis by (simp add: fill_uploader.simps)
  next
    case False
    with 1(2) obtain item d1 where q: "next_queue_item E (Some (space_remaining U up)) d = Inr (item, d1)"
      by (auto simp: fill_uploader.simps [of E U i up] split: sum.splits)
    show ?thesis
    proof (cases item)
      case None
      with False q 1(2) nq [OF 1(3) q] show ?thesis
        by (auto simp: fill_uploader.simps [of E U i up] split: sum.splits option.splits if_splits dest: nq)
    next
      case (Some x)
      with False q 1(2) obtain up' where up': "enqueue_pending E U i x up = Inr up'"
        and run: "fill_uploader E U i up' (items @ [x]) d1 = Inr (r, d')"
        by (auto simp: fill_uploader.simps [of E U i up] split: sum.splits)
      from 1(1) [OF False q refl Some up' run nq [OF 1(3) q]] show ?thesis .
    qed
  qed
qed


lemma process_items_keep: "tx_keeps (process_items E now its)"
proof (induction its)
  case (Cons x its)
  have "tx_keeps (process_item E now (fst x) (snd x))" by (cases "fst x") (auto intro!: wf_intros)
  with Cons show ?case by (cases x) (auto intro!: wf_intros)
qed (auto intro: wf_intros)

lemma start_push_keeps: "tx_keeps (start_push E b now)"
proof -
  have "tx_keeps has_push_items" by (auto simp: tx_keeps_def has_push_items_def)
  then show ?thesis
    unfolding start_push_def create_new_queue_def by (auto intro!: wf_intros)
qed

lemma read_keeps: "vfs_inode_by_id E i v = (r, v') \<Longrightarrow> v_db v' = v_db v"
  "vfs_inode_id_by_path p v = (q, v') \<Longrightarrow> v_db v' = v_db v"
  "vfs_get_chunk E c v = (s, v') \<Longrightarrow> v_db v' = v_db v"
  by (auto simp: vfs_inode_by_id_def vfs_inode_id_by_path_def vfs_get_chunk_def split: option.splits sum.splits if_splits)

lemma insert_chunk_keeps:
  "vfs_insert_chunk E now later c v = Some (r, v') \<Longrightarrow> db_ok (v_db v) \<Longrightarrow> db_ok (v_db v')"
proof -
  have k: "keeps (db_tx (register_chunk c (Local [])))" by (intro wf_intros)
  assume run: "vfs_insert_chunk E now later c v = Some (r, v')" and ok: "db_ok (v_db v)"
  from write_tx_keeps [OF _ ok k] run ok show ?thesis
    by (fastforce simp: vfs_insert_chunk_def split: if_splits option.splits sum.splits)
qed

lemma tracker_insert_keeps:
  "tracker_insert_chunk E now later fh c v = Some (r, v') \<Longrightarrow> db_ok (v_db v) \<Longrightarrow> db_ok (v_db v')"
proof -
  have k: "keeps (db_tx (insert_temp_fh_chunk fh (ch_id c)))" by (intro wf_intros)
  assume run: "tracker_insert_chunk E now later fh c v = Some (r, v')" and ok: "db_ok (v_db v)"
  from run consider s where "vfs_insert_chunk E now later c v = Some (s, v')"
    | s v1 t where "vfs_insert_chunk E now later c v = Some (s, v1)"
      "write_tx E now later (db_tx (insert_temp_fh_chunk fh (ch_id c))) v1 = Some (t, v')"
    by (auto simp: tracker_insert_chunk_def split: option.splits sum.splits)
  then show ?thesis
    by cases (use ok insert_chunk_keeps write_tx_keeps [OF _ _ k] in blast)+
qed

lemma push_round_keeps:
  "push_round E U clock (v, n) = Some (Returns (r, v', n')) \<Longrightarrow> db_ok (v_db v) \<Longrightarrow> db_ok (v_db v')"
proof -
  have a: "keeps (fill_uploader E U i up items)" for i up items
    by (auto simp: keeps_def dest: fill_uploader_keeps)
  have b: "keeps (sync_tx SyncDbError (process_items E now its))" for now its
    by (intro wf_intros process_items_keep)
  assume "push_round E U clock (v, n) = Some (Returns (r, v', n'))" "db_ok (v_db v)"
  then show ?thesis
    by (auto simp: push_round_def split: option.splits sum.splits if_splits prod.splits
        dest!: write_tx_as_keeps [OF _ _ a] dest: write_tx_as_keeps [OF _ _ b])
qed

lemma open_rw_keeps: "vfs_open_rw E now later f v = Some (r, v') \<Longrightarrow> db_ok (v_db v) \<Longrightarrow> db_ok (v_db v')"
  by (auto simp: vfs_open_rw_def split: if_splits sum.splits option.splits prod.splits
      dest: write_tx_keeps [OF _ _ open_body_keeps])

lemma reap_keeps: "reap E now later fh v = Some v' \<Longrightarrow> db_ok (v_db v) \<Longrightarrow> db_ok (v_db v')"
proof -
  assume run: "reap E now later fh v = Some v'" and ok: "db_ok (v_db v)"
  let ?d = "(v_db v)\<lparr>t_change_log := []\<rparr>"
  let ?d1 = "case delete_fh fh ?d of Inl _ \<Rightarrow> ?d | Inr (_, d1) \<Rightarrow> d1"
  have "db_ok ?d1"
    using ok tx_keepsD [OF handles_keep(3), of ?d fh] by (auto split: sum.split)
  then have k: "keeps (\<lambda>_. Inr ((), ?d1))" by (simp add: keeps_def)
  from run obtain r where "write_tx E now later (\<lambda>_. Inr ((), ?d1)) v = Some (r, v')"
    by (auto simp: reap_def Let_def)
  from write_tx_keeps [OF this ok k] show ?thesis .
qed

lemma step_keeps: "vfs_step E v v' \<Longrightarrow> db_ok (v_db v) \<Longrightarrow> db_ok (v_db v')"
proof (induction rule: vfs_step.induct)
  case (step_update now later T m v r v')
  have "keeps (db_tx (tx_update E T i n d))" for i n d by (intro wf_intros)
  with step_update show ?case
    by (auto simp: vfs_update_def split: if_splits outcome.splits dest: write_tx_keeps)
next
  case (step_delete now later i v r v')
  have "keeps (db_tx (tx_bind (delete_inode i) (\<lambda>_. tx_return ())))" by (intro wf_intros)
  with step_delete show ?case
    by (auto simp: vfs_delete_def split: if_splits dest: write_tx_keeps)
next
  case (step_mv now later i parent v r v')
  have "keeps (db_tx (move_inode i (ti_id parent)))" by (intro wf_intros)
  with step_mv show ?case
    by (auto simp: vfs_mv_def split: if_splits dest: write_tx_keeps)
next
  case (step_create_dir g created now later parent name v r v')
  have "tx_keeps (tx_create_dir E g created name (ti_id parent))" by (intro wf_intros)
  with step_create_dir show ?case
    by (auto simp: vfs_create_dir_def split: if_splits dest: write_tx_keeps [OF _ _ create_body_keeps])
next
  case (step_create_file g created now later parent name v r v')
  have "tx_keeps (tx_create_file E g created name (ti_id parent))" by (intro wf_intros)
  with step_create_file show ?case
    by (auto simp: vfs_create_file_def dest: write_tx_keeps [OF _ _ create_body_keeps])
next
  case (step_fsync modified now later h b v r v')
  then show ?case
    by (auto simp: handle_fsync_def split: option.splits sum.splits prod.splits dest: write_tx_keeps [OF _ _ fsync_body_keeps])
next
  case (step_commit modified now later h b v r v')
  then show ?case
    by (auto simp: handle_commit_def split: option.splits sum.splits prod.splits dest: write_tx_keeps [OF _ _ commit_body_keeps])
next
  case (step_sync_object location clock o' v n r v' n')
  then show ?case
    by (auto simp: sync_object_def dest: write_tx_as_keeps [OF _ _ sync_object_body_keeps])
next
  case (step_mark_error now later "is" v r v')
  have "keeps (sync_tx SyncDbError (mark_object_error is))" by (intro wf_intros)
  with step_mark_error show ?case using write_tx_as_keeps by blast
next
  case (step_start_push now later b t v r v')
  have "keeps (sync_tx SyncDbError (start_push E b t))" by (intro wf_intros start_push_keeps)
  with step_start_push show ?case using write_tx_as_keeps by blast
next
  case (step_reset_push now later v r v')
  have "keeps (sync_tx SyncDbError reset_pending_job_items)" by (intro wf_intros)
  with step_reset_push show ?case using write_tx_as_keeps by blast
next
  case (step_end_push now later v r v')
  have "keeps (sync_tx SyncDbError clear_sync_job)" by (intro wf_intros)
  with step_end_push show ?case using write_tx_as_keeps by blast
qed (auto dest: read_keeps insert_chunk_keeps tracker_insert_keeps open_rw_keeps push_round_keeps reap_keeps)

lemma reachable_db_ok: "reachable E v \<Longrightarrow> db_ok (v_db v)"
proof (induction rule: reachable.induct)
  case (opened h now later d d' w i ro)
  then show ?case using db_new_keeps [OF opened(1)] db_ok_empty by auto
qed (rule step_keeps)

text \<open>
  C1: whatever operations ran, successful or not, since the database was made: every counted
  row holds exactly the number of references to it, and nothing refers to a row that is gone.
\<close>

theorem reachable_reference_counts:
  assumes "reachable E v"
  shows "case node_count n (v_db v) of
      Some c \<Rightarrow> c = count_list (refs (v_db v)) n
    | None \<Rightarrow> n \<notin> set (refs (v_db v))"
proof -
  from reachable_db_ok [OF assms] have "counts_with [] (v_db v)" by (simp add: db_ok_def)
  then show ?thesis
    by (auto dest: counts_withD(1) counts_withD(2) simp: count_list_0_iff split: option.split)
qed

section \<open>A new file system with one chunk\<close>

definition live_chunk :: chunk where
  "live_chunk = \<lparr>ch_id = [1], ch_content = [65]\<rparr>"

definition live_new :: vfs where
  "live_new = \<lparr>v_id = [7], v_head = Branch [109], v_read_only = False, v_db = empty_db, v_caches = no_caches\<rparr>"

definition live_stored :: vfs where
  "live_stored = live_new\<lparr>v_db := empty_db\<lparr>t_chunk := [([1], \<lparr>ck_ref_count = 0, ck_mode = Local [65]\<rparr>)]\<rparr>,
     v_caches := no_caches\<lparr>chunk_cache := (\<lambda>_. None)([1] \<mapsto> Some live_chunk)\<rparr>\<rparr>"

lemma commit_quiet:
  assumes "t_vfs d = []" and "t_config d = []"
  shows "commit_tx E b now later d = Some (Inr (fst (projr (get_changelog d)), d\<lparr>t_change_log := []\<rparr>))"
proof -
  have "process_dirty_inodes E d = Some (Inr ((), d))"
    using assms by (simp add: process_dirty_inodes.simps dirty_leaves_def)
  moreover have "commit_config E b now later d = Inr ((), d)"
    using assms by (simp add: commit_config_def config_is_empty_def tx_bind_def tx_get_def tx_return_def split: option.split)
  ultimately show ?thesis
    by (simp add: commit_tx_def tx_bind_def get_changelog_def tx_get_def clear_changelog_def tx_return_def)
qed

lemma empty_lists [simp]: "t_vfs empty_db = []" "t_config empty_db = []" "t_chunk empty_db = []"
  "t_change_log empty_db = []" "empty_db\<lparr>t_change_log := []\<rparr> = empty_db"
  by (simp_all add: empty_db_def)

lemma live_new_reachable: "reachable E live_new"
proof -
  have "housekeeping empty_db = Inr ((), empty_db)"
    by (simp add: housekeeping_def delete_handles_def exec_stmt_def empty_db_def fh_outs_def)
  then have "db_new E (Branch [109]) 0 0 empty_db = Some (Inr empty_db)"
    by (simp add: db_new_def commit_quiet)
  from reachable.opened [OF this, of undefined "[7]" False] show ?thesis by (simp add: live_new_def is_tag_def)
qed

lemma live_insert: "vfs_insert_chunk E 0 0 live_chunk live_new = Some (Inr (), live_stored)"
proof -
  have "register_chunk live_chunk (Local []) empty_db = Inr (True, empty_db\<lparr>t_chunk := [([1], \<lparr>ck_ref_count = 0, ck_mode = Local [65]\<rparr>)],
      t_change_log := [(Inserted, KChunk [1])]\<rparr>)"
    by (simp add: register_chunk_def need_create_chunk_def insert_chunk_row_def exec_stmt_def tx_bind_def tx_get_def
        tx_return_def live_chunk_def)
  then show ?thesis
    by (simp add: vfs_insert_chunk_def write_tx_def write_tx_as_def live_new_def db_tx_def commit_quiet
        live_stored_def live_chunk_def get_changelog_def tx_get_def invalidate_caches_def no_caches_def forget_def
        List.map_filter_def maybe_branch_name_def fun_eq_iff)
qed

theorem reachable_reference_counts_witness:
  "node_count (NChunk [1]) (v_db live_stored) = Some 0 \<and> count_list (refs (v_db live_stored)) (NChunk [1]) = 0"
proof -
  from reachable.stepped [OF live_new_reachable vfs_step.step_insert_chunk [OF live_insert]]
  have "reachable store_env0 live_stored" for store_env0 .
  from reachable_reference_counts [OF this, of "NChunk [1]"] show ?thesis by (simp add: live_stored_def)
qed

end
