(* ===== verification/VfsStore.thy ===== *)
theory VfsStore
  imports EntitySort BlobRead BlobWrite
begin

text \<open>
  The file system as the store of chunks that the reader and the writer of a blob rely on: the
  traits \<open>ChunkSource\<close> and \<open>ChunkSink\<close> of \<open>Vfs\<close> (\<open>janus-vfs/src/chunk/mod.rs\<close>) and of the
  tracker of an open file (\<open>TempChunkTracker\<close> in \<open>vfs/file.rs\<close>), shown to keep the laws of the
  locales \<open>chunk_store\<close> and \<open>patient_store\<close>.
\<close>

section \<open>The store\<close>

text \<open>
  The world of a reader or writer: the file system, and for each answer still to come how often
  the future is pending before it. An insertion whose commit does not end stays pending.
\<close>

type_synonym vfs_world = "vfs \<times> nat list"

definition next_poll :: "(vfs \<Rightarrow> 'a poll \<times> vfs) \<Rightarrow> vfs_world \<Rightarrow> 'a poll \<times> vfs_world" where
  "next_poll f = (\<lambda>(v, ns).
     case ns of
       Suc n # ns' \<Rightarrow> (Pending, v, n # ns')
     | _ \<Rightarrow> (case f v of (r, v') \<Rightarrow> (r, v', tl ns)))"

definition tracker_backend :: "env \<Rightarrow> timestamp \<Rightarrow> timestamp \<Rightarrow> nat \<Rightarrow> vfs_world backend" where
  "tracker_backend E now later fh =
     \<lparr>poll_get_chunk = (\<lambda>i. next_poll (\<lambda>v. case vfs_get_chunk E i v of (r, v') \<Rightarrow> (Ready r, v'))),
      poll_insert_chunk = (\<lambda>c. next_poll (\<lambda>v. case tracker_insert_chunk E now later fh c v of
          None \<Rightarrow> (Pending, v) | Some (r, v') \<Rightarrow> (Ready r, v')))\<rparr>"

text \<open>The content of a chunk the file system can deliver.\<close>

definition db_chunk :: "env \<Rightarrow> db \<Rightarrow> content_id \<Rightarrow> chunk option" where
  "db_chunk E d i = (case chunk_by_id E i d of Inr (Some c, _) \<Rightarrow> Some c | _ \<Rightarrow> None)"

definition vfs_stored :: "env \<Rightarrow> vfs_world \<Rightarrow> content_id \<Rightarrow> bytes option" where
  "vfs_stored E = (\<lambda>(v, ns) i. case chunk_cache (v_caches v) i of
       Some found \<Rightarrow> map_option ch_content found
     | None \<Rightarrow> map_option ch_content (db_chunk E (v_db v) i))"

text \<open>
  The state between two operations: no dirty directory, and the commit the head names shows the
  root (or there is nothing to commit to); the cached chunks are named by their hash.
\<close>

definition head_commit :: "env \<Rightarrow> str \<Rightarrow> commit tx" where
  "head_commit E branch_name =
     tx_bind (current_commit_id (Branch branch_name)) (\<lambda>prev.
     tx_bind (tx_some (DataError (HeadEntryNotFound (Branch branch_name))) prev) (\<lambda>prev_id.
     tx_bind (commit_by_id E prev_id) (\<lambda>prev_commit.
     tx_some (DataError (CommitNotFound prev_id)) prev_commit)))"

definition settled :: "env \<Rightarrow> str option \<Rightarrow> db \<Rightarrow> bool" where
  "settled E branch d =
     (dirty_leaves d = [] \<and>
      (case branch of
         None \<Rightarrow> True
       | Some b \<Rightarrow> t_config d = [] \<or>
           (case (map_of (t_vfs d) ROOT_INODE_ID, head_commit E b d) of
              (Some r, Inr (c, _)) \<Rightarrow> vf_parent r = None \<longrightarrow> co_entity_key c = vf_key r
            | _ \<Rightarrow> True)))"

definition vfs_winv :: "env \<Rightarrow> vfs_world \<Rightarrow> bool" where
  "vfs_winv E = (\<lambda>(v, ns). inj (chunk_hash (ev_hasher E))
     \<and> settled E (maybe_branch_name (v_head v)) (v_db v)
     \<and> (\<forall>i c. chunk_cache (v_caches v) i = Some (Some c) \<longrightarrow> ch_id c = i \<and> chunk_ok (ev_hasher E) c))"

section \<open>A commit with nothing to do\<close>

lemma update_commit_head:
  "update_commit E b now d = Inr (Some c, d') \<Longrightarrow> \<exists>r p d1. map_of (t_vfs d) ROOT_INODE_ID = Some r \<and> vf_parent r = None
     \<and> head_commit E b d = Inr (p, d1) \<and> co_entity_key p \<noteq> vf_key r"
  unfolding update_commit_def head_commit_def
  by (fastforce simp: tx_bind_Inr tx_row_def tx_some_def split: option.splits if_splits)

lemma update_commit_none: "update_commit E b now d = Inr (None, d') \<Longrightarrow> d' = d"
  unfolding update_commit_def
  by (auto simp: tx_bind_Inr tx_row_def tx_some_def current_commit_id_def affected_one_def Let_def
      split: option.splits if_splits dest: reads_same)


lemma settled_commit:
  assumes "settled E b d" and "commit_tx E b now later d = Some (Inr (cl, d'))"
  shows "d' = d\<lparr>t_change_log := []\<rparr> \<and> get_changelog d = Inr (cl, d)"
proof -
  have pd: "process_dirty_inodes E d = Some (Inr ((), d))"
    using assms(1) by (simp add: process_dirty_inodes.simps settled_def)
  have "d1 = d" if run: "commit_config E b now later d = Inr (u, d1)" for u d1
  proof (cases b)
    case None
    with run show ?thesis by (simp add: commit_config_def)
  next
    case (Some branch_name)
    show ?thesis
    proof (cases "t_config d = []")
      case True
      with run Some show ?thesis by (auto simp: commit_config_def tx_bind_Inr config_is_empty_def)
    next
      case False
      with run Some obtain c d2 where c: "update_commit E branch_name now d = Inr (c, d2)"
        and rest: "(if c \<noteq> None then tx_bind (maybe_update_config E later) (\<lambda>_. tx_return ()) else tx_return ()) d2 = Inr (u, d1)"
        by (auto simp: commit_config_def tx_bind_Inr config_is_empty_def)
      have "c = None"
      proof (rule ccontr)
        assume "c \<noteq> None"
        with c obtain x where "update_commit E branch_name now d = Inr (Some x, d2)" by blast
        from update_commit_head [OF this] assms(1) Some False show False by (auto simp: settled_def)
      qed
      with c rest update_commit_none show ?thesis by auto
    qed
  qed
  with assms(2) pd show ?thesis
    by (auto simp: commit_tx_def tx_bind_Inr get_changelog_def clear_changelog_def)
qed

text \<open>Statements that touch neither the tree nor commits nor objects.\<close>

definition same_frame :: "db \<Rightarrow> db \<Rightarrow> bool" where
  "same_frame d d' = (t_object d' = t_object d \<and> t_vfs d' = t_vfs d \<and> t_config d' = t_config d
     \<and> t_head d' = t_head d \<and> t_commit d' = t_commit d)"

lemma same_frame_trans: "same_frame d d' \<Longrightarrow> same_frame d' d'' \<Longrightarrow> same_frame d d''"
  by (simp add: same_frame_def)

text \<open>Reading gives the same answer in two databases, and changes neither.\<close>

definition reads_alike :: "db \<Rightarrow> db \<Rightarrow> 'a tx \<Rightarrow> bool" where
  "reads_alike d d' m = ((\<exists>e. m d = Inl e \<and> m d' = Inl e) \<or> (\<exists>a. m d = Inr (a, d) \<and> m d' = Inr (a, d')))"

lemma reads_alike_bind [wf_intros]:
  "reads_alike d d' m \<Longrightarrow> (\<And>a. reads_alike d d' (f a)) \<Longrightarrow> reads_alike d d' (tx_bind m f)"
  unfolding reads_alike_def tx_bind_def by fastforce

lemma reads_alike_simps [wf_intros]:
  "reads_alike d d' (tx_return a)" "reads_alike d d' (tx_fail e)" "reads_alike d d' (tx_some e v)"
  "reads_alike d d' (tx_io r)"
  by (auto simp: reads_alike_def tx_return_def tx_fail_def tx_some_def tx_io_def split: option.split sum.split)

lemma reads_alike_get: "f d' = f d \<Longrightarrow> reads_alike d d' (tx_get f)"
  by (simp add: reads_alike_def tx_get_def)

lemma reads_alike_if [wf_intros]: "reads_alike d d' m \<Longrightarrow> reads_alike d d' n \<Longrightarrow> reads_alike d d' (if b then m else n)"
  by simp

lemma remote_oid_alike [wf_intros]: "t_object d' = t_object d \<Longrightarrow> reads_alike d d' (remote_oid_of E oid)"
  unfolding remote_oid_of_def object_by_id_def by (auto intro!: wf_intros reads_alike_get)

lemma commit_by_id_alike: "same_frame d d' \<Longrightarrow> reads_alike d d' (commit_by_id E i)"
  unfolding commit_by_id_def same_frame_def
  by (auto intro!: wf_intros reads_alike_get split: option.split storage_mode.split sum.split)

lemma head_commit_alike: "same_frame d d' \<Longrightarrow> reads_alike d d' (head_commit E b)"
  unfolding head_commit_def current_commit_id_def
  by (auto intro!: wf_intros reads_alike_get commit_by_id_alike simp: same_frame_def)

lemma settled_frame:
  assumes "same_frame d d'"
  shows "settled E b d' \<longleftrightarrow> settled E b d"
proof -
  have eq: "t_vfs d' = t_vfs d" "t_config d' = t_config d" using assms by (auto simp: same_frame_def)
  show ?thesis
  proof (cases b)
    case None
    with eq show ?thesis by (simp add: settled_def dirty_leaves_def)
  next
    case (Some n)
    from head_commit_alike [OF assms, of E n] eq Some show ?thesis
      by (auto simp: settled_def dirty_leaves_def reads_alike_def split: option.split)
  qed
qed

section \<open>Chunks\<close>

lemma chunk_by_id_alike:
  assumes "t_object d' = t_object d" and "map_option ck_mode (map_of (t_chunk d') i) = map_option ck_mode (map_of (t_chunk d) i)"
  shows "reads_alike d d' (chunk_by_id E i)"
proof -
  let ?rest = "\<lambda>mode. tx_bind (case mode of
             Local bytes \<Rightarrow> tx_return (chunk_from (ev_hasher E) bytes)
           | Synced oid \<Rightarrow>
               tx_bind (remote_oid_of E oid) (\<lambda>remote_oid.
               tx_io (chunk_load_from_backend (ev_hasher E) (ev_meta E) remote_oid (ev_remote E)))) (\<lambda>c.
         if ch_id c \<noteq> i then tx_fail (DataError (DChunkIdMismatch i (ch_id c)))
         else tx_return (Some c))"
  have "chunk_by_id E i = tx_bind (tx_get (\<lambda>d. map_option ck_mode (map_of (t_chunk d) i)))
      (\<lambda>mode. case mode of None \<Rightarrow> tx_return None | Some mode \<Rightarrow> ?rest mode)"
    by (rule ext) (auto simp: chunk_by_id_def tx_bind_def tx_get_def split: option.split)
  then show ?thesis
    using assms by (auto intro!: wf_intros reads_alike_get split: option.split storage_mode.split)
qed

lemma db_chunk_alike:
  assumes "t_object d' = t_object d" and "map_option ck_mode (map_of (t_chunk d') i) = map_option ck_mode (map_of (t_chunk d) i)"
  shows "db_chunk E d' i = db_chunk E d i"
  using chunk_by_id_alike [OF assms, of E] by (auto simp: db_chunk_def reads_alike_def)

lemma db_chunk_ok: "db_chunk E d i = Some c \<Longrightarrow> ch_id c = i \<and> chunk_ok (ev_hasher E) c"
  by (auto simp: db_chunk_def chunk_by_id_def tx_bind_Inr tx_io_def chunk_load_from_backend_def Let_def wf_intros
      split: sum.splits option.splits storage_mode.splits if_splits)

lemma chunk_by_id_cases: "chunk_by_id E i d = Inr (found, d') \<Longrightarrow> d' = d \<and> db_chunk E d i = found"
  by (auto simp: db_chunk_def dest: reads_same split: option.split)

section \<open>Inserting\<close>

lemma exec_nothing [simp]: "exec_stmt [] [] d = Inr d"
  by (simp add: exec_stmt_def)

lemma register_local:
  "register_chunk c (Local []) d = Inr (u, d1) \<Longrightarrow> d1 = d \<or> (map_of (t_chunk d) (ch_id c) = None
     \<and> d1 = d\<lparr>t_chunk := t_chunk d @ [(ch_id c, \<lparr>ck_ref_count = 0, ck_mode = Local (ch_content c)\<rparr>)],
               t_change_log := t_change_log d @ [(Inserted, KChunk (ch_id c))]\<rparr>)"
  by (auto simp: register_chunk_def need_create_chunk_def insert_chunk_row_def tx_bind_Inr split: option.splits if_splits)

lemma modes_map_entry:
  "map_option ck_mode (map_of (AList.map_entry k (\<lambda>r. r\<lparr>ck_ref_count := n\<rparr>) t) i) = map_option ck_mode (map_of t i)"
  by (induction t) auto

lemma track_frame:
  "insert_temp_fh_chunk fh c d = Inr (u, d1) \<Longrightarrow> same_frame d d1 \<and> t_change_log d1 = t_change_log d
     \<and> map_option ck_mode (map_of (t_chunk d1) i) = map_option ck_mode (map_of (t_chunk d) i)"
  by (auto simp: insert_temp_fh_chunk_def exec_stmt_def same_frame_def modes_map_entry simp del: modes_map_entry
      split: if_splits option.splits sum.splits) (simp_all add: modes_map_entry)

lemma write_settled:
  assumes run: "write_tx E now later (db_tx m) v = Some (r, v')"
    and settled: "settled E (maybe_branch_name (v_head v)) (v_db v)"
    and frame: "\<forall>d a d1. m d = Inr (a, d1) \<longrightarrow> same_frame d d1"
  obtains (failed) e where "r = Inl e" "v' = v"
  | (committed) a d1 cl where "r = Inr a" "m ((v_db v)\<lparr>t_change_log := []\<rparr>) = Inr (a, d1)"
      "get_changelog d1 = Inr (cl, d1)"
      "v' = v\<lparr>v_db := d1\<lparr>t_change_log := []\<rparr>, v_caches := invalidate_caches cl (v_caches v)\<rparr>"
      "settled E (maybe_branch_name (v_head v)) (v_db v')"
proof -
  let ?d = "(v_db v)\<lparr>t_change_log := []\<rparr>" and ?b = "maybe_branch_name (v_head v)"
  have s0: "settled E ?b ?d" using settled settled_frame [of "v_db v" ?d] by (simp add: same_frame_def)
  show ?thesis
  proof (cases "m ?d")
    case (Inl e)
    with run failed show ?thesis by (auto simp: write_tx_def write_tx_as_def db_tx_def)
  next
    case (Inr p)
    obtain a d1 where p: "p = (a, d1)" by (cases p)
    with frame Inr have f1: "same_frame ?d d1" by blast
    with s0 settled_frame have s1: "settled E ?b d1" by blast
    from run Inr p consider e where "r = Inl e" "v' = v"
      | cl d2 where "commit_tx E ?b now later d1 = Some (Inr (cl, d2))" "r = Inr a"
        "v' = v\<lparr>v_db := d2, v_caches := invalidate_caches cl (v_caches v)\<rparr>"
      by (auto simp: write_tx_def write_tx_as_def db_tx_def split: option.splits sum.splits)
    then show ?thesis
    proof cases
      case 2
      note c = settled_commit [OF s1 2(1)]
      have "settled E ?b (d1\<lparr>t_change_log := []\<rparr>)"
        using s1 settled_frame [of d1 "d1\<lparr>t_change_log := []\<rparr>"] by (simp add: same_frame_def)
      with committed [of a d1 cl] c 2 Inr p show ?thesis by simp
    qed (rule failed)
  qed
qed

lemma changelog_simps:
  "get_changelog d = Inr (cl, d) \<Longrightarrow> t_change_log d = [] \<Longrightarrow> invalidate_caches cl c = c"
  "get_changelog d = Inr (cl, d) \<Longrightarrow> t_change_log d = [(ch, KChunk i)] \<Longrightarrow>
     invalidate_caches cl c = c\<lparr>chunk_cache := forget [i] (chunk_cache c)\<rparr>"
  by (auto simp: get_changelog_def tx_get_def invalidate_caches_def Let_def map_filter_simps)

lemma insert_chunk_stored:
  assumes inv: "vfs_winv E (v, ns)" and c: "chunk_ok (ev_hasher E) c"
    and run: "vfs_insert_chunk E now later c v = Some (r, v')"
  shows "vfs_winv E (v', ns') \<and> vfs_stored E (v, ns) \<subseteq>\<^sub>m vfs_stored E (v', ns')
    \<and> (r = Inr () \<longrightarrow> vfs_stored E (v', ns') (ch_id c) \<noteq> None)"
proof -
  note W = inv [unfolded vfs_winv_def, simplified]
  have same: "vfs_winv E (v, ns') \<and> vfs_stored E (v, ns) \<subseteq>\<^sub>m vfs_stored E (v, ns')"
    using inv by (simp add: vfs_winv_def vfs_stored_def)
  show ?thesis
  proof (cases "v_read_only v")
    case True
    with run same show ?thesis by (auto simp: vfs_insert_chunk_def)
  next
    case False
    with run obtain q v1 where q: "write_tx E now later (db_tx (register_chunk c (Local []))) v = Some (q, v1)"
      and out: "(case q of Inl e \<Rightarrow> r = Inl (other_error e) \<and> v' = v1 | Inr _ \<Rightarrow> r = Inr () \<and>
        v' = v1\<lparr>v_caches := (v_caches v1)\<lparr>chunk_cache := (chunk_cache (v_caches v1))(ch_id c := Some (Some c))\<rparr>\<rparr>)"
      by (auto simp: vfs_insert_chunk_def split: option.splits sum.splits)
    have frame: "\<forall>d a d1. register_chunk c (Local []) d = Inr (a, d1) \<longrightarrow> same_frame d d1"
      by (auto simp: same_frame_def dest!: register_local)
    from W have settled: "settled E (maybe_branch_name (v_head v)) (v_db v)" by simp
    show ?thesis
    proof (cases rule: write_settled [OF q settled frame, case_names failed committed])
      case (failed e)
      with out same show ?thesis by simp
    next
      case (committed a d1 cl)
      let ?d = "(v_db v)\<lparr>t_change_log := []\<rparr>" and ?i = "ch_id c"
      have cl: "\<And>j. j \<noteq> ?i \<Longrightarrow> chunk_cache (invalidate_caches cl (v_caches v)) j = chunk_cache (v_caches v) j"
        and modes: "\<And>j. j \<noteq> ?i \<Longrightarrow> map_option ck_mode (map_of (t_chunk d1) j) = map_option ck_mode (map_of (t_chunk (v_db v)) j)"
        and obs: "t_object d1 = t_object (v_db v)"
        using register_local [OF committed(2)] changelog_simps [OF committed(3)]
        by (auto simp: forget_def map_add_def split: option.split)
      have v': "v_caches v' = (invalidate_caches cl (v_caches v))\<lparr>chunk_cache := (chunk_cache (invalidate_caches cl (v_caches v)))(?i := Some (Some c))\<rparr>"
        "v_db v' = d1\<lparr>t_change_log := []\<rparr>" "v_head v' = v_head v" "r = Inr ()"
        using out committed by auto
      have "db_chunk E (v_db v') j = db_chunk E (v_db v) j" if "j \<noteq> ?i" for j
        by (rule db_chunk_alike) (use modes [OF that] obs v' in simp_all)
      then have other: "vfs_stored E (v', ns') j = vfs_stored E (v, ns) j" if "j \<noteq> ?i" for j
        using that cl v' by (simp add: vfs_stored_def split: option.split)
      have new: "vfs_stored E (v', ns') ?i = Some (ch_content c)" by (simp add: vfs_stored_def v')
      have "bs = ch_content c" if "vfs_stored E (v, ns) ?i = Some bs" for bs
      proof -
        from that W db_chunk_ok have "chunk_hash (ev_hasher E) bs = ?i"
          by (fastforce simp: vfs_stored_def chunk_ok_def split: option.splits)
        with c W show ?thesis by (auto simp: chunk_ok_def dest: injD)
      qed
      with other new have "vfs_stored E (v, ns) \<subseteq>\<^sub>m vfs_stored E (v', ns')"
        unfolding map_le_def by (metis domD)
      moreover have "vfs_winv E (v', ns')"
        using W c cl committed(5) v' committed(4) by (auto simp: vfs_winv_def)
      ultimately show ?thesis using new by simp
    qed
  qed
qed

lemma track_chunk_stored:
  assumes inv: "vfs_winv E (v, ns)"
    and run: "write_tx E now later (db_tx (insert_temp_fh_chunk fh c)) v = Some (r, v')"
  shows "vfs_winv E (v', ns') \<and> vfs_stored E (v', ns') = vfs_stored E (v, ns)"
proof -
  note W = inv [unfolded vfs_winv_def, simplified]
  then have settled: "settled E (maybe_branch_name (v_head v)) (v_db v)" by simp
  have frame: "\<forall>d a d1. insert_temp_fh_chunk fh c d = Inr (a, d1) \<longrightarrow> same_frame d d1"
    using track_frame by blast
  show ?thesis
  proof (cases rule: write_settled [OF run settled frame, case_names failed committed])
    case (failed e)
    with W show ?thesis by (simp add: vfs_winv_def vfs_stored_def)
  next
    case (committed a d1 cl)
    let ?d = "(v_db v)\<lparr>t_change_log := []\<rparr>"
    from track_frame [OF committed(2)] have f: "same_frame ?d d1" "t_change_log d1 = []"
      and modes: "\<And>i. map_option ck_mode (map_of (t_chunk d1) i) = map_option ck_mode (map_of (t_chunk (v_db v)) i)"
      by auto
    from f(1) have "t_object d1 = t_object (v_db v)" by (simp add: same_frame_def)
    then have "db_chunk E (v_db v') i = db_chunk E (v_db v) i" for i
      by (intro db_chunk_alike) (use modes committed(4) in simp_all)
    moreover have "v_caches v' = v_caches v" "v_head v' = v_head v"
      using changelog_simps(1) [OF committed(3) f(2)] committed(4) by simp_all
    ultimately show ?thesis
      using W committed(5) by (simp add: vfs_winv_def vfs_stored_def cong: option.case_cong)
  qed
qed

lemma tracker_stored:
  assumes inv: "vfs_winv E (v, ns)" and c: "chunk_ok (ev_hasher E) c"
    and run: "tracker_insert_chunk E now later fh c v = Some (r, v')"
  shows "vfs_winv E (v', ns') \<and> vfs_stored E (v, ns) \<subseteq>\<^sub>m vfs_stored E (v', ns')
    \<and> (r = Inr () \<longrightarrow> vfs_stored E (v', ns') (ch_id c) \<noteq> None)"
proof -
  from run obtain q v1 where q: "vfs_insert_chunk E now later c v = Some (q, v1)"
    and out: "q = Inl e \<Longrightarrow> r = Inl e \<and> v' = v1"
      "q = Inr () \<Longrightarrow> \<exists>x. write_tx E now later (db_tx (insert_temp_fh_chunk fh (ch_id c))) v1 = Some (x, v')" for e
    by (auto simp: tracker_insert_chunk_def split: option.splits sum.splits)
  note A = insert_chunk_stored [OF inv c q, of ns']
  show ?thesis
  proof (cases q)
    case (Inl e)
    with out A show ?thesis by auto
  next
    case (Inr u)
    with out obtain x where "write_tx E now later (db_tx (insert_temp_fh_chunk fh (ch_id c))) v1 = Some (x, v')" by auto
    from track_chunk_stored [OF _ this, of ns' ns'] A Inr show ?thesis by auto
  qed
qed

lemma get_chunk_stored:
  assumes inv: "vfs_winv E (v, ns)" and run: "vfs_get_chunk E i v = (r, v')"
  shows "vfs_winv E (v', ns') \<and> vfs_stored E (v', ns') = vfs_stored E (v, ns)
    \<and> (\<forall>c. r = Inr (Some c) \<longrightarrow> ch_id c = i \<and> vfs_stored E (v, ns) i = Some (ch_content c))
    \<and> (vfs_stored E (v, ns) i \<noteq> None \<longrightarrow> (\<exists>c. r = Inr (Some c)))"
proof (cases "chunk_cache (v_caches v) i")
  case (Some found)
  with run inv show ?thesis by (auto simp: vfs_get_chunk_def vfs_winv_def vfs_stored_def)
next
  case None
  show ?thesis
  proof (cases "chunk_by_id E i (v_db v)")
    case (Inl e)
    with None run inv show ?thesis
      by (auto simp: vfs_get_chunk_def vfs_winv_def vfs_stored_def read_tx_def db_tx_def db_chunk_def)
  next
    case (Inr p)
    obtain found d' where p: "p = (found, d')" by (cases p)
    from chunk_by_id_cases [OF Inr [unfolded p]] have f: "db_chunk E (v_db v) i = found" by simp
    from None run Inr p have r: "r = Inr found"
      "v' = v\<lparr>v_caches := (v_caches v)\<lparr>chunk_cache := (chunk_cache (v_caches v))(i := Some found)\<rparr>\<rparr>"
      by (auto simp: vfs_get_chunk_def read_tx_def db_tx_def)
    with None f have same: "vfs_stored E (v', ns') = vfs_stored E (v, ns)"
      by (auto simp: vfs_stored_def fun_eq_iff cong: option.case_cong)
    moreover have "vfs_winv E (v', ns')"
      using inv r f db_chunk_ok by (auto simp: vfs_winv_def)
    ultimately show ?thesis
      using r f None db_chunk_ok by (auto simp: vfs_stored_def)
  qed
qed

section \<open>The laws\<close>

lemma next_poll_cases:
  "next_poll f (v, ns) = (r, v', ns') \<Longrightarrow> (r = Pending \<and> v' = v \<and> sum_list ns' < sum_list ns)
     \<or> (f v = (r, v') \<and> sum_list ns' \<le> sum_list ns)"
  by (auto simp: next_poll_def split: list.splits nat.splits prod.splits)

lemma poll_get_laws:
  assumes inv: "vfs_winv E w" and run: "poll_get_chunk (tracker_backend E now later fh) i w = (r, w')"
  shows "vfs_winv E w' \<and> vfs_stored E w' = vfs_stored E w
    \<and> (\<forall>c. r = Ready (Inr (Some c)) \<longrightarrow> ch_id c = i \<and> vfs_stored E w i = Some (ch_content c))
    \<and> (vfs_stored E w i \<noteq> None \<longrightarrow> (r = Pending \<and> sum_list (snd w') < sum_list (snd w))
         \<or> ((\<exists>c. r = Ready (Inr (Some c))) \<and> sum_list (snd w') \<le> sum_list (snd w)))"
proof -
  obtain v ns v' ns' where w: "w = (v, ns)" "w' = (v', ns')" by (cases w, cases w')
  let ?get = "\<lambda>v. case vfs_get_chunk E i v of (r, v') \<Rightarrow> (Ready r, v')"
  from run w have poll: "next_poll ?get (v, ns) = (r, v', ns')" by (simp add: tracker_backend_def)
  consider "r = Pending" "v' = v" "sum_list ns' < sum_list ns"
    | q where "vfs_get_chunk E i v = (q, v')" "r = Ready q" "sum_list ns' \<le> sum_list ns"
    using next_poll_cases [OF poll] by (auto split: prod.splits)
  then show ?thesis
  proof cases
    case 1
    with inv w show ?thesis by (simp add: vfs_winv_def vfs_stored_def)
  next
    case 2
    with get_chunk_stored [OF inv [unfolded w] 2(1), of ns'] w show ?thesis by auto
  qed
qed

lemma poll_insert_laws:
  assumes inv: "vfs_winv E w" and c: "chunk_ok (ev_hasher E) c"
    and run: "poll_insert_chunk (tracker_backend E now later fh) c w = (r, w')"
  shows "vfs_winv E w' \<and> vfs_stored E w \<subseteq>\<^sub>m vfs_stored E w' \<and> (r = Ready (Inr ()) \<longrightarrow> vfs_stored E w' (ch_id c) \<noteq> None)"
proof -
  obtain v ns v' ns' where w: "w = (v, ns)" "w' = (v', ns')" by (cases w, cases w')
  let ?insert = "\<lambda>v. case tracker_insert_chunk E now later fh c v of None \<Rightarrow> (Pending, v) | Some (r, v') \<Rightarrow> (Ready r, v')"
  from run w have poll: "next_poll ?insert (v, ns) = (r, v', ns')" by (simp add: tracker_backend_def)
  consider "r = Pending" "v' = v" | q where "tracker_insert_chunk E now later fh c v = Some (q, v')" "r = Ready q"
    using next_poll_cases [OF poll] by (auto split: option.splits prod.splits)
  then show ?thesis
  proof cases
    case 1
    with inv w show ?thesis by (simp add: vfs_winv_def vfs_stored_def)
  next
    case 2
    with tracker_stored [OF inv [unfolded w] c 2(1), of ns'] w show ?thesis by auto
  qed
qed

interpretation vfs_chunks: patient_store "tracker_backend E now later fh" "ev_hasher E" "vfs_winv E" "vfs_stored E"
  "\<lambda>w. sum_list (snd w)"
  for E now later fh
proof unfold_locales
  fix w :: vfs_world and i bs
  assume "vfs_winv E w" "vfs_stored E w i = Some bs"
  then show "chunk_hash (ev_hasher E) bs = i"
    by (fastforce simp: vfs_stored_def vfs_winv_def chunk_ok_def split: option.splits prod.splits dest: db_chunk_ok)
next
  fix w w' :: vfs_world and i r
  assume inv: "vfs_winv E w" and run: "poll_get_chunk (tracker_backend E now later fh) i w = (r, w')"
  from poll_get_laws [OF this] show "vfs_winv E w' \<and> vfs_stored E w \<subseteq>\<^sub>m vfs_stored E w'" by simp
next
  fix w w' :: vfs_world and i c
  assume "vfs_winv E w" and "poll_get_chunk (tracker_backend E now later fh) i w = (Ready (Inr (Some c)), w')"
  from poll_get_laws [OF this] show "ch_id c = i \<and> vfs_stored E w' i = Some (ch_content c)" by simp
next
  fix w w' :: vfs_world and c q
  assume "vfs_winv E w" and "chunk_ok (ev_hasher E) c" and "poll_insert_chunk (tracker_backend E now later fh) c w = (q, w')"
  from poll_insert_laws [OF this] show "vfs_winv E w' \<and> vfs_stored E w \<subseteq>\<^sub>m vfs_stored E w'" by simp
next
  fix w w' :: vfs_world and c u
  assume "vfs_winv E w" and "chunk_ok (ev_hasher E) c" and "poll_insert_chunk (tracker_backend E now later fh) c w = (Ready (Inr u), w')"
  from poll_insert_laws [OF this] show "vfs_stored E w' (ch_id c) \<noteq> None" by simp
next
  fix w w' :: vfs_world and i r
  assume st: "vfs_stored E w i \<noteq> None" and "vfs_winv E w" and "poll_get_chunk (tracker_backend E now later fh) i w = (r, w')"
  from poll_get_laws [OF this(2,3)] st
  show "(r = Pending \<and> sum_list (snd w') < sum_list (snd w)) \<or> ((\<exists>c. r = Ready (Inr (Some c))) \<and> sum_list (snd w') \<le> sum_list (snd w))"
    by blast
qed

section \<open>Files read and write through the store\<close>

lemma blob_by_id_wf: "blob_by_id E i d = Inr (Some b, d') \<Longrightarrow> cm_wf (bl_chunk_map b)"
proof -
  have wf: "cm_wf (fold (\<lambda>c m. cm_insert (cr_offset c) (cr_len c) (cr_chunk_id c) (cr_chunk_offset c) m) rs m)" if "cm_wf m" for rs m
    using that by (induction rs arbitrary: m) (auto intro: wf_intros)
  then show "blob_by_id E i d = Inr (Some b, d') \<Longrightarrow> ?thesis"
    by (auto simp: blob_by_id_def tx_bind_Inr Let_def finalize_def from_chunk_map_def
        intro!: wf wf_intros split: option.splits if_splits)
qed



section \<open>A small file system\<close>

definition store_env :: env where
  "store_env = tree_env\<lparr>ev_hasher := (\<lambda>_ bs. bs)\<rparr>"

definition store_map :: chunk_map where
  "store_map = cm_insert 0 3 (chunk_hash (\<lambda>_ bs. bs) [65, 66, 67]) 0 (with_len 3)"

definition store_blob :: blob where
  "store_blob = finalize (\<lambda>_ bs. bs) (from_chunk_map store_map (Local []))"

definition store_db :: db where
  "store_db = empty_db\<lparr>t_chunk := [(chunk_hash (\<lambda>_ bs. bs) [65, 66, 67], \<lparr>ck_ref_count = 1, ck_mode = Local [65, 66, 67]\<rparr>)],
     t_blob := [(bl_id store_blob, \<lparr>bo_ref_count = 0, bo_size = 3, bo_object = None\<rparr>)],
     t_chunk_map := [(bl_id store_blob, \<lparr>cr_offset = 0, cr_len = 3,
       cr_chunk_id = chunk_hash (\<lambda>_ bs. bs) [65, 66, 67], cr_chunk_offset = 0\<rparr>)]\<rparr>"

definition store_vfs :: vfs where
  "store_vfs = \<lparr>v_id = [7], v_head = Branch [109], v_read_only = False, v_db = store_db,
     v_caches = \<lparr>path_cache = (\<lambda>_. None), inode_cache = (\<lambda>_. None), chunk_cache = (\<lambda>_. None)\<rparr>\<rparr>"

lemma store_world: "vfs_winv store_env (store_vfs, ns)"
proof -
  have "inj (chunk_hash (ev_hasher store_env))"
    by (auto intro!: injI dest: chunk_transcript_inject simp: chunk_hash_def store_env_def)
  moreover have "t_vfs store_db = []" "t_config store_db = []" by (simp_all add: store_db_def empty_db_def)
  ultimately show ?thesis
    by (simp add: vfs_winv_def store_vfs_def settled_def dirty_leaves_def split: option.split)
qed

lemma store_blob_there: "vfs_blob_by_id store_env (bl_id store_blob) store_vfs = Inr (Some store_blob)"
proof -
  let ?r = "\<lparr>cr_offset = 0, cr_len = 3, cr_chunk_id = chunk_hash (\<lambda>_ bs. bs) [65, 66, 67], cr_chunk_offset = 0\<rparr> :: chunk_range"
  have "map_of (t_blob store_db) (bl_id store_blob) = Some \<lparr>bo_ref_count = 0, bo_size = 3, bo_object = None\<rparr>"
    "map snd (filter (\<lambda>(b, _). b = bl_id store_blob) (t_chunk_map store_db)) = [?r]"
    by (simp_all add: store_db_def)
  moreover have "fold (\<lambda>c m. cm_insert (cr_offset c) (cr_len c) (cr_chunk_id c) (cr_chunk_offset c) m) (sort_key cr_offset [?r]) (with_len 3) = store_map"
    by (simp add: store_map_def)
  moreover have "ev_hasher store_env = (\<lambda>_ bs. bs)" by (simp add: store_env_def)
  ultimately have "blob_by_id store_env (bl_id store_blob) store_db = Inr (Some store_blob, store_db)"
    unfolding blob_by_id_def tx_bind_def tx_get_def Let_def
    by (simp only: sum.case prod.case option.case blob_row.simps) (simp add: store_blob_def blob_mode_def tx_return_def)
  then show ?thesis by (simp add: vfs_blob_by_id_def read_tx_def db_tx_def store_vfs_def)
qed

lemma store_map_eq: "store_map = \<lparr>cm_len = 3, cm_entries =
    [(0, \<lparr>ce_end = 3, ce_chunk_id = chunk_hash (\<lambda>_ bs. bs) [65, 66, 67], ce_chunk_offset = 0\<rparr>)]\<rparr>"
  by code_simp

lemma store_at: "cm_at store_map x = (if x < 3 then Some (chunk_hash (\<lambda>_ bs. bs) [65, 66, 67], x) else None)"
  by (simp add: store_map_eq cm_at_def)

lemma store_stored: "vfs_stored store_env (store_vfs, ns) (chunk_hash (\<lambda>_ bs. bs) [65, 66, 67]) = Some [65, 66, 67]"
  by (simp add: vfs_stored_def store_vfs_def store_db_def db_chunk_def chunk_by_id_def tx_bind_def tx_get_def
      tx_return_def store_env_def)

lemma store_backed: "backed (vfs_stored store_env (store_vfs, ns)) store_map"
  unfolding backed_def by (auto simp: store_at store_stored word_less_nat_alt split: if_splits)


text \<open>A new writer of an empty blob keeps the regime; its first write is taken into the buffer.\<close>

lemma new_writer_inv:
  assumes "winv w" and "0 < c" and "unat (c :: usize) < 2 ^ 63"
  shows "writer_inv winv stored H (bw_mode (new_writer blob_mut_empty w c))"
proof -
  have "cm_at cm_new x = None" for x by (simp add: cm_at_def cm_new_def with_len_def)
  then have "window_is st n cm_new a []" for st n a by (simp add: window_is_def)
  then have "aligned_map st (unat c) cm_new" for st
    using assms(3) by (auto simp: aligned_map_def wf_intros) (simp_all add: cm_new_def with_len_def)
  with assms show ?thesis
    by (simp add: writer_inv_def new_writer_def blob_mut_empty_def write_pipeline_new_def wf_intros word_less_nat_alt)
qed

definition store_writer :: "vfs_world read_write" where
  "store_writer = bw_mode (new_writer blob_mut_empty (store_vfs, []) 4)"

lemma store_write:
  "poll_write_impl H B 0 [1, 2] store_writer
     = Returns (Ready (Inr 2), set_buffer \<lparr>wb_start_pos = 0, wb_content = [1, 2], wb_capacity = 4, wb_dirty = True\<rparr> store_writer)"
  by (simp add: poll_write_impl_def store_writer_def new_writer_def pbind_def check_closed_def pret_def
      poll_ensure_submit_complete_def on_pipeline_def poll_submit_complete_def write_pipeline_new_def make_buffer_def
      blob_mut_empty_def set_buffer_def write_at_def write_into_vec_def write_buffer_new_def cm_get_def cm_new_def with_len_def
      bt_floor_def bt_above_def Let_def vec_extend_cap_def)


end
