(* ===== verification/Locks.thy ===== *)
theory Locks
  imports Transact
begin

text \<open>
  The locks of files open for writing (\<open>FileWriteLocks\<close> in \<open>janus-vfs/src/vfs/file.rs\<close>): a map
  from inodes to weak references on asynchronous mutexes. Tasks run interleaved, on several
  threads; each step below is atomic in the code, by the lock of the map or by the mutex. A mutex lives as long as a task waits for it or holds
  it (the \<open>Arc\<close> of \<open>lock_owned\<close> and of the guard); a weak reference upgrades while it lives.
\<close>

section \<open>The locks\<close>

type_synonym task = nat

record 'k lock_state =
  lk_map :: "'k \<Rightarrow> nat option"
  lk_next :: nat
  lk_key :: "nat \<Rightarrow> 'k"
  lk_waiting :: "(task \<times> nat) list"
  lk_held :: "(task \<times> nat) list"

definition lk_new :: "'k::zero lock_state" where
  "lk_new = \<lparr>lk_map = (\<lambda>_. None), lk_next = 0, lk_key = (\<lambda>_. 0), lk_waiting = [], lk_held = []\<rparr>"

definition lk_alive :: "'k lock_state \<Rightarrow> nat \<Rightarrow> bool" where
  "lk_alive s m = (m \<in> snd ` set (lk_waiting s) \<union> snd ` set (lk_held s))"

text \<open>The part of \<open>acquire\<close> under the outer lock: the mutex of the inode, a new one unless the old one lives.\<close>

definition lk_enter :: "task \<Rightarrow> 'k \<Rightarrow> 'k lock_state \<Rightarrow> 'k lock_state" where
  "lk_enter t i s =
     (case lk_map s i of
        Some m \<Rightarrow>
          if lk_alive s m then s\<lparr>lk_waiting := lk_waiting s @ [(t, m)]\<rparr>
          else s\<lparr>lk_map := (lk_map s)(i \<mapsto> lk_next s), lk_key := (lk_key s)(lk_next s := i), lk_next := Suc (lk_next s),
                 lk_waiting := lk_waiting s @ [(t, lk_next s)]\<rparr>
      | None \<Rightarrow>
          s\<lparr>lk_map := (lk_map s)(i \<mapsto> lk_next s), lk_key := (lk_key s)(lk_next s := i), lk_next := Suc (lk_next s),
            lk_waiting := lk_waiting s @ [(t, lk_next s)]\<rparr>)"

text \<open>\<open>lock_owned\<close> completes when nobody holds the mutex; otherwise the wait ends after five seconds.\<close>

definition lk_grant :: "task \<Rightarrow> nat \<Rightarrow> 'k lock_state \<Rightarrow> 'k lock_state" where
  "lk_grant t m s = s\<lparr>lk_waiting := remove1 (t, m) (lk_waiting s), lk_held := lk_held s @ [(t, m)]\<rparr>"

definition lk_timeout :: "task \<Rightarrow> nat \<Rightarrow> 'k lock_state \<Rightarrow> lock_error \<times> 'k lock_state" where
  "lk_timeout t m s = (AcquisitionTimeout, s\<lparr>lk_waiting := remove1 (t, m) (lk_waiting s)\<rparr>)"

text \<open>
  Dropping a lock releases the mutex and then, under the lock of the map, removes the dead
  entries; other tasks may run in between.
\<close>

definition lk_release :: "task \<Rightarrow> nat \<Rightarrow> 'k lock_state \<Rightarrow> 'k lock_state" where
  "lk_release t m s = s\<lparr>lk_held := remove1 (t, m) (lk_held s)\<rparr>"

definition lk_sweep :: "'k lock_state \<Rightarrow> 'k lock_state" where
  "lk_sweep s = s\<lparr>lk_map := (\<lambda>i. case lk_map s i of Some m \<Rightarrow> if lk_alive s m then Some m else None | None \<Rightarrow> None)\<rparr>"

definition lk_drop :: "task \<Rightarrow> nat \<Rightarrow> 'k lock_state \<Rightarrow> 'k lock_state" where
  "lk_drop t m s = lk_sweep (lk_release t m s)"

inductive lk_step :: "'k lock_state \<Rightarrow> 'k lock_state \<Rightarrow> bool" where
  enter: "lk_step s (lk_enter t i s)"
| grant: "(t, m) \<in> set (lk_waiting s) \<Longrightarrow> m \<notin> snd ` set (lk_held s) \<Longrightarrow> lk_step s (lk_grant t m s)"
| timeout: "(t, m) \<in> set (lk_waiting s) \<Longrightarrow> lk_step s (snd (lk_timeout t m s))"
| release: "(t, m) \<in> set (lk_held s) \<Longrightarrow> lk_step s (lk_release t m s)"
| sweep: "lk_step s (lk_sweep s)"

inductive lk_reachable :: "'k::zero lock_state \<Rightarrow> bool" where
  start: "lk_reachable lk_new"
| step: "lk_reachable s \<Longrightarrow> lk_step s s' \<Longrightarrow> lk_reachable s'"

inductive_cases lk_stepE: "lk_step s s'"

section \<open>Mutual exclusion\<close>

text \<open>Every mutex that lives is the one in the map for its inode, and nobody shares a held one.\<close>

definition lk_inv :: "'k lock_state \<Rightarrow> bool" where
  "lk_inv s = ((\<forall>m. lk_alive s m \<longrightarrow> lk_map s (lk_key s m) = Some m)
     \<and> (\<forall>i m. lk_map s i = Some m \<longrightarrow> m < lk_next s \<and> lk_key s m = i)
     \<and> (\<forall>m. lk_alive s m \<longrightarrow> m < lk_next s) \<and> distinct (map snd (lk_held s)))"

lemma distinct_remove1_map: "distinct (map f xs) \<Longrightarrow> distinct (map f (remove1 x xs))"
proof (induction xs)
  case (Cons y xs)
  moreover have "f y \<notin> f ` set (remove1 x xs)" if "f y \<notin> f ` set xs"
    using that set_remove1_subset [of x xs] by blast
  ultimately show ?case by simp
qed simp

lemma alive_remove1: "x \<in> snd ` set (remove1 p xs) \<Longrightarrow> x \<in> snd ` set xs"
  using set_remove1_subset [of p xs] by blast

lemma alive_sub:
  "lk_alive (lk_grant t m s) x \<Longrightarrow> (t, m) \<in> set (lk_waiting s) \<Longrightarrow> lk_alive s x"
  "lk_alive (snd (lk_timeout t m s)) x \<Longrightarrow> lk_alive s x"
  "lk_alive (lk_release t m s) x \<Longrightarrow> lk_alive s x"
  "lk_alive (lk_sweep s) x \<longleftrightarrow> lk_alive s x"
proof -
  note r = alive_remove1 [of x]
  show "lk_alive (lk_grant t m s) x \<Longrightarrow> (t, m) \<in> set (lk_waiting s) \<Longrightarrow> lk_alive s x"
    using r [of "(t, m)" "lk_waiting s"] image_eqI [of m snd "(t, m)" "set (lk_waiting s)"]
    unfolding lk_alive_def lk_grant_def by auto
  show "lk_alive (snd (lk_timeout t m s)) x \<Longrightarrow> lk_alive s x"
    using r [of "(t, m)" "lk_waiting s"] unfolding lk_alive_def lk_timeout_def by auto
  show "lk_alive (lk_release t m s) x \<Longrightarrow> lk_alive s x"
    using r [of "(t, m)" "lk_held s"] unfolding lk_alive_def lk_release_def by auto
  show "lk_alive (lk_sweep s) x \<longleftrightarrow> lk_alive s x"
    by (simp add: lk_alive_def lk_sweep_def)
qed

lemma lk_alive_held: "(t, m) \<in> set (lk_held s) \<Longrightarrow> lk_alive s m"
  unfolding lk_alive_def by (rule UnI2, erule rev_image_eqI) simp

lemma lk_invD:
  "lk_inv s \<Longrightarrow> lk_alive s m \<Longrightarrow> lk_map s (lk_key s m) = Some m \<and> m < lk_next s"
  "lk_inv s \<Longrightarrow> lk_map s i = Some m \<Longrightarrow> m < lk_next s \<and> lk_key s m = i"
  unfolding lk_inv_def by blast+

lemma lk_enter_inv:
  assumes inv: "lk_inv s"
  shows "lk_inv (lk_enter t i s)"
proof (cases "\<exists>m. lk_map s i = Some m \<and> lk_alive s m")
  case True
  then obtain m where m: "lk_map s i = Some m" "lk_alive s m" by blast
  then have eq: "lk_enter t i s = s\<lparr>lk_waiting := lk_waiting s @ [(t, m)]\<rparr>" by (simp add: lk_enter_def)
  have "lk_alive (s\<lparr>lk_waiting := lk_waiting s @ [(t, m)]\<rparr>) x \<longleftrightarrow> lk_alive s x" for x
    using m(2) by (auto simp: lk_alive_def)
  with inv show ?thesis unfolding eq lk_inv_def by simp
next
  case False
  let ?n = "lk_next s"
  let ?s = "s\<lparr>lk_map := (lk_map s)(i \<mapsto> ?n), lk_key := (lk_key s)(?n := i), lk_next := Suc ?n,
      lk_waiting := lk_waiting s @ [(t, ?n)]\<rparr>"
  have eq: "lk_enter t i s = ?s"
    using False by (cases "lk_map s i") (simp_all add: lk_enter_def)
  have alive: "lk_alive ?s m \<longleftrightarrow> m = ?n \<or> lk_alive s m" for m by (auto simp: lk_alive_def)
  have old: "m \<noteq> ?n \<and> lk_key s m \<noteq> i" if "lk_alive s m" for m
    using lk_invD(1) [OF inv that] False that by auto
  have A: "lk_map ?s (lk_key ?s m) = Some m \<and> m < lk_next ?s" if "lk_alive ?s m" for m
    using that alive old lk_invD(1) [OF inv] by (cases "m = ?n") (auto simp: less_Suc_eq)
  have B: "m < lk_next ?s \<and> lk_key ?s m = j" if "lk_map ?s j = Some m" for j m
    using that lk_invD(2) [OF inv, of j m] by (cases "j = i") (auto simp: less_Suc_eq)
  have "distinct (map snd (lk_held ?s))" using inv by (simp add: lk_inv_def)
  with A B show ?thesis unfolding eq lk_inv_def by blast
qed

lemma lk_inv_shrink:
  assumes inv: "lk_inv s" and alive: "\<And>x. lk_alive s' x \<Longrightarrow> lk_alive s x"
    and same: "lk_key s' = lk_key s" "lk_next s' = lk_next s"
    and map: "\<And>i m. lk_map s' i = Some m \<Longrightarrow> lk_map s i = Some m"
    and kept: "\<And>i m. lk_map s i = Some m \<Longrightarrow> lk_alive s' m \<Longrightarrow> lk_map s' i = Some m"
    and held: "distinct (map snd (lk_held s'))"
  shows "lk_inv s'"
  unfolding lk_inv_def same
  using lk_invD(1) [OF inv alive] lk_invD(2) [OF inv map] kept held by blast

lemma lk_inv_step: "lk_inv s \<Longrightarrow> lk_step s s' \<Longrightarrow> lk_inv s'"
proof (erule lk_stepE)
  fix t i assume "lk_inv s" "s' = lk_enter t i s"
  then show ?thesis using lk_enter_inv by simp
next
  fix t m assume inv: "lk_inv s" and s': "s' = lk_grant t m s" and w: "(t, m) \<in> set (lk_waiting s)" and free: "m \<notin> snd ` set (lk_held s)"
  from inv have "distinct (map snd (lk_held s))" by (simp add: lk_inv_def)
  then have "distinct (map snd (lk_held s'))" using free by (simp add: s' lk_grant_def)
  then show ?thesis
    by (rule lk_inv_shrink [OF inv, rotated 5]) (simp_all add: s' alive_sub(1) [OF _ w], simp_all add: lk_grant_def)
next
  fix t m assume inv: "lk_inv s" and s': "s' = snd (lk_timeout t m s)"
  from inv have "distinct (map snd (lk_held s'))" by (simp add: lk_inv_def s' lk_timeout_def)
  then show ?thesis
    by (rule lk_inv_shrink [OF inv, rotated 5]) (simp_all add: s' alive_sub(2), simp_all add: lk_timeout_def)
next
  fix t m assume inv: "lk_inv s" and s': "s' = lk_release t m s"
  from inv have "distinct (map snd (lk_held s'))" by (simp add: lk_inv_def s' lk_release_def distinct_remove1_map)
  then show ?thesis
    by (rule lk_inv_shrink [OF inv, rotated 5]) (simp_all add: s' alive_sub(3), simp_all add: lk_release_def)
next
  assume inv: "lk_inv s" and s': "s' = lk_sweep s"
  have map: "lk_map s' i = (case lk_map s i of Some m \<Rightarrow> if lk_alive s' m then Some m else None | None \<Rightarrow> None)" for i
    unfolding s' alive_sub(4) by (simp add: lk_sweep_def)
  have M: "lk_map s' i = Some x \<Longrightarrow> lk_map s i = Some x" "lk_map s i = Some x \<Longrightarrow> lk_alive s' x \<Longrightarrow> lk_map s' i = Some x" for i x
    unfolding map by (cases "lk_map s i"; simp split: if_splits)+
  have alive: "lk_alive s x" if "lk_alive s' x" for x
    using that unfolding s' alive_sub(4) .
  have same: "lk_key s' = lk_key s" "lk_next s' = lk_next s"
    unfolding s' by (simp_all add: lk_sweep_def)
  have held: "distinct (map snd (lk_held s'))"
    using inv by (simp add: lk_inv_def s' lk_sweep_def)
  show ?thesis by (rule lk_inv_shrink [OF inv alive same M held])
qed

lemma lk_reachable_inv: "lk_reachable s \<Longrightarrow> lk_inv s"
proof (induction rule: lk_reachable.induct)
  case start
  show ?case by (simp add: lk_inv_def lk_new_def lk_alive_def)
qed (rule lk_inv_step)

lemma lk_reachable_drop: "lk_reachable s \<Longrightarrow> (t, m) \<in> set (lk_held s) \<Longrightarrow> lk_reachable (lk_drop t m s)"
  unfolding lk_drop_def
  using lk_reachable.step [OF lk_reachable.step [OF _ lk_step.release] lk_step.sweep] by blast

lemma lk_one_holder:
  assumes inv: "lk_inv s" and held: "(t1, m1) \<in> set (lk_held s)" "(t2, m2) \<in> set (lk_held s)"
    and key: "lk_key s m1 = lk_key s m2"
  shows "t1 = t2 \<and> m1 = m2"
proof -
  from lk_invD(1) [OF inv lk_alive_held [OF held(1)]] lk_invD(1) [OF inv lk_alive_held [OF held(2)]] key
  have "Some m1 = Some m2" by metis
  then have "m1 = m2" by simp
  from inv have "distinct (map snd (lk_held s))" by (simp add: lk_inv_def)
  then have "inj_on snd (set (lk_held s))" by (simp add: distinct_map)
  from inj_onD [OF this _ held] \<open>m1 = m2\<close> have "(t1, m1) = (t2, m2)" by simp
  then show ?thesis by simp
qed

text \<open>
  C9: no two tasks hold the lock of one file at the same time, in any interleaving of
  acquisitions, time-outs, releases and clean-ups of the map, although the mutexes are made and forgotten on the way.
\<close>

theorem lk_mutual_exclusion:
  assumes "lk_reachable s" and "(t1, m1) \<in> set (lk_held s)" and "(t2, m2) \<in> set (lk_held s)"
    and "lk_key s m1 = lk_key s m2"
  shows "t1 = t2 \<and> m1 = m2"
  by (rule lk_one_holder [OF lk_reachable_inv [OF assms(1)] assms(2-4)])

text \<open>One task holds the lock of a file, a second one waits for it, a third holds another one.\<close>

definition lk_demo :: "inode_id lock_state" where
  "lk_demo = lk_grant 3 1 (lk_enter 3 2001 (lk_grant 1 0 (lk_enter 2 2000 (lk_enter 1 2000 lk_new))))"

lemma lk_demo_reachable: "lk_reachable lk_demo"
proof -
  let ?a = "lk_enter 2 2000 (lk_enter 1 2000 (lk_new :: inode_id lock_state))"
  let ?b = "lk_enter 3 2001 (lk_grant 1 0 ?a)"
  note next_step = lk_reachable.step
  have a: "lk_reachable ?a"
    by (rule next_step [OF next_step [OF lk_reachable.start lk_step.enter] lk_step.enter])
  have "lk_waiting ?a = [(1, 0), (2, 0)]" "lk_held ?a = []" by code_simp+
  then have "lk_step ?a (lk_grant 1 0 ?a)" by (intro lk_step.grant) simp_all
  from next_step [OF next_step [OF a this] lk_step.enter] have b: "lk_reachable ?b" .
  have "lk_waiting ?b = [(2, 0), (3, 1)]" "lk_held ?b = [(1, 0)]" by code_simp+
  then have "lk_step ?b (lk_grant 3 1 ?b)" by (intro lk_step.grant) simp_all
  from next_step [OF b this] show ?thesis unfolding lk_demo_def .
qed

lemma lk_demo_held: "lk_held lk_demo = [(1, 0), (3, 1)]"
  by code_simp

theorem lk_mutual_exclusion_witness:
  "(3, 1) \<in> set (lk_held lk_demo) \<and> (1, 0) \<in> set (lk_held lk_demo) \<and> lk_key lk_demo 1 \<noteq> lk_key lk_demo 0"
proof -
  have held: "(3, 1) \<in> set (lk_held lk_demo)" "(1, 0) \<in> set (lk_held lk_demo)"
    by (simp_all add: lk_demo_held)
  from lk_mutual_exclusion [OF lk_demo_reachable held] held show ?thesis by auto
qed

end
