(* ===== verification/Handles.thy ===== *)
theory Handles
  imports VfsStore
begin

text \<open>
  Open files (\<open>FileHandle\<close> in \<open>janus-vfs/src/vfs/file.rs\<close>): a reader or a writer of a blob in
  the file system, driven by a caller that awaits each operation. A \<open>pace\<close> bounds the polls
  of one operation and says how often each future it awaits is pending first.
\<close>

section \<open>Running an operation of a handle\<close>

record pace =
  pc_polls :: nat
  pc_pending :: "nat list"
  pc_now :: timestamp
  pc_later :: timestamp

type_synonym ('h, 'a) handle_run = "'h \<Rightarrow> vfs \<Rightarrow> ((io_error + 'a) \<times> 'h \<times> vfs) outcome option"

definition reader_in :: "'w \<Rightarrow> 'v blob_reader \<Rightarrow> 'w blob_reader" where
  "reader_in w r = \<lparr>br_blob = br_blob r, br_fetch = br_fetch r, br_pos = br_pos r,
     br_error_count = br_error_count r, br_world = w\<rparr>"

definition mode_in :: "'w \<Rightarrow> 'v read_write \<Rightarrow> 'w read_write" where
  "mode_in w rw = \<lparr>rw_blob = rw_blob rw, rw_fetch = rw_fetch rw, rw_pipeline = rw_pipeline rw,
     rw_max_chunk_size = rw_max_chunk_size rw, rw_closed = rw_closed rw, rw_world = w\<rparr>"

definition writer_in :: "'w \<Rightarrow> 'v blob_writer \<Rightarrow> 'w blob_writer" where
  "writer_in w bw = \<lparr>bw_mode = mode_in w (bw_mode bw), bw_pos = bw_pos bw, bw_error_count = bw_error_count bw\<rparr>"

text \<open>Awaiting an operation of the reader or of the writer inside a handle.\<close>

definition on_reader ::
  "pace \<Rightarrow> (vfs_world blob_reader \<Rightarrow> ((io_error + 'a) \<times> vfs_world blob_reader) outcome option) \<Rightarrow> (vfs blob_reader, 'a) handle_run" where
  "on_reader P m r v =
     (case m (reader_in (v, pc_pending P) r) of
        None \<Rightarrow> None
      | Some Panics \<Rightarrow> Some Panics
      | Some (Returns (x, r')) \<Rightarrow> (let v' = fst (br_world r') in Some (Returns (x, reader_in v' r', v'))))"

definition on_writer ::
  "pace \<Rightarrow> (vfs_world blob_writer \<Rightarrow> ((io_error + 'a) \<times> vfs_world blob_writer) outcome option) \<Rightarrow> (file_handle, 'a) handle_run" where
  "on_writer P m h v =
     (case m (writer_in (v, pc_pending P) (fhd_writer h)) of
        None \<Rightarrow> None
      | Some Panics \<Rightarrow> Some Panics
      | Some (Returns (x, bw)) \<Rightarrow>
          (let v' = fst (rw_world (bw_mode bw)) in Some (Returns (x, h\<lparr>fhd_writer := writer_in v' bw\<rparr>, v'))))"

abbreviation handle_backend :: "env \<Rightarrow> pace \<Rightarrow> nat \<Rightarrow> vfs_world backend" where
  "handle_backend E P fh \<equiv> tracker_backend E (pc_now P) (pc_later P) fh"

section \<open>Reading, seeking and writing\<close>

text \<open>\<open>take(limit)\<close> with \<open>read_to_end\<close>: polls with buffers of at most \<open>n\<close> bytes, until nothing comes.\<close>

fun take_to_end :: "nat \<Rightarrow> (nat \<Rightarrow> ('s, bytes) pollm) \<Rightarrow> nat \<Rightarrow> nat \<Rightarrow> bytes \<Rightarrow> 's \<Rightarrow> ((io_error + bytes) \<times> 's) outcome option" where
  "take_to_end 0 poll n limit acc s = (if limit = 0 then Some (Returns (Inr acc, s)) else None)"
| "take_to_end (Suc polls) poll n limit acc s =
     (if limit = 0 then Some (Returns (Inr acc, s))
      else case poll (min n limit) s of
             Panics \<Rightarrow> Some Panics
           | Returns (Pending, s') \<Rightarrow> take_to_end polls poll n limit acc s'
           | Returns (Ready (Inl e), s') \<Rightarrow> Some (Returns (Inl e, s'))
           | Returns (Ready (Inr bs), s') \<Rightarrow>
               if bs = [] then Some (Returns (Inr acc, s'))
               else take_to_end polls poll n (limit - length bs) (acc @ bs) s')"

definition ro_seek :: "pace \<Rightarrow> seek_from \<Rightarrow> (vfs blob_reader, u64) handle_run" where
  "ro_seek P pos = on_reader P (drive (pc_polls P) (reader_poll_seek pos))"

definition ro_read :: "env \<Rightarrow> pace \<Rightarrow> nat \<Rightarrow> nat \<Rightarrow> (vfs blob_reader, bytes) handle_run" where
  "ro_read E P n limit = on_reader P (take_to_end (pc_polls P) (reader_poll_read (handle_backend E P 0)) n limit [])"

definition rw_seek :: "pace \<Rightarrow> seek_from \<Rightarrow> (file_handle, u64) handle_run" where
  "rw_seek P pos = on_writer P (drive (pc_polls P) (writer_poll_seek pos))"

definition rw_read :: "env \<Rightarrow> pace \<Rightarrow> nat \<Rightarrow> nat \<Rightarrow> (file_handle, bytes) handle_run" where
  "rw_read E P n limit h =
     on_writer P (take_to_end (pc_polls P) (writer_poll_read (handle_backend E P (fhd_id h))) n limit []) h"

text \<open>\<open>write_all\<close>: what a poll accepted is dropped from the data, until nothing is left.\<close>

fun write_all :: "nat \<Rightarrow> hasher \<Rightarrow> 'w backend \<Rightarrow> bytes \<Rightarrow> 'w blob_writer \<Rightarrow> ((io_error + unit) \<times> 'w blob_writer) outcome option" where
  "write_all 0 H B data bw = (if data = [] then Some (Returns (Inr (), bw)) else None)"
| "write_all (Suc polls) H B data bw =
     (if data = [] then Some (Returns (Inr (), bw))
      else case writer_poll_write H B data bw of
             Panics \<Rightarrow> Some Panics
           | Returns (Pending, bw') \<Rightarrow> write_all polls H B data bw'
           | Returns (Ready (Inl e), bw') \<Rightarrow> Some (Returns (Inl e, bw'))
           | Returns (Ready (Inr n), bw') \<Rightarrow>
               if n = 0 then Some (Returns (Inl (IoError KWriteZero ''write zero''), bw'))
               else write_all polls H B (drop n data) bw')"

definition rw_write_all :: "env \<Rightarrow> pace \<Rightarrow> bytes \<Rightarrow> (file_handle, unit) handle_run" where
  "rw_write_all E P data h =
     on_writer P (write_all (pc_polls P) (ev_hasher E) (handle_backend E P (fhd_id h)) data) h"

definition rw_flush :: "env \<Rightarrow> pace \<Rightarrow> (file_handle, unit) handle_run" where
  "rw_flush E P h =
     on_writer P (drive (pc_polls P) (writer_poll_flush (ev_hasher E) (handle_backend E P (fhd_id h)))) h"

definition rw_close :: "env \<Rightarrow> pace \<Rightarrow> (file_handle, unit) handle_run" where
  "rw_close E P h =
     on_writer P (drive (pc_polls P) (writer_poll_close (ev_hasher E) (handle_backend E P (fhd_id h)))) h"

definition rw_set_len :: "env \<Rightarrow> pace \<Rightarrow> u64 \<Rightarrow> (file_handle, unit) handle_run" where
  "rw_set_len E P n h =
     on_writer P (bw_set_len (pc_polls P) (ev_hasher E) (handle_backend E P (fhd_id h)) n) h"

definition fhd_len :: "file_handle \<Rightarrow> u64" where
  "fhd_len h = bw_len (fhd_writer h)"

section \<open>Storing what was written\<close>

text \<open>\<open>fsync\<close>: flush, a blob of the content so far, and a transaction that makes it the file's.\<close>

definition file_fsync :: "env \<Rightarrow> pace \<Rightarrow> timestamp \<Rightarrow> file_handle \<Rightarrow> vfs \<Rightarrow> ((vfs_error + typed_inode) \<times> file_handle \<times> vfs) outcome option" where
  "file_fsync E P modified h v =
     (case rw_flush E P h v of
        None \<Rightarrow> None
      | Some Panics \<Rightarrow> Some Panics
      | Some (Returns (Inl e, h1, v1)) \<Rightarrow> Some (Returns (Inl (VfsIoError e), h1, v1))
      | Some (Returns (Inr _, h1, v1)) \<Rightarrow>
          (case on_writer P (bw_fsync (pc_polls P) (ev_hasher E) (handle_backend E P (fhd_id h))) h1 v1 of
             None \<Rightarrow> None
           | Some Panics \<Rightarrow> Some Panics
           | Some (Returns (Inl e, h2, v2)) \<Rightarrow> Some (Returns (Inl (VfsIoError e), h2, v2))
           | Some (Returns (Inr b, h2, v2)) \<Rightarrow>
               (case handle_fsync E modified (pc_now P) (pc_later P) h2 b v2 of
                  None \<Rightarrow> None
                | Some (Inl e, v3) \<Rightarrow> Some (Returns (Inl e, h2, v3))
                | Some (Inr (f, h3), v3) \<Rightarrow> Some (Returns (Inr f, h3, v3)))))"

text \<open>\<open>commit\<close> closes the writer and ends the handle, which it consumes.\<close>

definition file_commit :: "env \<Rightarrow> pace \<Rightarrow> timestamp \<Rightarrow> file_handle \<Rightarrow> vfs \<Rightarrow> ((vfs_error + typed_inode) \<times> file_handle \<times> vfs) outcome option" where
  "file_commit E P modified h v =
     (case on_writer P (bw_finalize (pc_polls P) (ev_hasher E) (handle_backend E P (fhd_id h))) h v of
        None \<Rightarrow> None
      | Some Panics \<Rightarrow> Some Panics
      | Some (Returns (Inl e, h1, v1)) \<Rightarrow> Some (Returns (Inl (VfsIoError e), h1, v1))
      | Some (Returns (Inr b, h1, v1)) \<Rightarrow>
          (case handle_commit E modified (pc_now P) (pc_later P) h1 b v1 of
             None \<Rightarrow> None
           | Some (Inl e, v2) \<Rightarrow> Some (Returns (Inl e, h1, v2))
           | Some (Inr (f, h2), v2) \<Rightarrow> Some (Returns (Inr f, h2, v2))))"

end
