(* ===== verification/Dirty.thy ===== *)
theory Dirty
  imports EntitySort
begin

text \<open>
  The loop at the start of a commit, \<open>process_dirty_inodes\<close> in \<open>janus-vfs/src/vfs/directory.rs\<close>:
  it ends when the inodes are a tree, and a commit that succeeds leaves no directory behind
  whose entity does not list its entries.
\<close>

section \<open>What is left of the tree\<close>

text \<open>The part of a row the loop is about: its parent and whether it is dirty.\<close>

definition flags :: "vfs_table \<Rightarrow> (inode_id \<times> inode_id option \<times> bool) list" where
  "flags t = map (\<lambda>(i, r). (i, vf_parent r, vf_dirty r)) t"

definition weight :: "(inode_id \<Rightarrow> nat) \<Rightarrow> vfs_table \<Rightarrow> nat" where
  "weight rk t = (\<Sum>(i, p, b) \<leftarrow> flags t. if b then 2 ^ rk i else 0)"

definition dirt :: "vfs_table \<Rightarrow> inode_id set" where
  "dirt t = {i. \<exists>p. map_of (flags t) i = Some (p, True)}"

definition shape :: "vfs_table \<Rightarrow> (inode_id \<times> inode_id option) list" where
  "shape t = map (\<lambda>(i, p, b). (i, p)) (flags t)"

definition tree_ok :: "(inode_id \<Rightarrow> nat) \<Rightarrow> vfs_table \<Rightarrow> bool" where
  "tree_ok rk t = (distinct (map fst (shape t))
     \<and> (\<forall>(i, p) \<in> set (shape t). inode_id_new i = i \<and> (\<forall>q. p = Some q \<longrightarrow> rk q < rk i)))"

lemma flags_simps [simp]: "flags [] = []" "flags ((i, r) # t) = (i, vf_parent r, vf_dirty r) # flags t"
  by (simp_all add: flags_def)

lemma weight_simps [simp]: "weight rk [] = 0" "weight rk ((i, r) # t) = (if vf_dirty r then 2 ^ rk i else 0) + weight rk t"
  by (simp_all add: weight_def)

lemma shape_simps [simp]: "shape [] = []" "shape ((i, r) # t) = (i, vf_parent r) # shape t" "map fst (shape t) = map fst t"
  by (simp_all add: shape_def) (force simp: flags_def)

lemma shape_entry: "(\<And>r. vf_parent (f r) = vf_parent r) \<Longrightarrow> shape (AList.map_entry i f t) = shape t"
  by (induction t) auto

lemma map_of_flags: "map_of (flags t) i = map_option (\<lambda>r. (vf_parent r, vf_dirty r)) (map_of t i)"
  by (induction t) auto

lemma dirt_iff: "i \<in> dirt t \<longleftrightarrow> (\<exists>r. map_of t i = Some r \<and> vf_dirty r)"
  by (auto simp: dirt_def map_of_flags)

lemma flags_same:
  assumes "flags t' = flags t"
  shows "weight rk t' = weight rk t" and "dirt t' = dirt t" and "tree_ok rk t' = tree_ok rk t"
  using assms by (simp_all only: weight_def dirt_def tree_ok_def shape_def)

text \<open>Changing a row, as far as the tree is concerned.\<close>

lemma entry_absent: "i \<notin> fst ` set t \<Longrightarrow> AList.map_entry i f t = t"
  by (induction t) auto

lemma weight_entry:
  assumes "distinct (map fst t)" and "map_of t i = Some r"
  shows "weight rk (AList.map_entry i f t) + (if vf_dirty r then 2 ^ rk i else 0)
    = weight rk t + (if vf_dirty (f r) then 2 ^ rk i else 0)"
  using assms
proof (induction t)
  case (Cons x t)
  obtain j q where x: "x = (j, q)" by (cases x)
  show ?case
  proof (cases "j = i")
    case True
    with Cons.prems x have "AList.map_entry i f t = t" by (auto simp: entry_absent)
    with Cons.prems x True show ?thesis by auto
  qed (use Cons x in auto)
qed simp

lemma tree_ok_entry:
  assumes "\<And>r. vf_parent (f r) = vf_parent r"
  shows "tree_ok rk (AList.map_entry i f t) = tree_ok rk t"
  using shape_entry [of f i t] assms by (simp add: tree_ok_def)

lemma tree_okD:
  assumes "tree_ok rk t"
  shows "distinct (map fst t)" and "map_of t i = Some r \<Longrightarrow> inode_id_new i = i"
    and "map_of t i = Some r \<Longrightarrow> vf_parent r = Some p \<Longrightarrow> rk p < rk i"
proof -
  have "(i, vf_parent r) \<in> set (shape t)" if "map_of t i = Some r"
    using map_of_SomeD [OF that] by (force simp: shape_def flags_def)
  with assms show "map_of t i = Some r \<Longrightarrow> inode_id_new i = i"
    "map_of t i = Some r \<Longrightarrow> vf_parent r = Some p \<Longrightarrow> rk p < rk i"
    unfolding tree_ok_def by blast+
  from assms show "distinct (map fst t)" by (simp add: tree_ok_def)
qed

section \<open>The triggers\<close>

text \<open>Marking the ancestors of a row costs less than the row itself.\<close>

lemma mark_dirty_tree:
  assumes "tree_ok rk t"
  shows "tree_ok rk (mark_dirty io t) \<and> dirt t \<subseteq> dirt (mark_dirty io t)
    \<and> weight rk (mark_dirty io t) < weight rk t + (case io of None \<Rightarrow> 1 | Some i \<Rightarrow> 2 ^ Suc (rk i))"
  using assms
proof (induction io t rule: mark_dirty.induct)
  case (2 i t)
  show ?case
  proof (cases "map_of t i = None \<or> (\<exists>r. map_of t i = Some r \<and> vf_dirty r)")
    case True
    with 2(2) show ?thesis by (auto simp: mark_dirty.simps(2))
  next
    case False
    then obtain r where r: "map_of t i = Some r" "\<not> vf_dirty r" by auto
    let ?t = "AList.map_entry i (\<lambda>r. r\<lparr>vf_dirty := True\<rparr>) t" and ?p = "if vf_parent r = Some i then None else vf_parent r"
    have ok: "tree_ok rk ?t" using 2(2) by (simp add: tree_ok_entry)
    from weight_entry [OF tree_okD(1) [OF 2(2)] r(1), of rk "\<lambda>r. r\<lparr>vf_dirty := True\<rparr>"] r(2)
    have w: "weight rk ?t = weight rk t + 2 ^ rk i" by simp
    have "dirt t \<subseteq> dirt ?t" by (auto simp: dirt_iff map_of_map_entry)
    moreover have "(case ?p of None \<Rightarrow> 1 | Some q \<Rightarrow> 2 ^ Suc (rk q)) \<le> (2 :: nat) ^ rk i"
      using tree_okD(3) [OF 2(2) r(1)] by (auto split: option.split intro!: power_increasing simp flip: power_Suc)
    ultimately show ?thesis
      using 2(1) [OF r(1) r(2) ok] w r by (auto simp: mark_dirty.simps(2) [of i t])
  qed
qed simp

lemma refresh_flags: "refresh_paths n is t = Inr (t', ch) \<Longrightarrow> flags t' = flags t"
proof (induction n "is" t arbitrary: t' ch rule: refresh_paths.induct)
  case (3 n i "is" t)
  have "flags (AList.map_entry i (\<lambda>r. r\<lparr>vf_path := s\<rparr>) t) = flags t" for s
    by (induction t) auto
  with 3 show ?case by (fastforce split: option.splits if_splits sum.splits prod.splits)
qed auto

section \<open>What the statements leave alone\<close>

definition keeps_tree :: "'a tx \<Rightarrow> bool" where
  "keeps_tree m = (\<forall>d a d'. m d = Inr (a, d') \<longrightarrow> t_vfs d' = t_vfs d)"

named_theorems tree_intros

lemma keeps_treeD: "keeps_tree m \<Longrightarrow> m d = Inr (a, d') \<Longrightarrow> t_vfs d' = t_vfs d"
  by (simp add: keeps_tree_def)

lemma keeps_tree_simps [tree_intros]:
  "keeps_tree (tx_return a)" "keeps_tree (tx_fail e)" "keeps_tree (tx_get f)" "keeps_tree (tx_some e v)"
  "keeps_tree (tx_outcome r)" "keeps_tree (tx_io x)"
  by (auto simp: keeps_tree_def tx_some_def tx_outcome_def tx_io_def split: option.splits outcome.splits sum.splits)

lemma keeps_tree_bind [tree_intros]:
  "keeps_tree m \<Longrightarrow> (\<And>a. keeps_tree (f a)) \<Longrightarrow> keeps_tree (tx_bind m f)"
  by (fastforce simp: keeps_tree_def tx_bind_Inr)

lemma keeps_tree_if [tree_intros]: "keeps_tree m \<Longrightarrow> keeps_tree n \<Longrightarrow> keeps_tree (if b then m else n)"
  by simp

lemma keeps_tree_for [tree_intros]: "(\<And>x. keeps_tree (f x)) \<Longrightarrow> keeps_tree (tx_for xs f)"
  by (induction xs) (auto intro: tree_intros)

lemma set_count_tree [simp]: "t_vfs (set_count n c d) = t_vfs d"
  by (cases n) simp_all

lemma delete_node_tree [simp]: "t_vfs (snd (delete_node n d)) = t_vfs d"
  by (cases n) (simp_all split: option.split)

lemma retain_tree [simp]: "t_vfs (retain ns d) = t_vfs d"
  by (induction ns d rule: retain.induct) (simp_all split: option.split)

lemma release_tree: "release ns d = Inr d' \<Longrightarrow> t_vfs d' = t_vfs d"
proof (induction ns d rule: release.induct)
  case (2 n ns d)
  then show ?case
    by (simp add: release.simps(2) [of n ns d] Let_def split: option.splits if_splits)
qed simp

lemma exec_stmt_tree: "exec_stmt news olds d = Inr d' \<Longrightarrow> t_vfs d' = t_vfs d"
  by (auto simp: exec_stmt_def dest: release_tree split: if_splits)

lemma register_entity_tree [tree_intros]: "keeps_tree (register_entity T e)"
proof -
  have new: "keeps_tree (entity_set_synced k oid)" "keeps_tree (insert_entity_row k n T m)" "keeps_tree (insert_entity_ref k r)" for k oid n m r
    by (auto simp: keeps_tree_def entity_set_synced_def insert_entity_row_def insert_entity_ref_def dest!: exec_stmt_tree
        split: sum.splits if_splits)
  then show ?thesis
    unfolding register_entity_def Let_def by (auto intro!: tree_intros new split: option.split storage_mode.split)
qed

lemma update_directory_tree: "keeps_tree (update_directory E m)"
  unfolding update_directory_def by (intro tree_intros)

lemma inode_by_id_tree: "keeps_tree (inode_by_id E i)"
  unfolding inode_by_id_def entity_by_key_def object_by_id_def Let_def
  by (auto intro!: tree_intros split: option.split sum.split storage_mode.split)

section \<open>One directory\<close>

text \<open>An update of a dirty row makes it clean, and the tree lighter, whatever its parents become.\<close>

lemma set_inode_tree:
  assumes ok: "tree_ok rk (t_vfs d)" and i: "i \<in> dirt (t_vfs d)" and run: "set_inode i n k d = Inr (a, d')"
  shows "tree_ok rk (t_vfs d') \<and> dirt (t_vfs d) - {i} \<subseteq> dirt (t_vfs d') \<and> weight rk (t_vfs d') < weight rk (t_vfs d)"
proof -
  from i obtain r where r: "map_of (t_vfs d) i = Some r" "vf_dirty r" by (auto simp: dirt_iff)
  let ?f = "\<lambda>r. r\<lparr>vf_name := n, vf_key := k, vf_dirty := False\<rparr>"
  let ?t1 = "AList.map_entry i ?f (t_vfs d)"
  from r run obtain t2 t3 ch l where
    t2: "t2 = ?t1 \<or> t2 = mark_dirty (vf_parent r) ?t1"
    and t3: "(t3, ch) = (t2, []) \<or> refresh_paths TRIGGER_DEPTH [i] t2 = Inr (t3, ch)"
    and ex: "exec_stmt (if k \<noteq> vf_key r then [NEntity k] else []) (if k \<noteq> vf_key r then [NEntity (vf_key r)] else [])
        (d\<lparr>t_vfs := t3, t_change_log := l\<rparr>) = Inr d'"
    unfolding set_inode_def Let_def by (force split: if_splits sum.splits prod.splits)
  have t': "t_vfs d' = t3" using exec_stmt_tree [OF ex] by simp
  have "flags t3 = flags t2" using t3 by (auto dest: refresh_flags)
  note same = flags_same [OF this]
  have ok1: "tree_ok rk ?t1" using ok by (simp add: tree_ok_entry)
  have w: "weight rk ?t1 + 2 ^ rk i = weight rk (t_vfs d)"
    using weight_entry [OF tree_okD(1) [OF ok] r(1), of rk ?f] r(2) by simp
  have sub: "dirt (t_vfs d) - {i} \<subseteq> dirt ?t1"
  proof
    fix j assume "j \<in> dirt (t_vfs d) - {i}"
    then show "j \<in> dirt ?t1" by (simp add: dirt_iff map_of_map_entry)
  qed
  have c: "(case vf_parent r of None \<Rightarrow> 1 | Some p \<Rightarrow> 2 ^ Suc (rk p)) \<le> (2 :: nat) ^ rk i"
    using tree_okD(3) [OF ok r(1)] by (auto split: option.split intro!: power_increasing simp flip: power_Suc)
  have "0 < (2 :: nat) ^ rk i" by simp
  have "tree_ok rk t2 \<and> dirt (t_vfs d) - {i} \<subseteq> dirt t2 \<and> weight rk t2 < weight rk (t_vfs d)"
    using t2
  proof (elim disjE)
    assume "t2 = ?t1"
    moreover have "weight rk ?t1 < weight rk (t_vfs d)" using w \<open>0 < 2 ^ rk i\<close> by linarith
    ultimately show ?thesis using ok1 sub by blast
  next
    assume t2: "t2 = mark_dirty (vf_parent r) ?t1"
    note md = mark_dirty_tree [OF ok1, of "vf_parent r", folded t2]
    with c w have "weight rk t2 < weight rk (t_vfs d)" by linarith
    with md sub show ?thesis by blast
  qed
  then show ?thesis unfolding t' same .
qed

lemma process_dirty_tree:
  assumes "tree_ok rk (t_vfs d)" and "i \<in> dirt (t_vfs d)" and "process_dirty_inode E i d = Inr (a, d')"
  shows "tree_ok rk (t_vfs d') \<and> dirt (t_vfs d) - {i} \<subseteq> dirt (t_vfs d') \<and> weight rk (t_vfs d') < weight rk (t_vfs d)"
proof -
  from assms(3) obtain found d1 where found: "inode_by_id E i d = Inr (found, d1)"
    and rest: "tx_bind (tx_some (DataError (InodeNotFound i)) found) (\<lambda>n. case n of
        InodeDirectory dir \<Rightarrow> tx_bind (update_directory E (inode_into_mut dir)) (\<lambda>key.
          update_inode i (re_name (ent_inner (ti_entity dir))) key)
      | InodeFile _ \<Rightarrow> tx_fail (DataError (DirtyFile i))) d1 = Inr (a, d')"
    unfolding process_dirty_inode_def tx_bind_Inr by blast
  from rest obtain dir where "found = Some (InodeDirectory dir)"
    by (auto simp: tx_bind_Inr tx_some_def split: option.splits inode.splits)
  with rest obtain ki kr d2 n where "update_directory E (inode_into_mut dir) d1 = Inr ((ki, kr), d2)"
    and up: "set_inode i (re_name (ent_inner (ti_entity dir))) (ki, kr) d2 = Inr (n, d')"
    by (auto simp: update_inode_def affected_one_def tx_bind_Inr tx_some_def split: if_splits)
  with found have "t_vfs d2 = t_vfs d"
    using keeps_treeD [OF inode_by_id_tree] keeps_treeD [OF update_directory_tree] by metis
  with set_inode_tree [OF _ _ up] assms(1,2) show ?thesis by simp
qed

lemma process_all_tree:
  assumes "tree_ok rk (t_vfs d)" and "set is \<subseteq> dirt (t_vfs d)" and "distinct is" and "tx_for is (process_dirty_inode E) d = Inr (a, d')"
  shows "tree_ok rk (t_vfs d') \<and> weight rk (t_vfs d') + length is \<le> weight rk (t_vfs d)"
  using assms
proof (induction "is" arbitrary: d)
  case (Cons i "is")
  from Cons.prems(4) obtain u d1 where one: "process_dirty_inode E i d = Inr (u, d1)"
    and rest: "tx_for is (process_dirty_inode E) d1 = Inr (a, d')" by (auto simp: tx_bind_Inr)
  from process_dirty_tree [OF Cons.prems(1) _ one] Cons.prems(2) have
    s: "tree_ok rk (t_vfs d1)" "dirt (t_vfs d) - {i} \<subseteq> dirt (t_vfs d1)" "weight rk (t_vfs d1) < weight rk (t_vfs d)" by auto
  with Cons.prems(2,3) have "set is \<subseteq> dirt (t_vfs d1)" by auto
  from Cons.IH [OF s(1) this _ rest] Cons.prems(3) s(3) show ?case by simp
qed simp

section \<open>The loop\<close>

lemma leaves_dirty:
  assumes "tree_ok rk (t_vfs d)"
  shows "set (dirty_leaves d) \<subseteq> dirt (t_vfs d) \<and> distinct (dirty_leaves d)"
proof -
  let ?P = "\<lambda>(i, r). vf_dirty r \<and> \<not> list_ex (\<lambda>(_, c). vf_parent c = Some i \<and> vf_dirty c) (t_vfs d)"
  have dist: "distinct (map fst (t_vfs d))" by (rule tree_okD [OF assms])
  have row: "map_of (t_vfs d) i = Some r" "inode_id_new i = i" if "(i, r) \<in> set (t_vfs d)" for i r
    using that tree_okD(2) [OF assms, of i r] dist by auto
  have "dirty_leaves d = map fst (filter ?P (t_vfs d))"
    unfolding dirty_leaves_def by (intro map_cong) (auto simp: row)
  moreover have "fst ` set (filter ?P (t_vfs d)) \<subseteq> dirt (t_vfs d)"
    using row(1) by (auto simp: dirt_iff)
  ultimately show ?thesis using dist by (simp add: distinct_map_filter)
qed

text \<open>A dirty row as far from the root as any has no dirty child.\<close>

lemma no_leaves_clean:
  assumes ok: "tree_ok rk (t_vfs d)" and none: "dirty_leaves d = []"
  shows "dirt (t_vfs d) = {}"
proof (rule ccontr)
  assume "dirt (t_vfs d) \<noteq> {}"
  moreover have "finite (dirt (t_vfs d))"
    by (rule finite_subset [of _ "dom (map_of (t_vfs d))"]) (auto simp: dirt_iff finite_dom_map_of)
  ultimately obtain i where i: "i \<in> dirt (t_vfs d)" and top: "\<And>j. j \<in> dirt (t_vfs d) \<Longrightarrow> rk j \<le> rk i"
    using Max_in [of "rk ` dirt (t_vfs d)"] Max_ge [of "rk ` dirt (t_vfs d)"] by (metis (no_types) finite_imageI image_iff imageI image_is_empty)
  then obtain r where r: "(i, r) \<in> set (t_vfs d)" "vf_dirty r" by (auto simp: dirt_iff dest: map_of_SomeD)
  from none r obtain j c where c: "(j, c) \<in> set (t_vfs d)" "vf_parent c = Some i" "vf_dirty c"
    by (fastforce simp: dirty_leaves_def filter_empty_conv list_ex_iff)
  then have "map_of (t_vfs d) j = Some c" using tree_okD(1) [OF ok] by simp
  with tree_okD(3) [OF ok this c(2)] top [of j] c(3) show False by (auto simp: dirt_iff)
qed

lemma process_dirty_inodes_ends:
  assumes "tree_ok rk (t_vfs d)"
  shows "\<exists>res. process_dirty_inodes E d = Some res \<and> (\<forall>u d'. res = Inr (u, d') \<longrightarrow> dirt (t_vfs d') = {})"
  using assms
proof (induction d rule: measure_induct_rule [of "\<lambda>d. weight rk (t_vfs d)"])
  case (less d)
  show ?case
  proof (cases "dirty_leaves d")
    case Nil
    then show ?thesis using no_leaves_clean [OF less.prems] by (simp add: process_dirty_inodes.simps)
  next
    case (Cons i "is")
    show ?thesis
    proof (cases "tx_for (i # is) (process_dirty_inode E) d")
      case (Inl e)
      with Cons show ?thesis by (simp add: process_dirty_inodes.simps [of E d] del: tx_for.simps)
    next
      case (Inr p)
      obtain u d1 where p: "p = (u, d1)" by (cases p)
      from process_all_tree [OF less.prems _ _ Inr [unfolded p]] leaves_dirty [OF less.prems] Cons
      have "tree_ok rk (t_vfs d1)" "weight rk (t_vfs d1) < weight rk (t_vfs d)" by auto
      from less.IH [OF this(2,1)] Cons Inr p show ?thesis by (simp add: process_dirty_inodes.simps [of E d] del: tx_for.simps)
    qed
  qed
qed

text \<open>
  C7: when every inode has a rank above that of its parent, that is when they form a tree, the
  loop over the dirty directories ends. If it ends without an error, no inode is dirty any
  more, however many ancestors the updates on the way have marked.
\<close>

theorem process_dirty_inodes_total:
  assumes "distinct (map fst (t_vfs d))"
    and "\<And>i r. (i, r) \<in> set (t_vfs d) \<Longrightarrow> 0 \<le> sint i"
    and "\<And>i r p. (i, r) \<in> set (t_vfs d) \<Longrightarrow> vf_parent r = Some p \<Longrightarrow> rk p < (rk i :: nat)"
  shows "\<exists>res. process_dirty_inodes E d = Some res
    \<and> (\<forall>d' i r. res = Inr ((), d') \<longrightarrow> map_of (t_vfs d') i = Some r \<longrightarrow> \<not> vf_dirty r)"
proof -
  have "inode_id_new i = i" if "0 \<le> sint i" for i
  proof -
    have m: "(0x7FFFFFFFFFFFFFFF :: u64) = mask 63" by (simp add: mask_eq_exp_minus_1)
    from that have "\<not> bit i 63" by (simp add: not_less [symmetric] bit_last_iff [symmetric])
    then have "n < 63" if "bit i n" for n
      using that bit_imp_le_length [OF that] by (cases "n = 63") auto
    then show ?thesis unfolding inode_id_new_def m by (intro bit_eqI) (auto simp: bit_and_iff bit_mask_iff)
  qed
  moreover have "set (shape (t_vfs d)) = (\<lambda>(i, r). (i, vf_parent r)) ` set (t_vfs d)"
    by (force simp: shape_def flags_def)
  ultimately have "tree_ok rk (t_vfs d)"
    using assms unfolding tree_ok_def by (simp add: split_def) fastforce
  from process_dirty_inodes_ends [OF this, of E] show ?thesis by (fastforce simp: dirt_iff)
qed

text \<open>A root and a directory in it, both dirty.\<close>

definition dirty_db :: db where
  "dirty_db = empty_db\<lparr>t_vfs :=
     [(1, \<lparr>vf_type = Dir, vf_key = ([1], []), vf_name = [], vf_parent = None, vf_path = Some [47], vf_dirty = True\<rparr>),
      (2000, \<lparr>vf_type = Dir, vf_key = ([2], []), vf_name = [100], vf_parent = Some 1, vf_path = Some [47, 100], vf_dirty = True\<rparr>)]\<rparr>"

theorem process_dirty_inodes_total_witness:
  "dirty_leaves dirty_db = [2000] \<and> (\<exists>res. process_dirty_inodes tree_env dirty_db = Some res
    \<and> (\<forall>d' i r. res = Inr ((), d') \<longrightarrow> map_of (t_vfs d') i = Some r \<longrightarrow> \<not> vf_dirty r))"
proof (intro conjI process_dirty_inodes_total [where rk = "\<lambda>i. if i = 1 then 0 else 1"])
  show "dirty_leaves dirty_db = [2000]" by code_simp
  show "distinct (map fst (t_vfs dirty_db))" by (simp add: dirty_db_def)
  show "0 \<le> sint i" if "(i, r) \<in> set (t_vfs dirty_db)" for i r
    using that by (auto simp: dirty_db_def)
  show "(if p = 1 then 0 else 1) < (if i = 1 then 0 else 1 :: nat)"
    if "(i, r) \<in> set (t_vfs dirty_db)" "vf_parent r = Some p" for i r p
    using that by (auto simp: dirty_db_def)
qed

end
