(* ===== verification/Writing.thy ===== *)
theory Writing
  imports Handles
begin

text \<open>
  What writing to an open file does: the loop of \<open>write_all\<close> over the writer of a blob
  (\<open>janus-vfs/src/blob/io.rs\<close>) changes exactly the bytes written, never panics, and ends when the
  futures of the store do.
\<close>

section \<open>Writing everything\<close>

lemma overlay_none [simp]: "overlay p [] f = f"
  by (auto simp: overlay_def fun_eq_iff)

lemma overlay_append:
  assumes "unat p + length a + length b < 2 ^ 64"
  shows "overlay (p + of_nat (length a)) b (overlay p a f) = overlay p (a @ b) f"
proof -
  have "unat (p + of_nat (length a)) = unat p + length a" using assms by (intro unat_add_nat) simp
  then show ?thesis by (auto simp: overlay_def fun_eq_iff nth_append)
qed

text \<open>The state of a writer after it took the first \<open>k\<close> bytes of the data.\<close>

definition wrote ::
  "('w \<Rightarrow> bool) \<Rightarrow> ('w \<Rightarrow> content_id \<Rightarrow> bytes option) \<Rightarrow> hasher \<Rightarrow> bytes \<Rightarrow> nat \<Rightarrow> 'w blob_writer \<Rightarrow> 'w blob_writer \<Rightarrow> bool" where
  "wrote winv stored H data k bw bw' \<longleftrightarrow>
     k \<le> length data \<and> writer_inv winv stored H (bw_mode bw')
     \<and> writer_byte stored (bw_mode bw') = overlay (bw_pos bw) (take k data) (writer_byte stored (bw_mode bw))
     \<and> writer_len (bw_mode bw') = (if k = 0 then writer_len (bw_mode bw) else max (writer_len (bw_mode bw)) (unat (bw_pos bw) + k))
     \<and> bw_pos bw' = bw_pos bw + of_nat k
     \<and> rw_max_chunk_size (bw_mode bw') = rw_max_chunk_size (bw_mode bw) \<and> rw_closed (bw_mode bw') = rw_closed (bw_mode bw)"

lemma wrote_nothing: "writer_inv winv stored H (bw_mode bw) \<Longrightarrow> wrote winv stored H data 0 bw bw"
  by (simp add: wrote_def)

lemma wrote_more:
  assumes a: "wrote winv stored H data n bw bw1" and b: "wrote winv stored H (drop n data) k bw1 bw2"
    and room: "unat (bw_pos bw) + length data < 2 ^ 64"
  shows "wrote winv stored H data (n + k) bw bw2"
proof -
  from a b have n: "n \<le> length data" "n + k \<le> length data" by (auto simp: wrote_def)
  have t: "take (n + k) data = take n data @ take k (drop n data)" by (simp add: take_add)
  have pos: "bw_pos bw1 = bw_pos bw + of_nat (length (take n data))" using a n(1) by (simp add: wrote_def min_absorb2)
  have u: "unat (bw_pos bw + of_nat n) = unat (bw_pos bw) + n" using n(1) room by (intro unat_add_nat) simp
  have "overlay (bw_pos bw1) (take k (drop n data)) (overlay (bw_pos bw) (take n data) f) = overlay (bw_pos bw) (take (n + k) data) f" for f
    unfolding pos t using n room by (intro overlay_append) simp
  with a b n u show ?thesis
    by (auto simp: wrote_def)
qed

context chunk_store
begin

lemma writer_poll_wrote:
  assumes cf: "inj (chunk_hash H)" and inv: "writer_inv winv stored H (bw_mode bw)" and data: "data \<noteq> []"
    and room: "unat (bw_pos bw) + 2 * unat (rw_max_chunk_size (bw_mode bw)) < 2 ^ 64"
    and run: "writer_poll_write H B data bw = Returns (r, bw')"
  shows "case r of Ready (Inr n) \<Rightarrow> 0 < n \<and> wrote winv stored H data n bw bw' | _ \<Rightarrow> wrote winv stored H data 0 bw bw'"
proof -
  let ?m = "poll_write_impl H B (bw_pos bw) data (bw_mode bw)"
  obtain q rw' where m: "?m = Returns (q, rw')"
    using run by (auto simp: writer_poll_write_def pbind_def on_mode_def split: outcome.splits prod.splits)
  note post = poll_write_correct [OF cf inv data room m]
  from post have keep: "wrote winv stored H data 0 bw (bw\<lparr>bw_mode := rw', bw_error_count := e\<rparr>)"
    "wrote winv stored H data 0 bw (bw\<lparr>bw_mode := rw'\<rparr>)" if "\<And>n. q \<noteq> Ready (Inr n)" for e
    using that by (auto simp: wrote_def keeps_content_def split: poll.splits sum.splits)
  from post have done_n: "0 < n \<and> wrote winv stored H data n bw (bw\<lparr>bw_mode := rw', bw_pos := bw_pos bw + of_nat n\<rparr>)"
    if "q = Ready (Inr n)" for n
  proof -
    from post that have W: "write_post winv stored H (bw_mode bw) (bw_pos bw) data n rw'" by simp
    then have n: "n = min (length data) (unat (rw_max_chunk_size (bw_mode bw)) - unat (bw_pos bw) mod unat (rw_max_chunk_size (bw_mode bw))) \<and> 0 < n"
      and rest: "writer_inv winv stored H rw' \<and> writer_byte stored rw' = overlay (bw_pos bw) (take n data) (writer_byte stored (bw_mode bw))
        \<and> writer_len rw' = max (writer_len (bw_mode bw)) (unat (bw_pos bw) + n)
        \<and> rw_max_chunk_size rw' = rw_max_chunk_size (bw_mode bw) \<and> rw_closed rw' = rw_closed (bw_mode bw)"
      unfolding write_post_def Let_def by blast+
    from n have "n \<le> length data" "n \<noteq> 0" "0 < n" by linarith+
    with rest show ?thesis by (simp add: wrote_def)
  qed
  show ?thesis
    using run m keep done_n
    by (cases q; cases "projl (case q of Ready x \<Rightarrow> x)")
      (auto simp: writer_poll_write_def pbind_def on_mode_def pret_def split: poll.splits sum.splits)
qed

lemma write_all_correct:
  assumes cf: "inj (chunk_hash H)" and inv: "writer_inv winv stored H (bw_mode bw)"
    and room: "unat (bw_pos bw) + length data + 2 * unat (rw_max_chunk_size (bw_mode bw)) < 2 ^ 64"
    and run: "write_all polls H B data bw = Some (Returns (res, bw'))"
  shows "\<exists>k. wrote winv stored H data k bw bw' \<and> (res = Inr () \<longrightarrow> k = length data)"
  using inv room run
proof (induction polls arbitrary: data bw)
  case 0
  then show ?case using wrote_nothing by (fastforce split: if_splits)
next
  case (Suc polls)
  show ?case
  proof (cases "data = []")
    case True
    with Suc.prems wrote_nothing [of winv stored H bw data] show ?thesis by auto
  next
    case False
    with Suc.prems(3) obtain r bw1 where poll: "writer_poll_write H B data bw = Returns (r, bw1)"
      by (auto split: outcome.splits)
    have post: "case r of Ready (Inr n) \<Rightarrow> 0 < n \<and> wrote winv stored H data n bw bw1 | _ \<Rightarrow> wrote winv stored H data 0 bw bw1"
      using Suc.prems by (intro writer_poll_wrote [OF cf _ False _ poll]) auto
    have next_step: "\<exists>k. wrote winv stored H data k bw bw' \<and> (res = Inr () \<longrightarrow> k = length data)"
      if w: "wrote winv stored H data n bw bw1" and more: "write_all polls H B (drop n data) bw1 = Some (Returns (res, bw'))" for n
    proof -
      from w have n: "n \<le> length data" and inv1: "writer_inv winv stored H (bw_mode bw1)"
        and pos: "bw_pos bw1 = bw_pos bw + of_nat n" and size: "rw_max_chunk_size (bw_mode bw1) = rw_max_chunk_size (bw_mode bw)"
        by (auto simp: wrote_def)
      have "unat (bw_pos bw + of_nat n) = unat (bw_pos bw) + n"
        using n Suc.prems(2) by (intro unat_add_nat) simp
      with Suc.prems(2) pos size n
      have "unat (bw_pos bw1) + length (drop n data) + 2 * unat (rw_max_chunk_size (bw_mode bw1)) < 2 ^ 64" by simp
      from Suc.IH [OF inv1 this more] obtain k where
        k: "wrote winv stored H (drop n data) k bw1 bw'" "res = Inr () \<longrightarrow> k = length (drop n data)" by blast
      have "wrote winv stored H data (n + k) bw bw'" using Suc.prems(2) by (intro wrote_more [OF w k(1)]) simp
      with k(2) n show ?thesis by (intro exI [of _ "n + k"]) auto
    qed
    show ?thesis
    proof (cases r)
      case Pending
      with post poll Suc.prems(3) False next_step [of 0] show ?thesis by simp
    next
      case (Ready x)
      then show ?thesis
        using post poll Suc.prems(3) False next_step by (cases x) (auto split: if_splits)
    qed
  qed
qed

end

section \<open>Writing ends\<close>

text \<open>
  A store whose futures complete: a budget bounds how many polls find them pending. Under it
  every poll of a writer that is pending has used some of the budget.
\<close>

locale prompt_store = chunk_store +
  fixes budget :: "'a \<Rightarrow> nat"
  assumes get_prompt: "winv w \<Longrightarrow> poll_get_chunk B i w = (r, w') \<Longrightarrow>
      budget w' \<le> budget w \<and> (r = Pending \<longrightarrow> budget w' < budget w)"
    and insert_prompt: "winv w \<Longrightarrow> chunk_ok H c \<Longrightarrow> poll_insert_chunk B c w = (q, w') \<Longrightarrow>
      budget w' \<le> budget w \<and> (q = Pending \<longrightarrow> budget w' < budget w)"

definition spends :: "('w \<Rightarrow> nat) \<Rightarrow> 'w read_write \<Rightarrow> 'a poll \<Rightarrow> 'w read_write \<Rightarrow> bool" where
  "spends budget rw r rw' \<longleftrightarrow> budget (rw_world rw') \<le> budget (rw_world rw)
     \<and> (r = Pending \<longrightarrow> budget (rw_world rw') < budget (rw_world rw))"

lemma spends_none: "r \<noteq> Pending \<Longrightarrow> rw_world rw' = rw_world rw \<Longrightarrow> spends budget rw r rw'"
  by (simp add: spends_def)

lemma spends_trans: "spends budget a q b \<Longrightarrow> spends budget b r c \<Longrightarrow> spends budget a r c"
  by (auto simp: spends_def)

lemma spends_world: "spends budget a q b \<Longrightarrow> rw_world a' = rw_world a \<Longrightarrow> rw_world b' = rw_world b
    \<Longrightarrow> (r = Pending \<Longrightarrow> q = Pending) \<Longrightarrow> spends budget a' r b'"
  by (auto simp: spends_def)

context prompt_store
begin

lemma submit_spends:
  assumes inv: "writer_inv winv stored H rw" and run: "on_pipeline (poll_submit_complete B) rw = Returns (r, rw')"
  shows "spends budget rw r rw'"
proof (cases "wp_submit (rw_pipeline rw)")
  case None
  with run show ?thesis by (auto simp: on_pipeline_def poll_submit_complete_def spends_def)
next
  case (Some sub)
  with inv have w: "winv (rw_world rw)" and c: "chunk_ok H (si_chunk sub)"
    by (auto simp: writer_inv_def Let_def submit_ok_def)
  obtain q w' where q: "poll_insert_chunk B (si_chunk sub) (rw_world rw) = (q, w')"
    by (cases "poll_insert_chunk B (si_chunk sub) (rw_world rw)")
  from insert_prompt [OF w c q] run Some q show ?thesis
    by (auto simp: on_pipeline_def poll_submit_complete_def spends_def split: if_splits poll.splits sum.splits)
qed

lemma flush_spends:
  assumes inv: "writer_inv winv stored H rw" and run: "on_pipeline (poll_flush H B) rw = Returns (r, rw')"
  shows "spends budget rw r rw'"
proof (cases "wp_submit (rw_pipeline rw) = None \<and> (\<exists>b. wp_buffer (rw_pipeline rw) = Some b \<and> wb_dirty b)")
  case False
  then consider "wp_submit (rw_pipeline rw) \<noteq> None" | "r = Ready (Inr None)" "rw_world rw' = rw_world rw"
    using run by (auto simp: on_pipeline_def poll_flush_def split: option.splits if_splits)
  then show ?thesis
  proof cases
    case 1
    then have "on_pipeline (poll_flush H B) rw = on_pipeline (poll_submit_complete B) rw"
      by (simp add: on_pipeline_def poll_flush_def)
    with submit_spends [OF inv] run show ?thesis by simp
  next
    case 2
    then show ?thesis by (simp add: spends_none)
  qed
next
  case True
  then obtain b where ns: "wp_submit (rw_pipeline rw) = None" and b: "wp_buffer (rw_pipeline rw) = Some b" "wb_dirty b" by blast
  let ?rw = "rw\<lparr>rw_pipeline := (rw_pipeline rw)\<lparr>wp_buffer := None, wp_submit := Some (submit_of H b)\<rparr>\<rparr>"
  from submit_buffer_keeps [OF inv b] have inv': "writer_inv winv stored H ?rw" by (simp add: keeps_content_def)
  have "on_pipeline (poll_submit_complete B) ?rw = Returns (r, rw')"
    using run b ns by (auto simp: on_pipeline_def poll_flush_def split: outcome.splits prod.splits)
  from submit_spends [OF inv' this] show ?thesis by (simp add: spends_def)
qed

lemma flush_pipeline_spends:
  assumes cf: "inj (chunk_hash H)"
  shows "writer_inv winv stored H rw \<Longrightarrow> poll_flush_pipeline H B rw = Returns (r, rw') \<Longrightarrow> spends budget rw r rw'"
proof (induction rw rule: measure_induct_rule [where f = "\<lambda>rw. pipeline_work (rw_pipeline rw)"])
  case (less rw)
  obtain q rw1 where q: "on_pipeline (poll_flush H B) rw = Returns (q, rw1)"
    using less.prems(2) by (cases "on_pipeline (poll_flush H B) rw") (auto simp: poll_flush_pipeline.simps)
  note S = flush_step [OF cf less.prems(1) q] and P = flush_spends [OF less.prems(1) q]
  show ?case
  proof (cases "\<exists>d. q = Ready (Inr (Some d))")
    case False
    with less.prems(2) q P show ?thesis
      by (auto simp: poll_flush_pipeline.simps spends_def split: poll.splits sum.splits option.splits)
  next
    case True
    then obtain d where d: "q = Ready (Inr (Some d))" by blast
    let ?rw2 = "rw1\<lparr>rw_blob := apply_submitted d (rw_blob rw1)\<rparr>"
    from S d have inv2: "writer_inv winv stored H ?rw2" by (simp add: keeps_content_def)
    have run: "poll_flush_pipeline H B ?rw2 = Returns (r, rw')"
      using less.prems(2) q d by (simp add: poll_flush_pipeline.simps)
    have "pipeline_work (rw_pipeline ?rw2) < pipeline_work (rw_pipeline rw)"
      using q d by (auto simp: on_pipeline_def dest!: flush_work split: outcome.splits prod.splits)
    from less.IH [OF this inv2 run] P show ?thesis by (auto simp: spends_def)
  qed
qed

lemma fetch_spends:
  assumes inv: "writer_inv winv stored H rw" and run: "on_fetch (poll_ensure B i) rw = Returns (r, rw')"
  shows "spends budget rw r rw'"
proof -
  from inv have w: "winv (rw_world rw)" by (auto simp: writer_inv_def Let_def)
  obtain q w' where q: "poll_get_chunk B i (rw_world rw) = (q, w')" by (cases "poll_get_chunk B i (rw_world rw)")
  from get_prompt [OF w q] run q show ?thesis
    by (auto simp: on_fetch_def poll_ensure_def spends_def Let_def split: if_splits poll.splits sum.splits option.splits)
qed

lemma ensure_submit_spends:
  assumes inv: "writer_inv winv stored H rw" and run: "poll_ensure_submit_complete B rw = Returns (r, rw')"
  shows "spends budget rw r rw'"
  using run [unfolded poll_ensure_submit_complete_def]
proof (cases rule: pbind_cases)
  case (3 a s1)
  from submit_spends [OF inv 3(1)] 3(2) show ?thesis
    by (auto simp: spends_def pret_def split: option.splits)
qed (use submit_spends [OF inv] in \<open>fastforce simp: spends_def\<close>)+

lemma make_buffer_spends:
  assumes inv: "writer_inv winv stored H rw" and run: "make_buffer B pos rw = Returns (r, rw')"
  shows "spends budget rw r rw'"
proof (cases "\<exists>i l. cm_get (pos - pos mod rw_max_chunk_size rw) (bm_chunk_map (rw_blob rw)) = Some (CChunk i 0 l)")
  case False
  with run have "r \<noteq> Pending \<and> rw_world rw' = rw_world rw"
    by (auto simp: make_buffer_def Let_def pret_def pfail_def set_buffer_def
        split: if_splits option.splits chunk_map_entry.splits)
  then show ?thesis by (simp add: spends_none)
next
  case True
  then obtain i l where get: "cm_get (pos - pos mod rw_max_chunk_size rw) (bm_chunk_map (rw_blob rw)) = Some (CChunk i 0 l)" by blast
  let ?rest = "\<lambda>_ rw. case cf_cached (rw_fetch rw) of None \<Rightarrow> Panics
      | Some chunk \<Rightarrow> pret () (set_buffer (from_data (pos - pos mod rw_max_chunk_size rw) (rw_max_chunk_size rw) (ch_content chunk)) rw)"
  obtain q rw1 where q: "on_fetch (poll_ensure B i) rw = Returns (q, rw1)" and world: "rw_world rw' = rw_world rw1"
    and pend: "r = Pending \<longrightarrow> q = Pending"
    using run get by (auto simp: make_buffer_def Let_def pbind_def pret_def set_buffer_def
        split: if_splits outcome.splits prod.splits poll.splits sum.splits option.splits)
  from fetch_spends [OF inv q] world pend show ?thesis by (auto simp: spends_def)
qed

end

text \<open>No future of the writer has been polled to an error, so none is polled again after its end.\<close>

definition unspent :: "'w read_write \<Rightarrow> bool" where
  "unspent rw \<longleftrightarrow> fetch_fresh (rw_fetch rw)
     \<and> (case wp_submit (rw_pipeline rw) of None \<Rightarrow> True | Some s \<Rightarrow> \<not> si_completed s)"

definition calm :: "('w read_write, 'a) pollm \<Rightarrow> 'w read_write \<Rightarrow> bool" where
  "calm m rw = (case m rw of Panics \<Rightarrow> False
     | Returns (r, rw') \<Rightarrow> (case r of Ready (Inl e) \<Rightarrow> True | _ \<Rightarrow> unspent rw'))"

lemma calm_bind:
  assumes m: "calm m rw" and f: "\<And>a rw'. m rw = Returns (Ready (Inr a), rw') \<Longrightarrow> unspent rw' \<Longrightarrow> calm (f a) rw'"
  shows "calm (pbind m f) rw"
proof -
  from m obtain r s1 where run: "m rw = Returns (r, s1)" and u: "case r of Ready (Inl e) \<Rightarrow> True | _ \<Rightarrow> unspent s1"
    by (auto simp: calm_def split: outcome.splits)
  show ?thesis
  proof (cases "\<exists>a. r = Ready (Inr a)")
    case True
    then obtain a where r: "r = Ready (Inr a)" by blast
    with u run f [of a s1] have "calm (f a) s1" by simp
    moreover have "pbind m f rw = f a s1" using run r by (simp add: pbind_def)
    ultimately show ?thesis by (simp add: calm_def)
  next
    case False
    with run u show ?thesis by (auto simp: calm_def pbind_def split: poll.splits sum.splits)
  qed
qed

lemma calm_pret: "unspent rw \<Longrightarrow> calm (pret a) rw"
  by (simp add: calm_def pret_def)

lemma unspent_set_buffer [simp]: "unspent (set_buffer b rw) = unspent rw"
  by (simp add: unspent_def set_buffer_def)

lemma submit_calm: "unspent rw \<Longrightarrow> calm (on_pipeline (poll_submit_complete B)) rw"
  by (auto simp: calm_def on_pipeline_def poll_submit_complete_def unspent_def
      split: option.splits poll.splits sum.splits prod.splits)

lemma flush_calm: "unspent rw \<Longrightarrow> calm (on_pipeline (poll_flush H B)) rw"
  by (auto simp: calm_def on_pipeline_def poll_flush_def poll_submit_complete_def unspent_def submit_of_def Let_def
      split: option.splits poll.splits sum.splits prod.splits)

lemma fetch_calm: "unspent rw \<Longrightarrow> calm (on_fetch (poll_ensure B i)) rw"
  by (auto simp: calm_def on_fetch_def poll_ensure_def unspent_def fetch_fresh_def Let_def
      split: option.splits poll.splits sum.splits prod.splits if_splits)

lemma flush_pipeline_calm: "unspent rw \<Longrightarrow> calm (poll_flush_pipeline H B) rw"
proof (induction rw rule: measure_induct_rule [where f = "\<lambda>rw. pipeline_work (rw_pipeline rw)"])
  case (less rw)
  from flush_calm [OF less.prems, of H B] obtain q rw1 where q: "on_pipeline (poll_flush H B) rw = Returns (q, rw1)"
    and u: "case q of Ready (Inl e) \<Rightarrow> True | _ \<Rightarrow> unspent rw1"
    by (auto simp: calm_def split: outcome.splits)
  show ?case
  proof (cases "\<exists>d. q = Ready (Inr (Some d))")
    case False
    with q u show ?thesis
      by (auto simp: calm_def poll_flush_pipeline.simps [of H B rw] split: poll.splits sum.splits option.splits)
  next
    case True
    then obtain d where d: "q = Ready (Inr (Some d))" by blast
    let ?rw2 = "rw1\<lparr>rw_blob := apply_submitted d (rw_blob rw1)\<rparr>"
    have "pipeline_work (rw_pipeline ?rw2) < pipeline_work (rw_pipeline rw)"
      using q d by (auto simp: on_pipeline_def dest!: flush_work split: outcome.splits prod.splits)
    moreover have "unspent ?rw2" using u d by (simp add: unspent_def)
    ultimately have "calm (poll_flush_pipeline H B) ?rw2" by (rule less.IH)
    moreover have "poll_flush_pipeline H B rw = poll_flush_pipeline H B ?rw2"
      using q d by (simp add: poll_flush_pipeline.simps [of H B rw])
    ultimately show ?thesis by (simp add: calm_def)
  qed
qed

lemma ensure_submit_calm: "unspent rw \<Longrightarrow> calm (poll_ensure_submit_complete B) rw"
  unfolding poll_ensure_submit_complete_def
  by (rule calm_bind [OF submit_calm]) (auto simp: calm_def pret_def unspent_def split: option.split)

context chunk_store
begin

lemma make_buffer_calm:
  assumes inv: "writer_inv winv stored H rw" and u: "unspent rw"
  shows "calm (make_buffer B pos) rw"
proof -
  from inv have c: "rw_max_chunk_size rw \<noteq> 0" by (auto simp: writer_inv_def Let_def)
  let ?a = "pos - pos mod rw_max_chunk_size rw"
  show ?thesis
  proof (cases "\<exists>i l. cm_get ?a (bm_chunk_map (rw_blob rw)) = Some (CChunk i 0 l)")
    case False
    with c u show ?thesis
      by (auto simp: calm_def make_buffer_def Let_def pret_def pfail_def split: option.splits chunk_map_entry.splits)
  next
    case True
    then obtain i l where get: "cm_get ?a (bm_chunk_map (rw_blob rw)) = Some (CChunk i 0 l)" by blast
    let ?rest = "\<lambda>_ rw1. case cf_cached (rw_fetch rw1) of None \<Rightarrow> Panics
        | Some chunk \<Rightarrow> pret () (set_buffer (from_data ?a (rw_max_chunk_size rw1) (ch_content chunk)) rw1)"
    have "calm (pbind (on_fetch (poll_ensure B i)) ?rest) rw"
    proof (rule calm_bind [OF fetch_calm [OF u]])
      fix v rw1 assume run: "on_fetch (poll_ensure B i) rw = Returns (Ready (Inr v), rw1)" and "unspent rw1"
      moreover from fetch_keeps(5) [OF inv run refl] obtain ch where "cf_cached (rw_fetch rw1) = Some ch" by blast
      ultimately show "calm (?rest v) rw1" by (simp add: calm_def pret_def)
    qed
    then show ?thesis using c get by (simp add: calm_def make_buffer_def Let_def)
  qed
qed

lemma write_calm:
  assumes cf: "inj (chunk_hash H)" and inv: "writer_inv winv stored H rw" and u: "unspent rw"
    and room: "unat pos + 2 * unat (rw_max_chunk_size rw) < 2 ^ 64"
  shows "calm (poll_write_impl H B pos data) rw"
  unfolding poll_write_impl_def
proof (intro calm_bind)
  show "calm check_closed rw" using u by (simp add: calm_def check_closed_def pfail_def pret_def)
next
  fix v rw0 assume "check_closed rw = Returns (Ready (Inr v), rw0)"
  then have rw0: "rw0 = rw" by (auto simp: check_closed_def pfail_def pret_def split: if_splits)
  show "calm (poll_ensure_submit_complete B) rw0" using ensure_submit_calm [OF u] by (simp add: rw0)
  fix v1 rw1 assume "poll_ensure_submit_complete B rw0 = Returns (Ready (Inr v1), rw1)" and u1: "unspent rw1"
  note K1 = ensure_submit_keeps [OF cf inv this(1) [unfolded rw0], of v1]
  then have inv1: "writer_inv winv stored H rw1" and sub1: "wp_submit (rw_pipeline rw1) = None"
    and C1: "rw_max_chunk_size rw1 = rw_max_chunk_size rw" by (auto simp: keeps_content_def)
  show "calm (\<lambda>rw. case wp_buffer (rw_pipeline rw) of
              Some b \<Rightarrow> if wb_contains b pos then pret () rw
                        else pbind (poll_flush_pipeline H B)
                               (\<lambda>_ rw. pret () (rw\<lparr>rw_fetch := invalidate (rw_fetch rw)\<rparr>)) rw
            | None \<Rightarrow> pret () rw) rw1"
  proof -
    have "calm (pbind (poll_flush_pipeline H B) (\<lambda>_ rw. pret () (rw\<lparr>rw_fetch := invalidate (rw_fetch rw)\<rparr>))) rw1"
      by (rule calm_bind [OF flush_pipeline_calm [OF u1]])
        (auto simp: calm_def pret_def unspent_def invalidate_def fetch_fresh_def)
    with u1 show ?thesis by (auto simp: calm_def pret_def split: option.split)
  qed
  fix v2 rw2 assume run2: "(case wp_buffer (rw_pipeline rw1) of
              Some b \<Rightarrow> if wb_contains b pos then pret () rw1
                        else pbind (poll_flush_pipeline H B)
                               (\<lambda>_ rw. pret () (rw\<lparr>rw_fetch := invalidate (rw_fetch rw)\<rparr>)) rw1
            | None \<Rightarrow> pret () rw1) = Returns (Ready (Inr v2), rw2)" and u2: "unspent rw2"
  note K2 = make_room_keeps [OF cf inv1 sub1 run2, of v2]
  then have inv2: "writer_inv winv stored H rw2" and sub2: "wp_submit (rw_pipeline rw2) = None"
    and held: "case wp_buffer (rw_pipeline rw2) of Some b \<Rightarrow> wb_contains b pos | None \<Rightarrow> True"
    and C2: "rw_max_chunk_size rw2 = rw_max_chunk_size rw" using C1 by (auto simp: keeps_content_def)
  show "calm (\<lambda>rw. if wp_buffer (rw_pipeline rw) = None then make_buffer B pos rw else pret () rw) rw2"
    using make_buffer_calm [OF inv2 u2, of pos] u2 by (simp add: calm_def pret_def)
  fix v3 rw3 assume run3: "(if wp_buffer (rw_pipeline rw2) = None then make_buffer B pos rw2 else pret () rw2)
      = Returns (Ready (Inr v3), rw3)" and u3: "unspent rw3"
  from have_buffer_keeps [OF inv2 sub2 held room [folded C2] run3, of v3] obtain b
    where k: "keeps_content winv stored H rw2 rw3" and b: "wp_buffer (rw_pipeline rw3) = Some b"
      "unat (wb_start_pos b) \<le> unat pos" "unat pos < unat (wb_start_pos b) + unat (rw_max_chunk_size rw2)" by auto
  from k b(1) have "wb_capacity b = unat (rw_max_chunk_size rw2)"
    by (auto simp: keeps_content_def writer_inv_def Let_def buffer_ok_def)
  moreover have "unat (pos - wb_start_pos b) = unat pos - unat (wb_start_pos b)"
    using b(2) by (simp add: unat_diff_le word_le_nat_alt)
  ultimately have "\<not> wb_capacity b < unat (pos - wb_start_pos b)" using b(3) by linarith
  then have "write_into_vec (wb_capacity b) (wb_content b) (unat (pos - wb_start_pos b)) data \<noteq> Panics"
    by (simp add: write_into_vec_def Let_def)
  then have "write_at b pos data \<noteq> Panics" by (auto simp: write_at_def split: outcome.splits)
  then obtain n b' where "write_at b pos data = Returns (n, b')" by (cases "write_at b pos data") auto
  with b(1) u3 show "calm (\<lambda>rw. case wp_buffer (rw_pipeline rw) of
         None \<Rightarrow> Panics
       | Some b \<Rightarrow> (case write_at b pos data of
                     Panics \<Rightarrow> Panics
                   | Returns (n, b') \<Rightarrow> pret n (set_buffer b' rw))) rw3"
    by (simp add: calm_def pret_def)
qed

end

lemma spends_bind:
  assumes run: "pbind m f rw = Returns (r, rw')"
    and m: "\<And>q rw1. m rw = Returns (q, rw1) \<Longrightarrow> spends budget rw q rw1"
    and f: "\<And>a rw1. m rw = Returns (Ready (Inr a), rw1) \<Longrightarrow> f a rw1 = Returns (r, rw') \<Longrightarrow> spends budget rw1 r rw'"
  shows "spends budget rw r rw'"
  using run
proof (cases rule: pbind_cases)
  case 1
  from m [OF 1(1)] show ?thesis by (simp add: spends_def)
next
  case (2 e)
  from m [OF 2(1)] 2(2) show ?thesis by (simp add: spends_def)
next
  case (3 a s1)
  from m [OF 3(1)] f [OF 3] show ?thesis by (rule spends_trans)
qed

lemma writer_poll_mode:
  assumes "poll_write_impl H B (bw_pos bw) data (bw_mode bw) = Returns (r, rw')" and "\<nexists>e. r = Ready (Inl e)"
  shows "\<exists>bw1. writer_poll_write H B data bw = Returns (r, bw1) \<and> bw_mode bw1 = rw'"
proof (cases r)
  case Pending
  with assms(1) show ?thesis by (simp add: writer_poll_write_def pbind_def on_mode_def)
next
  case (Ready x)
  with assms(2) obtain n where "r = Ready (Inr n)" by (cases x) auto
  with assms(1) show ?thesis by (simp add: writer_poll_write_def pbind_def on_mode_def pret_def)
qed

context prompt_store
begin

lemma room_spends:
  assumes cf: "inj (chunk_hash H)" and inv: "writer_inv winv stored H rw"
    and run: "(case wp_buffer (rw_pipeline rw) of
              Some b \<Rightarrow> if wb_contains b pos then pret () rw
                        else pbind (poll_flush_pipeline H B)
                               (\<lambda>_ rw. pret () (rw\<lparr>rw_fetch := invalidate (rw_fetch rw)\<rparr>)) rw
            | None \<Rightarrow> pret () rw) = Returns (r, rw')"
  shows "spends budget rw r rw'"
proof (cases "case wp_buffer (rw_pipeline rw) of Some b \<Rightarrow> wb_contains b pos | None \<Rightarrow> True")
  case True
  with run show ?thesis by (auto simp: pret_def spends_def split: option.splits)
next
  case False
  with run have "pbind (poll_flush_pipeline H B)
      (\<lambda>_ rw. pret () (rw\<lparr>rw_fetch := invalidate (rw_fetch rw)\<rparr>)) rw = Returns (r, rw')"
    by (auto split: option.splits)
  then show ?thesis
    by (rule spends_bind) (use flush_pipeline_spends [OF cf inv] in \<open>auto simp: pret_def spends_def\<close>)
qed

lemma write_spends:
  assumes cf: "inj (chunk_hash H)" and inv: "writer_inv winv stored H rw"
    and room: "unat pos + 2 * unat (rw_max_chunk_size rw) < 2 ^ 64"
    and run: "poll_write_impl H B pos data rw = Returns (r, rw')"
  shows "spends budget rw r rw'"
  using run [unfolded poll_write_impl_def]
proof (rule spends_bind)
  fix q rw1 assume "check_closed rw = Returns (q, rw1)"
  then show "spends budget rw q rw1" by (auto simp: check_closed_def pfail_def pret_def spends_def split: if_splits)
next
  fix u0 rw0 assume "check_closed rw = Returns (Ready (Inr u0), rw0)"
  then have rw0: "rw0 = rw" by (auto simp: check_closed_def pfail_def pret_def split: if_splits)
  assume more: "pbind (poll_ensure_submit_complete B) (\<lambda>_.
     pbind (\<lambda>rw. case wp_buffer (rw_pipeline rw) of
              Some b \<Rightarrow> if wb_contains b pos then pret () rw
                        else pbind (poll_flush_pipeline H B)
                               (\<lambda>_ rw. pret () (rw\<lparr>rw_fetch := invalidate (rw_fetch rw)\<rparr>)) rw
            | None \<Rightarrow> pret () rw) (\<lambda>_.
     pbind (\<lambda>rw. if wp_buffer (rw_pipeline rw) = None then make_buffer B pos rw else pret () rw) (\<lambda>_ rw.
       case wp_buffer (rw_pipeline rw) of
         None \<Rightarrow> Panics
       | Some b \<Rightarrow> (case write_at b pos data of
                     Panics \<Rightarrow> Panics
                   | Returns (n, b') \<Rightarrow> pret n (set_buffer b' rw))))) rw0 = Returns (r, rw')"
  show "spends budget rw0 r rw'"
    using more unfolding rw0
  proof (rule spends_bind)
    fix q rw1 assume "poll_ensure_submit_complete B rw = Returns (q, rw1)"
    then show "spends budget rw q rw1" by (rule ensure_submit_spends [OF inv])
  next
    fix u1 rw1 assume "poll_ensure_submit_complete B rw = Returns (Ready (Inr u1), rw1)"
    then have inv1: "writer_inv winv stored H rw1"
      using ensure_submit_keeps [OF cf inv] by (auto simp: keeps_content_def)
    have sub1: "wp_submit (rw_pipeline rw1) = None"
      using ensure_submit_keeps [OF cf inv] \<open>poll_ensure_submit_complete B rw = Returns (Ready (Inr u1), rw1)\<close> by auto
    assume more: "pbind (\<lambda>rw. case wp_buffer (rw_pipeline rw) of
              Some b \<Rightarrow> if wb_contains b pos then pret () rw
                        else pbind (poll_flush_pipeline H B)
                               (\<lambda>_ rw. pret () (rw\<lparr>rw_fetch := invalidate (rw_fetch rw)\<rparr>)) rw
            | None \<Rightarrow> pret () rw) (\<lambda>_.
     pbind (\<lambda>rw. if wp_buffer (rw_pipeline rw) = None then make_buffer B pos rw else pret () rw) (\<lambda>_ rw.
       case wp_buffer (rw_pipeline rw) of
         None \<Rightarrow> Panics
       | Some b \<Rightarrow> (case write_at b pos data of
                     Panics \<Rightarrow> Panics
                   | Returns (n, b') \<Rightarrow> pret n (set_buffer b' rw)))) rw1 = Returns (r, rw')"
    then show "spends budget rw1 r rw'"
    proof (rule spends_bind)
      fix q rw2 assume "(case wp_buffer (rw_pipeline rw1) of
              Some b \<Rightarrow> if wb_contains b pos then pret () rw1
                        else pbind (poll_flush_pipeline H B)
                               (\<lambda>_ rw. pret () (rw\<lparr>rw_fetch := invalidate (rw_fetch rw)\<rparr>)) rw1
            | None \<Rightarrow> pret () rw1) = Returns (q, rw2)"
      then show "spends budget rw1 q rw2" by (rule room_spends [OF cf inv1])
    next
      fix u2 rw2 assume run2: "(case wp_buffer (rw_pipeline rw1) of
              Some b \<Rightarrow> if wb_contains b pos then pret () rw1
                        else pbind (poll_flush_pipeline H B)
                               (\<lambda>_ rw. pret () (rw\<lparr>rw_fetch := invalidate (rw_fetch rw)\<rparr>)) rw1
            | None \<Rightarrow> pret () rw1) = Returns (Ready (Inr u2), rw2)"
      from make_room_keeps [OF cf inv1 sub1 this] have inv2: "writer_inv winv stored H rw2" by (simp add: keeps_content_def)
      assume "pbind (\<lambda>rw. if wp_buffer (rw_pipeline rw) = None then make_buffer B pos rw else pret () rw) (\<lambda>_ rw.
       case wp_buffer (rw_pipeline rw) of
         None \<Rightarrow> Panics
       | Some b \<Rightarrow> (case write_at b pos data of
                     Panics \<Rightarrow> Panics
                   | Returns (n, b') \<Rightarrow> pret n (set_buffer b' rw))) rw2 = Returns (r, rw')"
      then show "spends budget rw2 r rw'"
      proof (rule spends_bind)
        fix q rw3 assume "(if wp_buffer (rw_pipeline rw2) = None then make_buffer B pos rw2 else pret () rw2) = Returns (q, rw3)"
        then show "spends budget rw2 q rw3"
          using make_buffer_spends [OF inv2, of pos q rw3] by (auto simp: pret_def spends_def split: if_splits)
      next
        fix u3 rw3 assume "(case wp_buffer (rw_pipeline rw3) of None \<Rightarrow> Panics
           | Some b \<Rightarrow> (case write_at b pos data of Panics \<Rightarrow> Panics
                         | Returns (n, b') \<Rightarrow> pret n (set_buffer b' rw3))) = Returns (r, rw')"
        then show "spends budget rw3 r rw'"
          by (auto simp: pret_def spends_def set_buffer_def split: option.splits outcome.splits prod.splits)
      qed
    qed
  qed
qed

text \<open>Writing everything ends, after at most one poll per byte and per pending answer.\<close>

lemma write_all_returns:
  assumes cf: "inj (chunk_hash H)" and inv: "writer_inv winv stored H (bw_mode bw)" and u: "unspent (bw_mode bw)"
    and room: "unat (bw_pos bw) + length data + 2 * unat (rw_max_chunk_size (bw_mode bw)) < 2 ^ 64"
    and polls: "length data + budget (rw_world (bw_mode bw)) < polls"
  shows "\<exists>res bw'. write_all polls H B data bw = Some (Returns (res, bw'))"
  using inv u room polls
proof (induction polls arbitrary: data bw)
  case (Suc polls)
  show ?case
  proof (cases "data = []")
    case False
    let ?rw = "bw_mode bw"
    have small: "unat (bw_pos bw) + 2 * unat (rw_max_chunk_size ?rw) < 2 ^ 64" using Suc.prems(3) by simp
    note calm = write_calm [OF cf Suc.prems(1,2) small, of data]
    then obtain r rw' where m: "poll_write_impl H B (bw_pos bw) data ?rw = Returns (r, rw')"
      and u': "case r of Ready (Inl e) \<Rightarrow> True | _ \<Rightarrow> unspent rw'"
      by (auto simp: calm_def split: outcome.splits)
    note spent = write_spends [OF cf Suc.prems(1) small m]
    show ?thesis
    proof (cases "\<exists>e. r = Ready (Inl e)")
      case True
      with m False show ?thesis
        by (auto simp: writer_poll_write_def pbind_def on_mode_def)
    next
      case ok: False
      then obtain bw1 where poll: "writer_poll_write H B data bw = Returns (r, bw1)" and mode: "bw_mode bw1 = rw'"
        using writer_poll_mode [OF m] by blast
      from u' ok mode have u1: "unspent (bw_mode bw1)" by (auto split: poll.splits sum.splits)
      have post: "case r of Ready (Inr n) \<Rightarrow> 0 < n \<and> wrote winv stored H data n bw bw1 | _ \<Rightarrow> wrote winv stored H data 0 bw bw1"
        using Suc.prems by (intro writer_poll_wrote [OF cf _ False _ poll]) auto
      have next_step: "\<exists>res bw'. write_all polls H B (drop n data) bw1 = Some (Returns (res, bw'))"
        if w: "wrote winv stored H data n bw bw1"
          and used: "length (drop n data) + budget (rw_world rw') < length data + budget (rw_world ?rw)" for n
      proof -
        from w have n: "n \<le> length data" and inv1: "writer_inv winv stored H (bw_mode bw1)"
          and pos: "bw_pos bw1 = bw_pos bw + of_nat n" and size: "rw_max_chunk_size (bw_mode bw1) = rw_max_chunk_size ?rw"
          by (auto simp: wrote_def)
        have "unat (bw_pos bw + of_nat n) = unat (bw_pos bw) + n"
          using n Suc.prems(3) by (intro unat_add_nat) simp
        with Suc.prems(3) pos size n
        have "unat (bw_pos bw1) + length (drop n data) + 2 * unat (rw_max_chunk_size (bw_mode bw1)) < 2 ^ 64" by simp
        moreover have "length (drop n data) + budget (rw_world (bw_mode bw1)) < polls"
          using used Suc.prems(4) mode by simp
        ultimately show ?thesis by (rule Suc.IH [OF inv1 u1])
      qed
      show ?thesis
      proof (cases r)
        case Pending
        with spent have "budget (rw_world rw') < budget (rw_world ?rw)" by (simp add: spends_def)
        with next_step [of 0] post poll Pending False show ?thesis by simp
      next
        case (Ready x)
        with ok obtain n where r: "r = Ready (Inr n)" by (cases x) auto
        with post have n: "0 < n" "wrote winv stored H data n bw bw1" by auto
        have "budget (rw_world rw') \<le> budget (rw_world ?rw)" using spent by (simp add: spends_def)
        with n False have "length (drop n data) + budget (rw_world rw') < length data + budget (rw_world ?rw)"
          by (cases data) (auto simp: wrote_def)
        from next_step [OF n(2) this] poll r n(1) False show ?thesis by simp
      qed
    qed
  qed simp
qed simp

end

section \<open>The file system is prompt\<close>

lemma write_settled_returns:
  assumes settled: "settled E (maybe_branch_name (v_head v)) (v_db v)"
    and frame: "\<forall>d a d1. m d = Inr (a, d1) \<longrightarrow> same_frame d d1"
  shows "\<exists>r v'. write_tx E now later (db_tx m) v = Some (r, v')"
proof -
  let ?d = "(v_db v)\<lparr>t_change_log := []\<rparr>" and ?b = "maybe_branch_name (v_head v)"
  have s0: "settled E ?b ?d" using settled settled_frame [of "v_db v" ?d] by (simp add: same_frame_def)
  have "commit_tx E ?b now later d1 \<noteq> None" if "m ?d = Inr (a, d1)" for a d1
  proof -
    from frame that have "same_frame ?d d1" by blast
    with s0 settled_frame have "settled E ?b d1" by blast
    then have "process_dirty_inodes E d1 = Some (Inr ((), d1))"
      by (simp add: process_dirty_inodes.simps settled_def)
    then show ?thesis by (simp add: commit_tx_def)
  qed
  then show ?thesis
    by (auto simp: write_tx_def write_tx_as_def db_tx_def split: sum.split option.split)
qed

lemma tracker_insert_returns:
  assumes inv: "vfs_winv E (v, ns)" and c: "chunk_ok (ev_hasher E) c"
  shows "tracker_insert_chunk E now later fh c v \<noteq> None"
proof -
  have frames: "\<forall>d a d1. register_chunk c (Local []) d = Inr (a, d1) \<longrightarrow> same_frame d d1"
    "\<forall>d a d1. insert_temp_fh_chunk fh (ch_id c) d = Inr (a, d1) \<longrightarrow> same_frame d d1"
    using track_frame by (auto simp: same_frame_def dest!: register_local)
  have settled: "vfs_winv E (v, ns) \<Longrightarrow> settled E (maybe_branch_name (v_head v)) (v_db v)" for v
    by (simp add: vfs_winv_def)
  have "vfs_insert_chunk E now later c v \<noteq> None"
    using write_settled_returns [OF settled [OF inv] frames(1), of now later]
    by (auto simp: vfs_insert_chunk_def split: sum.split)
  then obtain q v1 where q: "vfs_insert_chunk E now later c v = Some (q, v1)" by auto
  with insert_chunk_stored [OF inv c q, of ns] have "vfs_winv E (v1, ns)" by blast
  from write_settled_returns [OF settled [OF this] frames(2), of now later] q show ?thesis
    by (auto simp: tracker_insert_chunk_def split: sum.split)
qed

interpretation vfs_prompt: prompt_store "tracker_backend E now later fh" "ev_hasher E" "vfs_winv E" "vfs_stored E"
  "\<lambda>w. sum_list (snd w)"
  for E now later fh
proof unfold_locales
  fix w w' :: vfs_world and i r
  assume "vfs_winv E w" and run: "poll_get_chunk (tracker_backend E now later fh) i w = (r, w')"
  obtain v ns v' ns' where w: "w = (v, ns)" "w' = (v', ns')" by (cases w, cases w')
  let ?get = "\<lambda>v. case vfs_get_chunk E i v of (r, v') \<Rightarrow> (Ready r, v')"
  from run w have "next_poll ?get (v, ns) = (r, v', ns')" by (simp add: tracker_backend_def)
  from next_poll_cases [OF this] w
  show "sum_list (snd w') \<le> sum_list (snd w) \<and> (r = Pending \<longrightarrow> sum_list (snd w') < sum_list (snd w))"
    by (auto split: prod.splits)
next
  fix w w' :: vfs_world and c q
  assume inv: "vfs_winv E w" and c: "chunk_ok (ev_hasher E) c"
    and run: "poll_insert_chunk (tracker_backend E now later fh) c w = (q, w')"
  obtain v ns v' ns' where w: "w = (v, ns)" "w' = (v', ns')" by (cases w, cases w')
  let ?insert = "\<lambda>v. case tracker_insert_chunk E now later fh c v of None \<Rightarrow> (Pending, v) | Some (r, v') \<Rightarrow> (Ready r, v')"
  from run w have "next_poll ?insert (v, ns) = (q, v', ns')" by (simp add: tracker_backend_def)
  from next_poll_cases [OF this] w tracker_insert_returns [OF inv [unfolded w] c, of now later fh]
  show "sum_list (snd w') \<le> sum_list (snd w) \<and> (q = Pending \<longrightarrow> sum_list (snd w') < sum_list (snd w))"
    by (auto split: option.splits prod.splits)
qed


lemma store_writer_fresh: "unspent store_writer"
  by (simp add: unspent_def store_writer_def new_writer_def fetch_ok_new write_pipeline_new_def)


end
