(* ===== verification/Nfs.thy ===== *)
theory Nfs
  imports Handles Locks
begin

text \<open>
  The NFS server (\<open>janus-fs/src/nfs/mod.rs\<close>): the operations of the crate \<open>nfsserve\<close>'s
  file-system trait on top of the file system, with the table of open files and the semaphores
  of files open for writing. A handler that waits, waits at the points the model names.
\<close>

section \<open>Data\<close>

datatype nfsstat =
    NFS3ERR_NOENT
  | NFS3ERR_IO
  | NFS3ERR_NOTDIR
  | NFS3ERR_ISDIR
  | NFS3ERR_ROFS
  | NFS3ERR_BADHANDLE
  | NFS3ERR_BAD_COOKIE
  | NFS3ERR_NOTSUPP
  | NFS3ERR_SERVERFAULT

datatype ftype = NF3REG | NF3DIR

record nfstime =
  nt_seconds :: u32
  nt_nseconds :: u32

record fattr =
  fa_ftype :: ftype
  fa_mode :: u32
  fa_nlink :: u32
  fa_uid :: u32
  fa_gid :: u32
  fa_size :: u64
  fa_used :: u64
  fa_fsid :: u64
  fa_fileid :: u64
  fa_atime :: nfstime
  fa_mtime :: nfstime
  fa_ctime :: nfstime

datatype open_mode = ForReading | ForReadWrite

text \<open>An open file; one open for writing holds the permit of a semaphore, named as in \<open>Locks\<close>.\<close>

datatype open_file =
    OpenReadOnly "vfs blob_reader" typed_inode
  | OpenReadWrite file_handle nat

text \<open>
  The table of open files has an empty slot for a handle that is being opened or is in use.
  \<open>nf_dead\<close> holds the handles the reaper was told about.
\<close>

record nfs =
  nf_vfs :: vfs
  nf_uid :: u32
  nf_gid :: u32
  nf_file_mode :: u32
  nf_dir_mode :: u32
  nf_root_id :: inode_id
  nf_fs_id :: u64
  nf_files :: "u32 \<Rightarrow> open_file option option"
  nf_locks :: "u64 lock_state"
  nf_dead :: "nat list"

section \<open>Running a handler\<close>

type_synonym 'a nfs_run = "nfs \<Rightarrow> ((nfsstat + 'a) \<times> nfs) outcome option"

definition nfs_return :: "'a \<Rightarrow> 'a nfs_run" where
  "nfs_return a s = Some (Returns (Inr a, s))"

definition nfs_fail :: "nfsstat \<Rightarrow> 'a nfs_run" where
  "nfs_fail e s = Some (Returns (Inl e, s))"

definition nfs_bind :: "'a nfs_run \<Rightarrow> ('a \<Rightarrow> 'b nfs_run) \<Rightarrow> 'b nfs_run" where
  "nfs_bind m f s = (case m s of
     None \<Rightarrow> None
   | Some Panics \<Rightarrow> Some Panics
   | Some (Returns (Inl e, s')) \<Rightarrow> Some (Returns (Inl e, s'))
   | Some (Returns (Inr a, s')) \<Rightarrow> f a s')"

text \<open>Calling the file system, with its errors reported as \<open>e\<close>.\<close>

definition nfs_call :: "nfsstat \<Rightarrow> (vfs \<Rightarrow> ((vfs_error + 'a) \<times> vfs) outcome option) \<Rightarrow> 'a nfs_run" where
  "nfs_call e m s = (case m (nf_vfs s) of
     None \<Rightarrow> None
   | Some Panics \<Rightarrow> Some Panics
   | Some (Returns (Inl _, v)) \<Rightarrow> Some (Returns (Inl e, s\<lparr>nf_vfs := v\<rparr>))
   | Some (Returns (Inr a, v)) \<Rightarrow> Some (Returns (Inr a, s\<lparr>nf_vfs := v\<rparr>)))"

definition at_once :: "(vfs \<Rightarrow> (vfs_error + 'a) \<times> vfs) \<Rightarrow> vfs \<Rightarrow> ((vfs_error + 'a) \<times> vfs) outcome option" where
  "at_once m v = Some (Returns (m v))"

section \<open>Inodes\<close>

definition inode_len :: "inode \<Rightarrow> u64 option" where
  "inode_len n = (case n of InodeFile f \<Rightarrow> Some (file_len f) | InodeDirectory _ \<Rightarrow> None)"

definition inode_name :: "inode \<Rightarrow> str" where
  "inode_name n = re_name (ent_inner (ti_entity (typed_inode_of n)))"

definition inode_last_modified :: "inode \<Rightarrow> timestamp" where
  "inode_last_modified n = re_last_modified (ent_inner (ti_entity (typed_inode_of n)))"

definition inode_id_of :: "inode \<Rightarrow> inode_id" where
  "inode_id_of n = ti_id (typed_inode_of n)"

definition dir_is_root :: "typed_inode \<Rightarrow> bool" where
  "dir_is_root d = (ti_id d = ROOT_INODE_ID)"

text \<open>Seconds are truncated to 32 bits (\<open>as u32\<close>).\<close>

definition to_nfsstime :: "timestamp \<Rightarrow> nfstime" where
  "to_nfsstime t = \<lparr>nt_seconds = word_of_int (sint t div 1000), nt_nseconds = word_of_int (sint t mod 1000 * 1000000)\<rparr>"

definition to_fattr :: "nfs \<Rightarrow> inode \<Rightarrow> fattr" where
  "to_fattr s n =
     (let len = (case inode_len n of Some k \<Rightarrow> k | None \<Rightarrow> 0);
          modified = to_nfsstime (inode_last_modified n);
          at_root = (case n of InodeDirectory d \<Rightarrow> dir_is_root d | InodeFile _ \<Rightarrow> False)
      in \<lparr>fa_ftype = (case n of InodeDirectory _ \<Rightarrow> NF3DIR | InodeFile _ \<Rightarrow> NF3REG),
          fa_mode = (if at_root then 0x16D else case n of InodeDirectory _ \<Rightarrow> nf_dir_mode s | InodeFile _ \<Rightarrow> nf_file_mode s),
          fa_nlink = 1,
          fa_uid = (if at_root then 0 else nf_uid s),
          fa_gid = (if at_root then 0 else nf_gid s),
          fa_size = len, fa_used = len, fa_fsid = nf_fs_id s, fa_fileid = inode_id_of n,
          fa_atime = modified, fa_mtime = modified, fa_ctime = modified\<rparr>)"

text \<open>
  Decoding UTF-8 (\<open>std::str::from_utf8\<close>): the width of a character from its first byte, the code
  point from the payload bits; overlong forms, surrogates and bytes out of place are refused.
\<close>

definition utf8_width :: "u8 \<Rightarrow> nat" where
  "utf8_width b = (if b < 0x80 then 1 else if b < 0xC0 then 0 else if b < 0xE0 then 2
     else if b < 0xF0 then 3 else if b < 0xF8 then 4 else 0)"

fun code_point :: "bytes \<Rightarrow> nat" where
  "code_point [] = 0"
| "code_point (b # bs) =
     foldl (\<lambda>c x. c * 64 + unat x mod 64)
       (case length bs of 0 \<Rightarrow> unat b | Suc 0 \<Rightarrow> unat b mod 32 | Suc (Suc 0) \<Rightarrow> unat b mod 16 | _ \<Rightarrow> unat b mod 8) bs"

function from_utf8 :: "bytes \<Rightarrow> str option" where
  "from_utf8 [] = Some []"
| "from_utf8 (b # bs) =
     (let n = utf8_width b; taken = take n (b # bs); c = code_point taken
      in if n = 0 \<or> length taken < n \<or> utf8_char c \<noteq> taken \<or> 0x110000 \<le> c \<or> (0xD800 \<le> c \<and> c < 0xE000) then None
         else map_option ((#) c) (from_utf8 (drop n (b # bs))))"
  by pat_completeness auto
termination
  by (relation "measure length") (auto simp: Let_def)

definition try_as_name :: "bytes \<Rightarrow> nfsstat + str" where
  "try_as_name filename =
     (case from_utf8 filename of
        None \<Rightarrow> Inl NFS3ERR_SERVERFAULT
      | Some n \<Rightarrow> (case check_valid_filename n of Inl _ \<Rightarrow> Inl NFS3ERR_SERVERFAULT | Inr _ \<Rightarrow> Inr n))"

definition nfs_of :: "nfsstat + 'a \<Rightarrow> 'a nfs_run" where
  "nfs_of r = (case r of Inl e \<Rightarrow> nfs_fail e | Inr a \<Rightarrow> nfs_return a)"

definition nfs_inode_by_id :: "env \<Rightarrow> u64 \<Rightarrow> inode nfs_run" where
  "nfs_inode_by_id E i =
     nfs_bind (nfs_call NFS3ERR_SERVERFAULT (at_once (vfs_inode_by_id E (inode_id_new i)))) (\<lambda>found.
     case found of Some n \<Rightarrow> nfs_return n | None \<Rightarrow> nfs_fail NFS3ERR_NOENT)"

text \<open>\<open>try_into()\<close> with the error of the handler.\<close>

definition as_directory :: "nfsstat \<Rightarrow> inode \<Rightarrow> typed_inode nfs_run" where
  "as_directory e n = (case n of InodeDirectory d \<Rightarrow> nfs_return d | InodeFile _ \<Rightarrow> nfs_fail e)"

definition inode_by_dir_name :: "env \<Rightarrow> u64 \<Rightarrow> bytes \<Rightarrow> inode nfs_run" where
  "inode_by_dir_name E dirid filename =
     nfs_bind (nfs_of (try_as_name filename)) (\<lambda>name.
     nfs_bind (nfs_inode_by_id E dirid) (\<lambda>n.
     nfs_bind (as_directory NFS3ERR_NOTDIR n) (\<lambda>parent.
     nfs_bind (nfs_call NFS3ERR_SERVERFAULT (at_once (vfs_inode_by_path E (path_join (ev_path E) (ti_path parent) name)))) (\<lambda>found.
     case found of Some n \<Rightarrow> nfs_return n | None \<Rightarrow> nfs_fail NFS3ERR_NOENT))))"

section \<open>Handlers on inodes\<close>

definition nfs_new :: "env \<Rightarrow> u32 \<Rightarrow> u32 \<Rightarrow> u32 \<Rightarrow> u32 \<Rightarrow> vfs \<Rightarrow> vfs_error + nfs" where
  "nfs_new E uid gid file_mode dir_mode v =
     (case vfs_root E v of
        (Inl e, _) \<Rightarrow> Inl e
      | (Inr root, v1) \<Rightarrow>
          Inr \<lparr>nf_vfs = v1, nf_uid = uid, nf_gid = gid, nf_file_mode = file_mode, nf_dir_mode = dir_mode,
               nf_root_id = ti_id root, nf_fs_id = foldl (\<lambda>a b. a * 256 + ucast b) 0 (drop 8 (v_id v1)),
               nf_files = (\<lambda>_. None), nf_locks = lk_new, nf_dead = []\<rparr>)"

definition capabilities_read_only :: "nfs \<Rightarrow> bool" where
  "capabilities_read_only s = v_read_only (nf_vfs s)"

definition root_dir :: "nfs \<Rightarrow> u64" where
  "root_dir s = nf_root_id s"

definition nfs_lookup :: "env \<Rightarrow> u64 \<Rightarrow> bytes \<Rightarrow> u64 nfs_run" where
  "nfs_lookup E dirid filename = nfs_bind (inode_by_dir_name E dirid filename) (\<lambda>n. nfs_return (inode_id_of n))"

definition nfs_attr :: "inode \<Rightarrow> fattr nfs_run" where
  "nfs_attr n s = nfs_return (to_fattr s n) s"

definition nfs_getattr :: "env \<Rightarrow> u64 \<Rightarrow> fattr nfs_run" where
  "nfs_getattr E i = nfs_bind (nfs_inode_by_id E i) nfs_attr"

text \<open>\<open>setattr\<close> ignores what it is asked to set.\<close>

definition nfs_setattr :: "env \<Rightarrow> u64 \<Rightarrow> 'sattr \<Rightarrow> fattr nfs_run" where
  "nfs_setattr E i attrs = nfs_bind (nfs_inode_by_id E i) nfs_attr"

definition directory_by_id :: "env \<Rightarrow> nfsstat \<Rightarrow> u64 \<Rightarrow> typed_inode nfs_run" where
  "directory_by_id E e i = nfs_bind (nfs_inode_by_id E i) (as_directory e)"

text \<open>What one call draws from outside: a new entity id and readings of the clock.\<close>

record draw =
  dr_entity :: entity_id
  dr_created :: timestamp
  dr_now :: timestamp
  dr_later :: timestamp

abbreviation run_once :: "(vfs \<Rightarrow> ((vfs_error + 'a) \<times> vfs) option) \<Rightarrow> vfs \<Rightarrow> ((vfs_error + 'a) \<times> vfs) outcome option" where
  "run_once m v \<equiv> map_option Returns (m v)"

definition nfs_create_exclusive :: "env \<Rightarrow> draw \<Rightarrow> u64 \<Rightarrow> bytes \<Rightarrow> u64 nfs_run" where
  "nfs_create_exclusive E R dirid filename =
     nfs_bind (nfs_of (try_as_name filename)) (\<lambda>name.
     nfs_bind (directory_by_id E NFS3ERR_NOTDIR dirid) (\<lambda>parent.
     nfs_bind (nfs_call NFS3ERR_SERVERFAULT
       (\<lambda>v. run_once (vfs_create_file E (dr_entity R) (dr_created R) (dr_now R) (dr_later R) parent name) v)) (\<lambda>f.
     nfs_return (ti_id f))))"

definition nfs_create :: "env \<Rightarrow> draw \<Rightarrow> u64 \<Rightarrow> bytes \<Rightarrow> (u64 \<times> fattr) nfs_run" where
  "nfs_create E R dirid filename =
     nfs_bind (nfs_create_exclusive E R dirid filename) (\<lambda>i.
     nfs_bind (nfs_inode_by_id E i) (\<lambda>n.
     case n of InodeFile _ \<Rightarrow> nfs_bind (nfs_attr n) (\<lambda>a. nfs_return (i, a)) | InodeDirectory _ \<Rightarrow> nfs_fail NFS3ERR_ISDIR))"

definition nfs_mkdir :: "env \<Rightarrow> draw \<Rightarrow> u64 \<Rightarrow> bytes \<Rightarrow> (u64 \<times> fattr) nfs_run" where
  "nfs_mkdir E R dirid dirname =
     nfs_bind (nfs_of (try_as_name dirname)) (\<lambda>name.
     nfs_bind (directory_by_id E NFS3ERR_NOTDIR dirid) (\<lambda>parent.
     nfs_bind (nfs_call NFS3ERR_SERVERFAULT
       (\<lambda>v. run_once (vfs_create_dir E (dr_entity R) (dr_created R) (dr_now R) (dr_later R) parent name) v)) (\<lambda>d.
     nfs_bind (nfs_attr (InodeDirectory d)) (\<lambda>a. nfs_return (ti_id d, a)))))"

definition nfs_remove :: "env \<Rightarrow> draw \<Rightarrow> u64 \<Rightarrow> bytes \<Rightarrow> unit nfs_run" where
  "nfs_remove E R dirid filename =
     nfs_bind (inode_by_dir_name E dirid filename) (\<lambda>n.
     nfs_call NFS3ERR_SERVERFAULT (\<lambda>v. run_once (vfs_delete E (dr_now R) (dr_later R) (inode_id_of n)) v))"

text \<open>\<open>rename\<close> moves the inode and then renames it, in two transactions.\<close>

definition set_inode_name :: "str \<Rightarrow> typed_inode \<Rightarrow> inode_mut" where
  "set_inode_name name i = (let m = inode_into_mut i in m\<lparr>im_entity := (im_entity m)\<lparr>em_name := name\<rparr>\<rparr>)"

definition nfs_rename :: "env \<Rightarrow> draw \<Rightarrow> draw \<Rightarrow> u64 \<Rightarrow> bytes \<Rightarrow> u64 \<Rightarrow> bytes \<Rightarrow> unit nfs_run" where
  "nfs_rename E R R' from_dirid from_filename to_dirid to_filename =
     nfs_bind (inode_by_dir_name E from_dirid from_filename) (\<lambda>source.
     nfs_bind (directory_by_id E NFS3ERR_NOTSUPP to_dirid) (\<lambda>dest_parent.
     nfs_bind (nfs_of (try_as_name to_filename)) (\<lambda>name.
     nfs_bind (nfs_call NFS3ERR_SERVERFAULT (\<lambda>v. run_once (vfs_mv E (dr_now R) (dr_later R) (inode_id_of source) dest_parent) v)) (\<lambda>_.
     if name = inode_name source then nfs_return ()
     else nfs_bind (nfs_inode_by_id E (inode_id_of source)) (\<lambda>n.
          nfs_bind (nfs_call NFS3ERR_SERVERFAULT (case n of
              InodeDirectory d \<Rightarrow> vfs_update E (dr_now R') (dr_later R') Dir (set_inode_name name d)
            | InodeFile f \<Rightarrow> vfs_update E (dr_now R') (dr_later R') File (set_inode_name name f))) (\<lambda>_. nfs_return ()))))))"

definition nfs_symlink :: "u64 \<Rightarrow> bytes \<Rightarrow> bytes \<Rightarrow> (u64 \<times> fattr) nfs_run" where
  "nfs_symlink dirid linkname target = nfs_fail NFS3ERR_NOTSUPP"

definition nfs_readlink :: "u64 \<Rightarrow> bytes nfs_run" where
  "nfs_readlink i = nfs_fail NFS3ERR_NOTSUPP"

record fsinfo =
  fi_obj_attributes :: fattr
  fi_rtmax :: u32
  fi_rtpref :: u32
  fi_rtmult :: u32
  fi_wtmax :: u32
  fi_wtpref :: u32
  fi_wtmult :: u32
  fi_dtpref :: u32
  fi_maxfilesize :: u64
  fi_time_delta :: nfstime

definition nfs_fsinfo :: "env \<Rightarrow> u64 \<Rightarrow> fsinfo nfs_run" where
  "nfs_fsinfo E fileid =
     nfs_bind (nfs_inode_by_id E fileid) (\<lambda>n.
     nfs_bind (nfs_attr n) (\<lambda>a.
     nfs_return \<lparr>fi_obj_attributes = a, fi_rtmax = 1024 * 1024, fi_rtpref = 1024 * 124, fi_rtmult = 1024 * 1024,
       fi_wtmax = 1024 * 1024, fi_wtpref = 1024 * 1024, fi_wtmult = 1024 * 1024, fi_dtpref = 1024 * 1024,
       fi_maxfilesize = 128 * 1024 * 1024 * 1024, fi_time_delta = \<lparr>nt_seconds = 0, nt_nseconds = 1000000\<rparr>\<rparr>))"

section \<open>Listing a directory\<close>

fun collect :: "('e + 'a) list \<Rightarrow> 'e + 'a list" where
  "collect [] = Inr []"
| "collect (Inl e # xs) = Inl e"
| "collect (Inr a # xs) = (case collect xs of Inl e \<Rightarrow> Inl e | Inr as \<Rightarrow> Inr (a # as))"

fun position :: "('a \<Rightarrow> bool) \<Rightarrow> 'a list \<Rightarrow> nat option" where
  "position P [] = None"
| "position P (x # xs) = (if P x then Some 0 else map_option Suc (position P xs))"

text \<open>The loop that fills the answer: an entry is pushed before the limit is looked at.\<close>

fun push_entries :: "nat \<Rightarrow> inode list \<Rightarrow> inode list \<Rightarrow> inode list" where
  "push_entries max_entries entries [] = entries"
| "push_entries max_entries entries (n # ns) =
     (let entries' = entries @ [n]
      in if max_entries \<le> length entries' then entries' else push_entries max_entries entries' ns)"

definition dir_page :: "u64 \<Rightarrow> nat \<Rightarrow> inode list \<Rightarrow> nfsstat + inode list \<times> bool" where
  "dir_page start_after max_entries inodes =
     (case (if 0 < start_after then map_option Suc (position (\<lambda>n. inode_id_of n = start_after) inodes) else Some 0) of
        None \<Rightarrow> Inl NFS3ERR_BAD_COOKIE
      | Some start_index \<Rightarrow>
          (let entries = push_entries max_entries [] (drop start_index inodes)
           in Inr (entries, length entries = length inodes - start_index)))"

record dir_entry =
  de_fileid :: u64
  de_name :: bytes
  de_attr :: fattr

definition nfs_list :: "env \<Rightarrow> typed_inode \<Rightarrow> vfs \<Rightarrow> (vfs_error + inode list) \<times> vfs" where
  "nfs_list E dir v = (case vfs_list E dir v of (ns, v1) \<Rightarrow> (collect ns, v1))"

definition nfs_readdir :: "env \<Rightarrow> u64 \<Rightarrow> u64 \<Rightarrow> nat \<Rightarrow> (dir_entry list \<times> bool) nfs_run" where
  "nfs_readdir E dirid start_after max_entries =
     nfs_bind (directory_by_id E NFS3ERR_NOTDIR dirid) (\<lambda>dir.
     nfs_bind (nfs_call NFS3ERR_SERVERFAULT (at_once (nfs_list E dir))) (\<lambda>inodes.
     nfs_bind (nfs_of (dir_page start_after max_entries inodes)) (\<lambda>(page, end_reached) s.
     nfs_return (map (\<lambda>n. \<lparr>de_fileid = inode_id_of n, de_name = utf8 (inode_name n), de_attr = to_fattr s n\<rparr>) page,
       end_reached) s)))"

section \<open>Open files\<close>

definition open_file_len :: "open_file \<Rightarrow> u64" where
  "open_file_len f = (case f of OpenReadOnly r file \<Rightarrow> file_len file | OpenReadWrite h m \<Rightarrow> fhd_len h)"

definition put_file :: "u32 \<Rightarrow> open_file option \<Rightarrow> nfs \<Rightarrow> nfs" where
  "put_file fh slot s = s\<lparr>nf_files := (nf_files s)(fh \<mapsto> slot)\<rparr>"

definition take_open_file :: "u32 \<Rightarrow> nfs \<Rightarrow> open_file option \<times> nfs" where
  "take_open_file fh s =
     (case nf_files s fh of
        None \<Rightarrow> (None, s)
      | Some slot \<Rightarrow> (slot, put_file fh None s))"

definition return_open_file :: "u32 \<Rightarrow> open_file \<Rightarrow> nfs \<Rightarrow> nfs" where
  "return_open_file fh f s = (if nf_files s fh = None then s else put_file fh (Some f) s)"

text \<open>Dropping an open file: the permit is given back and the reaper is told about the handle.\<close>

definition drop_file :: "u32 \<Rightarrow> open_file \<Rightarrow> nfs \<Rightarrow> nfs" where
  "drop_file fh f s =
     (case f of
        OpenReadOnly r file \<Rightarrow> s
      | OpenReadWrite h m \<Rightarrow>
          s\<lparr>nf_locks := lk_drop (unat fh) m (nf_locks s),
            nf_dead := nf_dead s @ (if fhd_armed h then [fhd_id h] else [])\<rparr>)"

text \<open>
  Opening, in three parts: a slot and the semaphore, under the lock of the table; the permit
  (\<open>lk_grant\<close>); the file. \<open>granted\<close> says whether \<open>open_rw\<close> got the lock of the inode in time.
\<close>

definition open_enter :: "open_mode \<Rightarrow> u32 \<Rightarrow> u64 \<Rightarrow> nfs \<Rightarrow> nfs" where
  "open_enter mode fh i s =
     (let s1 = put_file fh None s
      in case mode of
           ForReadWrite \<Rightarrow> s1\<lparr>nf_locks := lk_enter (unat fh) i (nf_locks s1)\<rparr>
         | ForReading \<Rightarrow> s1)"

definition as_file :: "inode \<Rightarrow> typed_inode nfs_run" where
  "as_file n = (case n of InodeFile f \<Rightarrow> nfs_return f | InodeDirectory _ \<Rightarrow> nfs_fail NFS3ERR_ISDIR)"

definition open_reading :: "env \<Rightarrow> u32 \<Rightarrow> u64 \<Rightarrow> u32 nfs_run" where
  "open_reading E fh i =
     nfs_bind (nfs_inode_by_id E i) (\<lambda>n.
     nfs_bind (as_file n) (\<lambda>file s.
     case vfs_open E file (nf_vfs s) of
       Inl _ \<Rightarrow> nfs_fail NFS3ERR_SERVERFAULT s
     | Inr r \<Rightarrow> nfs_return fh (put_file fh (Some (OpenReadOnly r file)) s)))"

definition open_writing :: "env \<Rightarrow> draw \<Rightarrow> bool \<Rightarrow> u32 \<Rightarrow> nat \<Rightarrow> u64 \<Rightarrow> u32 nfs_run" where
  "open_writing E R granted fh m i s =
     (case nfs_bind (nfs_inode_by_id E i) as_file s of
        None \<Rightarrow> None
      | Some Panics \<Rightarrow> Some Panics
      | Some (Returns (Inl e, s1)) \<Rightarrow>
          nfs_fail e (s1\<lparr>nf_locks := lk_release (unat fh) m (nf_locks s1)\<rparr>)
      | Some (Returns (Inr file, s1)) \<Rightarrow>
          (case nfs_call NFS3ERR_IO (\<lambda>v. if granted \<or> v_read_only v then run_once (vfs_open_rw E (dr_now R) (dr_later R) file) v
                     else Some (Returns (Inl (FileLockError AcquisitionTimeout), v))) s1 of
             None \<Rightarrow> None
           | Some Panics \<Rightarrow> Some Panics
           | Some (Returns (Inl e, s2)) \<Rightarrow>
               nfs_fail e (s2\<lparr>nf_locks := lk_drop (unat fh) m (nf_locks s2)\<rparr>)
           | Some (Returns (Inr h, s2)) \<Rightarrow>
               nfs_return fh (put_file fh (Some (OpenReadWrite h m)) s2)))"

definition nfs_close :: "env \<Rightarrow> pace \<Rightarrow> u32 \<Rightarrow> unit nfs_run" where
  "nfs_close E P fh s =
     (let s1 = s\<lparr>nf_files := (nf_files s)(fh := None)\<rparr>
      in case nf_files s fh of
           Some (Some (OpenReadOnly r file)) \<Rightarrow> nfs_return () s1
         | Some (Some (OpenReadWrite h m)) \<Rightarrow>
             (case rw_close E P h (nf_vfs s1) of
                None \<Rightarrow> None
              | Some Panics \<Rightarrow> Some Panics
              | Some (Returns (r, h1, v)) \<Rightarrow>
                  (let s2 = drop_file fh (OpenReadWrite h1 m) (s1\<lparr>nf_vfs := v\<rparr>)
                   in case r of Inl _ \<Rightarrow> nfs_fail NFS3ERR_IO s2 | Inr _ \<Rightarrow> nfs_return () s2))
         | _ \<Rightarrow> nfs_fail NFS3ERR_BADHANDLE s1)"

section \<open>Reading and writing\<close>

text \<open>The number of bytes to read; what is left in the file is truncated to 32 bits (\<open>as u32\<close>).\<close>

definition read_count :: "u64 \<Rightarrow> u64 \<Rightarrow> u32 \<Rightarrow> nat" where
  "read_count len offset asked =
     (if len \<le> offset then 0
      else let available = len - offset in unat (min asked (ucast available)))"

definition read_open_file :: "env \<Rightarrow> pace \<Rightarrow> nat \<Rightarrow> nat \<Rightarrow> u64 \<Rightarrow> open_file \<Rightarrow> vfs \<Rightarrow> ((io_error + bytes) \<times> open_file \<times> vfs) outcome option" where
  "read_open_file E P n limit offset f v =
     (case f of
        OpenReadOnly r file \<Rightarrow>
          (case ro_seek P (SeekStart offset) r v of
             None \<Rightarrow> None
           | Some Panics \<Rightarrow> Some Panics
           | Some (Returns (Inl e, r1, v1)) \<Rightarrow> Some (Returns (Inl e, OpenReadOnly r1 file, v1))
           | Some (Returns (Inr _, r1, v1)) \<Rightarrow>
               map_option (map_outcome (\<lambda>(x, r2, v2). (x, OpenReadOnly r2 file, v2))) (ro_read E P n limit r1 v1))
      | OpenReadWrite h m \<Rightarrow>
          (case rw_seek P (SeekStart offset) h v of
             None \<Rightarrow> None
           | Some Panics \<Rightarrow> Some Panics
           | Some (Returns (Inl e, h1, v1)) \<Rightarrow> Some (Returns (Inl e, OpenReadWrite h1 m, v1))
           | Some (Returns (Inr _, h1, v1)) \<Rightarrow>
               map_option (map_outcome (\<lambda>(x, h2, v2). (x, OpenReadWrite h2 m, v2))) (rw_read E P n limit h1 v1)))"

definition nfs_read_file :: "env \<Rightarrow> pace \<Rightarrow> nat \<Rightarrow> u64 \<Rightarrow> u32 \<Rightarrow> open_file \<Rightarrow> vfs \<Rightarrow> ((io_error + bytes \<times> bool) \<times> open_file \<times> vfs) outcome option" where
  "nfs_read_file E P n offset asked f v =
     (let k = read_count (open_file_len f) offset asked
      in if k = 0 then Some (Returns (Inr ([], True), f, v))
         else map_option (map_outcome (\<lambda>(x, f1, v1).
                ((case x of
                    Inl e \<Rightarrow> Inl e
                  | Inr buf \<Rightarrow>
                      if length buf \<noteq> k then Inl (IoError KOther ''incorrect number of bytes read'')
                      else Inr (buf, open_file_len f1 \<le> offset + of_nat (length buf))), f1, v1)))
              (read_open_file E P n k offset f v))"

definition nfs_read :: "env \<Rightarrow> pace \<Rightarrow> nat \<Rightarrow> u32 \<Rightarrow> u64 \<Rightarrow> u32 \<Rightarrow> (bytes \<times> bool) nfs_run" where
  "nfs_read E P n fh offset asked s =
     (case take_open_file fh s of
        (None, s1) \<Rightarrow> nfs_fail NFS3ERR_BADHANDLE s1
      | (Some f, s1) \<Rightarrow>
          (case nfs_read_file E P n offset asked f (nf_vfs s1) of
             None \<Rightarrow> None
           | Some Panics \<Rightarrow> Some Panics
           | Some (Returns (x, f1, v)) \<Rightarrow>
               nfs_of (case x of Inl _ \<Rightarrow> Inl NFS3ERR_IO | Inr r \<Rightarrow> Inr r) (return_open_file fh f1 (s1\<lparr>nf_vfs := v\<rparr>))))"

definition nfs_write_file :: "env \<Rightarrow> pace \<Rightarrow> timestamp \<Rightarrow> u64 \<Rightarrow> bytes \<Rightarrow> file_handle \<Rightarrow> vfs \<Rightarrow> ((io_error + typed_inode) \<times> file_handle \<times> vfs) outcome option" where
  "nfs_write_file E P modified offset data h v =
     (case rw_seek P (SeekStart offset) h v of
        None \<Rightarrow> None
      | Some Panics \<Rightarrow> Some Panics
      | Some (Returns (Inl e, h1, v1)) \<Rightarrow> Some (Returns (Inl e, h1, v1))
      | Some (Returns (Inr _, h1, v1)) \<Rightarrow>
          (case rw_write_all E P data h1 v1 of
             None \<Rightarrow> None
           | Some Panics \<Rightarrow> Some Panics
           | Some (Returns (Inl e, h2, v2)) \<Rightarrow> Some (Returns (Inl e, h2, v2))
           | Some (Returns (Inr _, h2, v2)) \<Rightarrow>
               map_option (map_outcome (\<lambda>(x, h3, v3).
                 ((case x of Inl e \<Rightarrow> Inl (other_error e) | Inr f \<Rightarrow> Inr f), h3, v3))) (file_fsync E P modified h2 v2)))"

definition nfs_write :: "env \<Rightarrow> pace \<Rightarrow> timestamp \<Rightarrow> u32 \<Rightarrow> u64 \<Rightarrow> bytes \<Rightarrow> fattr nfs_run" where
  "nfs_write E P modified fh offset data s =
     (case take_open_file fh s of
        (None, s1) \<Rightarrow> nfs_fail NFS3ERR_BADHANDLE s1
      | (Some (OpenReadOnly r file), s1) \<Rightarrow> nfs_fail NFS3ERR_ROFS (return_open_file fh (OpenReadOnly r file) s1)
      | (Some (OpenReadWrite h m), s1) \<Rightarrow>
          (case nfs_write_file E P modified offset data h (nf_vfs s1) of
             None \<Rightarrow> None
           | Some Panics \<Rightarrow> Some Panics
           | Some (Returns (x, h1, v)) \<Rightarrow>
               (let s2 = return_open_file fh (OpenReadWrite h1 m) (s1\<lparr>nf_vfs := v\<rparr>)
                in case x of Inl _ \<Rightarrow> nfs_fail NFS3ERR_IO s2 | Inr f \<Rightarrow> nfs_attr (InodeFile f) s2)))"

text \<open>The reaper removes the handles it was told about.\<close>

definition nfs_reap :: "env \<Rightarrow> draw \<Rightarrow> nfs \<Rightarrow> nfs option" where
  "nfs_reap E R s =
     (case nf_dead s of
        [] \<Rightarrow> Some s
      | fh # fhs \<Rightarrow> map_option (\<lambda>v. s\<lparr>nf_vfs := v, nf_dead := fhs\<rparr>) (reap E (dr_now R) (dr_later R) fh (nf_vfs s)))"

end
