(* ===== verification/NfsProps.thy ===== *)
theory NfsProps
  imports Nfs
begin

text \<open>
  What the NFS server promises its clients: a listing read page by page is complete, a read
  asks for the right number of bytes (with the boundary where it does not), and a file is
  open for writing at most once.
\<close>

section \<open>Pages of a directory\<close>

lemma push_entries_take:
  "push_entries k acc ns = acc @ take (max 1 (k - length acc)) ns"
proof (induction ns arbitrary: acc)
  case (Cons n ns)
  show ?case
  proof (cases "k \<le> Suc (length acc)")
    case True
    then have "max 1 (k - length acc) = 1" by simp
    with True show ?thesis by simp
  next
    case False
    then have "max 1 (k - length acc) = Suc (max 1 (k - length (acc @ [n])))" by simp
    with False Cons show ?thesis by simp
  qed
qed simp

lemma position_nth: "distinct (map f xs) \<Longrightarrow> k < length xs \<Longrightarrow> position (\<lambda>x. f x = f (xs ! k)) xs = Some k"
proof (induction xs arbitrary: k)
  case (Cons x xs)
  show ?case
  proof (cases k)
    case (Suc j)
    with Cons.prems have j: "j < length xs" by simp
    then have "f (xs ! j) \<in> f ` set xs" by simp
    with Cons.prems(1) have "f x \<noteq> f (xs ! j)" by auto
    with Cons.IH [OF _ j] Cons.prems(1) Suc show ?thesis by simp
  qed simp
qed simp

text \<open>
  A client that lists a directory: it asks again with the id of the last entry it got, until
  an answer says that it is the last.
\<close>

fun read_all_pages :: "nat \<Rightarrow> nat \<Rightarrow> inode list \<Rightarrow> u64 \<Rightarrow> (nfsstat + inode list) option" where
  "read_all_pages 0 max_entries inodes cookie = None"
| "read_all_pages (Suc calls) max_entries inodes cookie =
     (case dir_page cookie max_entries inodes of
        Inl e \<Rightarrow> Some (Inl e)
      | Inr (entries, end_reached) \<Rightarrow>
          if end_reached then Some (Inr entries)
          else (case read_all_pages calls max_entries inodes (inode_id_of (last entries)) of
                  None \<Rightarrow> None
                | Some (Inl e) \<Rightarrow> Some (Inl e)
                | Some (Inr others) \<Rightarrow> Some (Inr (entries @ others))))"

lemma read_pages_from:
  assumes d: "distinct (map inode_id_of inodes)" and pos: "0 \<notin> set (map inode_id_of inodes)"
  shows "j \<le> length inodes \<Longrightarrow> length inodes - j < calls \<Longrightarrow>
    cookie = (if j = 0 then 0 else inode_id_of (inodes ! (j - 1))) \<Longrightarrow>
    read_all_pages calls k inodes cookie = Some (Inr (drop j inodes))"
proof (induction calls arbitrary: j cookie)
  case (Suc calls)
  let ?page = "take (max 1 k) (drop j inodes)"
  have "(if 0 < cookie then map_option Suc (position (\<lambda>n. inode_id_of n = cookie) inodes) else Some 0) = Some j"
  proof (cases "j = 0")
    case False
    with Suc.prems have lt: "j - 1 < length inodes" by simp
    then have "inode_id_of (inodes ! (j - 1)) \<in> set (map inode_id_of inodes)" by simp
    with pos have "0 < inode_id_of (inodes ! (j - 1))" by (metis word_neq_0_conv)
    with position_nth [OF d lt] Suc.prems(3) False show ?thesis by simp
  qed (use Suc.prems in simp)
  then have page: "dir_page cookie k inodes = Inr (?page, length ?page = length inodes - j)"
    by (simp add: dir_page_def push_entries_take)
  show ?case
  proof (cases "length ?page = length inodes - j")
    case True
    then have "length inodes - j \<le> max 1 k" by (simp add: min_def split: if_splits)
    then have "?page = drop j inodes" by (intro take_all) simp
    with page True show ?thesis by simp
  next
    case False
    let ?i = "j + length ?page"
    from False have m: "max 1 k < length inodes - j" by (simp add: min_def not_le split: if_splits)
    then have i: "?i \<le> length inodes" "?i \<noteq> 0" "length inodes - ?i < calls"
      using Suc.prems(2) by auto
    have "last ?page = ?page ! (length ?page - 1)" using m by (intro last_conv_nth) auto
    also have "\<dots> = inodes ! (?i - 1)" using m i(1) by (simp add: min_absorb2 nth_drop le_max_iff_disj)
    finally have cookie: "inode_id_of (last ?page) = (if ?i = 0 then 0 else inode_id_of (inodes ! (?i - 1)))"
      by (simp only: i(2) if_False simp_thms)
    from Suc.IH [OF i(1) i(3) cookie]
    have "read_all_pages calls k inodes (inode_id_of (last ?page)) = Some (Inr (drop ?i inodes))" .
    moreover have "?page @ drop ?i inodes = drop j inodes"
    proof -
      have "length ?page = max 1 k" using m by (simp only: length_take length_drop min_absorb2 less_imp_le)
      then show ?thesis by (simp only: add.commute [of j] append_take_drop_id flip: drop_drop)
    qed
    ultimately show ?thesis using page False by simp
  qed
qed simp

text \<open>
  C10: a client that reads a directory page by page, with pages of any size, even zero, gets
  every entry exactly once and in order, after at most one call per entry and one more.
\<close>

theorem nfs_paging_complete:
  assumes "distinct (map inode_id_of inodes)" and "0 \<notin> set (map inode_id_of inodes)"
  shows "read_all_pages (Suc (length inodes)) k inodes 0 = Some (Inr inodes)"
  using read_pages_from [OF assms, of 0 "Suc (length inodes)" 0 k] by simp

definition page_file :: "inode_id \<Rightarrow> inode" where
  "page_file i = InodeFile \<lparr>ti_parent = Some 1, ti_id = i, ti_path = [47, 100],
     ti_entity = \<lparr>ent_inner = \<lparr>re_id = [], re_name = [100], re_revision = [], re_created = 0, re_last_modified = 0,
       re_body = FileBody (2 ^ 32) [], re_cart = []\<rparr>, ent_mode = LocalMode\<rparr>\<rparr>"

theorem nfs_paging_complete_witness:
  "read_all_pages 4 2 [page_file 1000, page_file 1001, page_file 1002] 0
     = Some (Inr [page_file 1000, page_file 1001, page_file 1002])"
proof -
  let ?ns = "[page_file 1000, page_file 1001, page_file 1002]"
  have ids: "inode_id_of (page_file i) = i" for i by (simp add: page_file_def inode_id_of_def)
  have calls: "Suc (length ?ns) = 4" by simp
  have "read_all_pages (Suc (length ?ns)) 2 ?ns 0 = Some (Inr ?ns)"
    by (rule nfs_paging_complete) (simp_all add: ids)
  then show ?thesis unfolding calls .
qed

section \<open>The number of bytes to read\<close>

lemma unat_min: "unat (min a b :: 'a::len word) = min (unat a) (unat b)"
  by (simp add: min_def word_le_nat_alt)

lemma read_count_mod:
  "read_count len offset asked =
     (if len \<le> offset then 0 else min (unat asked) ((unat len - unat offset) mod 2 ^ 32))"
proof (cases "len \<le> offset")
  case False
  then have "unat (len - offset) = unat len - unat offset" by (simp add: unat_diff_le)
  then have "unat (ucast (len - offset) :: u32) = (unat len - unat offset) mod 2 ^ 32"
    by (simp add: unsigned_ucast_eq take_bit_eq_mod)
  with False show ?thesis by (simp add: read_count_def Let_def unat_min)
qed (simp add: read_count_def)


text \<open>
  C11: a read at an offset with an exact multiple of 4 GiB left returns no bytes and says that
  the end of the file is reached, whatever the client asks for, and changes nothing.
\<close>

theorem nfs_read_false_end:
  assumes "nf_files s fh = Some (Some f)" and "offset < open_file_len f"
    and "(unat (open_file_len f) - unat offset) mod 2 ^ 32 = 0"
  shows "nfs_read E P n fh offset asked s = Some (Returns (Inr ([], True), s))"
proof -
  have none: "read_count (open_file_len f) offset asked = 0"
    using assms(3) read_count_mod [of "open_file_len f" offset asked] by simp
  have "nfs_read_file E P n offset asked f v = Some (Returns (Inr ([], True), f, v))" for v
    by (simp add: nfs_read_file_def none)
  moreover have "take_open_file fh s = (Some f, put_file fh None s)"
    using assms(1) by (simp add: take_open_file_def)
  moreover have "return_open_file fh f ((put_file fh None s)\<lparr>nf_vfs := nf_vfs (put_file fh None s)\<rparr>) = s"
    using assms(1) by (simp add: return_open_file_def put_file_def fun_upd_idem)
  ultimately show ?thesis by (simp add: nfs_read_def nfs_of_def nfs_return_def)
qed

text \<open>A server with one handle open for reading on a file of 4 GiB.\<close>

definition big_handle :: open_file where
  "big_handle = OpenReadOnly (new_reader store_blob store_vfs) (typed_inode_of (page_file 1000))"

definition big_server :: nfs where
  "big_server = \<lparr>nf_vfs = store_vfs, nf_uid = 0, nf_gid = 0, nf_file_mode = 0, nf_dir_mode = 0, nf_root_id = 1,
     nf_fs_id = 0, nf_files = (\<lambda>_. None)(7 \<mapsto> Some big_handle), nf_locks = lk_new, nf_dead = []\<rparr>"

lemma big_len: "open_file_len big_handle = 0x100000000"
  by (simp add: big_handle_def open_file_len_def page_file_def file_len_def)

theorem nfs_read_false_end_witness:
  "nfs_read store_env \<lparr>pc_polls = 1, pc_pending = [], pc_now = 0, pc_later = 0\<rparr> 4096 7 0 1024 big_server = Some (Returns (Inr ([], True), big_server))
   \<and> 0 < unat (open_file_len big_handle)"
  using nfs_read_false_end [of big_server 7 big_handle 0 store_env "\<lparr>pc_polls = 1, pc_pending = [], pc_now = 0, pc_later = 0\<rparr>" 4096 1024]
  by (simp add: big_len big_server_def)

section \<open>What handlers leave alone\<close>

text \<open>The handlers on inodes touch neither the open files nor the semaphores.\<close>

definition frames :: "'a nfs_run \<Rightarrow> bool" where
  "frames m \<longleftrightarrow> (\<forall>s r s'. m s = Some (Returns (r, s')) \<longrightarrow> nf_files s' = nf_files s \<and> nf_locks s' = nf_locks s)"

named_theorems frame_intros

lemma frames_basic [frame_intros]: "frames (nfs_return a)" "frames (nfs_fail e)" "frames (nfs_attr n)" "frames (nfs_of r)"
  by (auto simp: frames_def nfs_return_def nfs_fail_def nfs_attr_def nfs_of_def split: sum.split)

lemma frames_call [frame_intros]: "frames (nfs_call e m)"
  by (auto simp: frames_def nfs_call_def split: option.splits outcome.splits sum.splits prod.splits)

lemma frames_bind [frame_intros]: "frames m \<Longrightarrow> (\<And>a. frames (f a)) \<Longrightarrow> frames (nfs_bind m f)"
  unfolding frames_def nfs_bind_def
  by (fastforce split: option.splits outcome.splits sum.splits prod.splits)

lemma frames_case [frame_intros]:
  "(\<And>a. frames (f a)) \<Longrightarrow> frames g \<Longrightarrow> frames (case x of Some a \<Rightarrow> f a | None \<Rightarrow> g)"
  "(\<And>a. frames (h a)) \<Longrightarrow> (\<And>a. frames (k a)) \<Longrightarrow> frames (case n of InodeFile a \<Rightarrow> h a | InodeDirectory a \<Rightarrow> k a)"
  "frames m \<Longrightarrow> frames m' \<Longrightarrow> frames (if b then m else m')"
  by (auto split: option.split inode.split)

lemma frames_inode [frame_intros]: "frames (nfs_inode_by_id E i)" "frames (as_directory e n)" "frames (as_file n)"
  unfolding nfs_inode_by_id_def as_directory_def as_file_def by (intro frame_intros)+

lemma frames_parent [frame_intros]: "frames (inode_by_dir_name E i name)" "frames (directory_by_id E e i)"
  unfolding inode_by_dir_name_def directory_by_id_def by (intro frame_intros)+

lemma frames_create [frame_intros]: "frames (nfs_create_exclusive E R i name)"
  unfolding nfs_create_exclusive_def by (intro frame_intros)

lemma frames_page [frame_intros]:
  "frames (\<lambda>s. nfs_return (g s) s)" "frames (case p of (a, b) \<Rightarrow> \<lambda>s. nfs_return (h s a b) s)"
  by (auto simp: frames_def nfs_return_def split: prod.split)

lemma frames_handlers:
  "frames (nfs_lookup E i name)" "frames (nfs_getattr E i)" "frames (nfs_setattr E i attrs)" "frames (nfs_create E R i name)"
  "frames (nfs_mkdir E R i name)" "frames (nfs_remove E R i name)" "frames (nfs_rename E R R' i name j name')"
  "frames (nfs_symlink i name target)" "frames (nfs_readlink i)" "frames (nfs_fsinfo E i)" "frames (nfs_readdir E i cookie k)"
  unfolding nfs_lookup_def nfs_getattr_def nfs_setattr_def nfs_create_def nfs_mkdir_def nfs_remove_def nfs_rename_def
    nfs_symlink_def nfs_readlink_def nfs_fsinfo_def nfs_readdir_def
  by (intro frame_intros)+

section \<open>One writer per file\<close>

text \<open>
  The server, one atomic part of a handler after another. A handle id is drawn fresh; the
  permit of a semaphore is granted when it is free; what a file is opened by is the key of its
  semaphore. Every handler on inodes, with its answer dropped, is a step \<open>on_inodes\<close>.
\<close>

inductive nfs_step :: "env \<Rightarrow> nfs \<Rightarrow> nfs \<Rightarrow> bool" for E :: env where
  entered: "nf_files s fh = None \<Longrightarrow> nfs_step E s (open_enter mode fh i s)"
| permitted: "(unat fh, m) \<in> set (lk_waiting (nf_locks s)) \<Longrightarrow> m \<notin> snd ` set (lk_held (nf_locks s)) \<Longrightarrow>
    nfs_step E s (s\<lparr>nf_locks := lk_grant (unat (fh :: u32)) m (nf_locks s)\<rparr>)"
| opened_reading: "nf_files s fh = Some None \<Longrightarrow> open_reading E fh i s = Some (Returns (r, s')) \<Longrightarrow> nfs_step E s s'"
| opened_writing: "nf_files s fh = Some None \<Longrightarrow> (unat fh, m) \<in> set (lk_held (nf_locks s)) \<Longrightarrow>
    open_writing E R granted fh m (lk_key (nf_locks s) m) s = Some (Returns (r, s')) \<Longrightarrow> nfs_step E s s'"
| closed: "nfs_close E P fh s = Some (Returns (r, s')) \<Longrightarrow> nfs_step E s s'"
| was_read: "nfs_read E P n fh offset asked s = Some (Returns (r, s')) \<Longrightarrow> nfs_step E s s'"
| was_written: "nfs_write E P modified fh offset data s = Some (Returns (r, s')) \<Longrightarrow> nfs_step E s s'"
| reaped: "nfs_reap E R s = Some s' \<Longrightarrow> nfs_step E s s'"
| on_inodes: "frames (m :: unit nfs_run) \<Longrightarrow> m s = Some (Returns (r, s')) \<Longrightarrow> nfs_step E s s'"

inductive nfs_reachable :: "env \<Rightarrow> nfs \<Rightarrow> bool" for E :: env where
  fresh: "nfs_new E uid gid file_mode dir_mode v = Inr s \<Longrightarrow> nfs_reachable E s"
| later: "nfs_reachable E s \<Longrightarrow> nfs_step E s s' \<Longrightarrow> nfs_reachable E s'"

inductive_cases nfs_stepE: "nfs_step E s s'"

text \<open>Every file open for writing holds the permit it was opened with.\<close>

definition permits :: "(u32 \<Rightarrow> open_file option option) \<Rightarrow> u64 lock_state \<Rightarrow> bool" where
  "permits files locks \<longleftrightarrow> lk_inv locks
     \<and> (\<forall>fh h m. files fh = Some (Some (OpenReadWrite h m)) \<longrightarrow> (unat fh, m) \<in> set (lk_held locks))"

lemma permitsD: "permits files locks \<Longrightarrow> files fh = Some (Some (OpenReadWrite h m)) \<Longrightarrow> (unat fh, m) \<in> set (lk_held locks)"
  by (simp add: permits_def)

lemma permits_inv: "permits files locks \<Longrightarrow> lk_step locks locks' \<Longrightarrow> lk_inv locks'"
  by (auto simp: permits_def intro: lk_inv_step)

lemma held_grant: "set (lk_held (lk_grant t m l)) = insert (t, m) (set (lk_held l))"
  by (auto simp: lk_grant_def)

lemma held_enter: "lk_held (lk_enter t i l) = lk_held l"
  by (simp add: lk_enter_def split: option.split)

lemma held_sweep: "lk_held (lk_sweep l) = lk_held l"
  by (simp add: lk_sweep_def)

lemma held_release: "p \<in> set (lk_held l) \<Longrightarrow> p \<noteq> (t, m) \<Longrightarrow> p \<in> set (lk_held (lk_release t m l))"
  by (simp add: lk_release_def)

lemma permits_lock:
  assumes "permits files locks" and "lk_step locks locks'" and "set (lk_held locks) \<subseteq> set (lk_held locks')"
  shows "permits files locks'"
  using assms permits_inv [OF assms(1,2)] by (auto simp: permits_def)

lemma permits_put:
  assumes "permits files locks" and "\<And>h m. slot = Some (OpenReadWrite h m) \<Longrightarrow> (unat fh, m) \<in> set (lk_held locks)"
  shows "permits (files(fh \<mapsto> slot)) locks"
  using assms by (auto simp: permits_def)

lemma permits_remove: "permits files locks \<Longrightarrow> permits (files(fh := None)) locks"
  by (auto simp: permits_def)

lemma permits_release:
  assumes p: "permits files locks" and held: "(unat fh, m) \<in> set (lk_held locks)"
    and closed: "\<And>h m. files fh \<noteq> Some (Some (OpenReadWrite h m))"
  shows "permits files (lk_release (unat fh) m locks)" and "permits files (lk_drop (unat fh) m locks)"
proof -
  have step: "lk_step locks (lk_release (unat fh) m locks)" using held by (rule lk_step.release)
  have "(unat fh', m') \<in> set (lk_held (lk_release (unat fh) m locks))" if "files fh' = Some (Some (OpenReadWrite h m'))" for fh' h m'
  proof -
    have "fh' \<noteq> fh" using that closed by blast
    then have "(unat fh', m') \<noteq> (unat fh, m)" by (simp add: word_unat_eq_iff)
    with held_release permitsD [OF p that] show ?thesis by blast
  qed
  with permits_inv [OF p step] show released: "permits files (lk_release (unat fh) m locks)" by (auto simp: permits_def)
  show "permits files (lk_drop (unat fh) m locks)"
    unfolding lk_drop_def by (rule permits_lock [OF released lk_step.sweep]) (simp add: held_sweep)
qed

text \<open>Reading leaves a handle the kind of handle it is, with its permit.\<close>

fun same_kind :: "open_file \<Rightarrow> open_file \<Rightarrow> bool" where
  "same_kind (OpenReadWrite h m) (OpenReadWrite h' m') = (m = m')"
| "same_kind (OpenReadOnly r f) (OpenReadOnly r' f') = True"
| "same_kind _ _ = False"

lemma same_kind_refl [simp]: "same_kind f f"
  by (cases f) simp_all

lemma map_outcome_returns: "map_outcome g z = Returns y \<longleftrightarrow> (\<exists>x. z = Returns x \<and> y = g x)"
  by (cases z) auto

lemma read_open_same_kind: "read_open_file E P n k offset f v = Some (Returns (y, f', v')) \<Longrightarrow> same_kind f f'"
  by (cases f) (auto simp: read_open_file_def map_outcome_returns split: option.splits outcome.splits sum.splits prod.splits)

lemma read_same_kind: "nfs_read_file E P n offset asked f v = Some (Returns (x, f', v')) \<Longrightarrow> same_kind f f'"
  by (auto simp: nfs_read_file_def Let_def map_outcome_returns dest: read_open_same_kind split: if_splits prod.splits)

lemma same_kind_permit:
  assumes p: "permits files locks" and f: "files fh = Some (Some f)" and same: "same_kind f f'"
  shows "permits (files(fh \<mapsto> Some f')) locks"
proof (rule permits_put [OF p])
  fix h m assume "Some f' = Some (OpenReadWrite h m)"
  with same obtain h0 where "f = OpenReadWrite h0 m" by (cases f) auto
  with permitsD [OF p] f show "(unat fh, m) \<in> set (lk_held locks)" by blast
qed

lemma put_file_simps: "nf_files (put_file fh slot s) = (nf_files s)(fh \<mapsto> slot)" "nf_locks (put_file fh slot s) = nf_locks s"
  by (simp_all add: put_file_def)

lemma permits_same: "permits f l \<Longrightarrow> f' = f \<Longrightarrow> l' = l \<Longrightarrow> permits f' l'"
  by (simp only:)

lemma step_permits: "nfs_step E s s' \<Longrightarrow> permits (nf_files s) (nf_locks s) \<Longrightarrow> permits (nf_files s') (nf_locks s')"
proof (induction rule: nfs_step.induct)
  case (entered s fh mode i)
  have put: "permits ((nf_files s)(fh \<mapsto> None)) (nf_locks s)" using entered.prems by (rule permits_put) simp
  show ?case
  proof (cases mode)
    case ForReading
    with put show ?thesis by (simp add: open_enter_def put_file_def Let_def fun_upd_def)
  next
    case ForReadWrite
    with permits_lock [OF put lk_step.enter, of "unat fh" i] show ?thesis
      by (simp add: open_enter_def put_file_def Let_def held_enter fun_upd_def)
  qed
next
  case (permitted fh m s)
  from permits_lock [OF permitted.prems lk_step.grant [OF permitted.hyps]] show ?case by (auto simp: held_grant)
next
  case (opened_reading s fh i r s')
  let ?m = "nfs_bind (nfs_inode_by_id E i) as_file"
  have f: "frames ?m" by (intro frame_intros)
  from opened_reading.hyps(2) obtain q s1 where q: "?m s = Some (Returns (q, s1))"
    and out: "s' = s1 \<or> (\<exists>r f. s' = put_file fh (Some (OpenReadOnly r f)) s1)"
    by (auto simp: open_reading_def nfs_bind_def nfs_fail_def nfs_return_def split: option.splits outcome.splits sum.splits prod.splits)
  from f q have same: "nf_files s1 = nf_files s" "nf_locks s1 = nf_locks s" by (auto simp: frames_def)
  from out show ?case
  proof
    assume "\<exists>r f. s' = put_file fh (Some (OpenReadOnly r f)) s1"
    then obtain r f where "s' = put_file fh (Some (OpenReadOnly r f)) s1" by blast
    with permits_put [OF opened_reading.prems, of "Some (OpenReadOnly r f)" fh] same show ?thesis
      by (simp only: put_file_simps open_file.distinct option.inject)
  qed (use opened_reading.prems same in simp)
next
  case (opened_writing s fh m R granted r s')
  let ?m = "nfs_bind (nfs_inode_by_id E (lk_key (nf_locks s) m)) as_file"
  have f: "frames ?m" by (intro frame_intros)
  note p = opened_writing.prems and held = opened_writing.hyps(2)
  have free: "nf_files s fh \<noteq> Some (Some (OpenReadWrite h m))" for h m using opened_writing.hyps(1) by simp
  have opened: "permits ((nf_files s)(fh \<mapsto> Some (OpenReadWrite h m))) (nf_locks s)" for h
    using held by (intro permits_put [OF p]) simp
  from opened_writing.hyps(3) consider q s1 where "?m s = Some (Returns (q, s1))" "nf_files s' = nf_files s1"
      "nf_locks s' = lk_release (unat fh) m (nf_locks s1)"
    | q s1 where "?m s = Some (Returns (q, s1))" "nf_files s' = nf_files s1" "nf_locks s' = lk_drop (unat fh) m (nf_locks s1)"
    | q s1 h where "?m s = Some (Returns (q, s1))" "nf_files s' = (nf_files s1)(fh \<mapsto> Some (OpenReadWrite h m))" "nf_locks s' = nf_locks s1"
    by (auto simp: open_writing_def put_file_simps nfs_call_def nfs_fail_def nfs_return_def
        split: option.splits outcome.splits sum.splits prod.splits)
  then show ?case
  proof cases
    case (1 q s1)
    with f permits_release(1) [OF p held free] show ?thesis by (auto simp: frames_def)
  next
    case (2 q s1)
    with f permits_release(2) [OF p held free] show ?thesis by (auto simp: frames_def)
  next
    case (3 q s1 h)
    from f 3(1) have "nf_files s1 = nf_files s" "nf_locks s1 = nf_locks s" by (auto simp: frames_def)
    with 3 opened [of h] show ?thesis by (simp only:)
  qed
next
  case (closed P fh s r s')
  note p = closed.prems
  then have gone: "permits ((nf_files s)(fh := None)) (nf_locks s)" by (rule permits_remove)
  show ?case
  proof (cases "\<exists>h m. nf_files s fh = Some (Some (OpenReadWrite h m))")
    case True
    then obtain h m where f: "nf_files s fh = Some (Some (OpenReadWrite h m))" by blast
    have "((nf_files s)(fh := None)) fh \<noteq> Some (Some (OpenReadWrite h' m'))" for h' m' by simp
    note rel = permits_release(2) [OF gone permitsD [OF p f] this]
    have "nf_files s' = (nf_files s)(fh := None) \<and> nf_locks s' = lk_drop (unat fh) m (nf_locks s)"
      using closed.hyps f by (auto simp: nfs_close_def Let_def drop_file_def nfs_fail_def nfs_return_def
          split: option.splits outcome.splits sum.splits prod.splits)
    then show ?thesis by (elim conjE) (rule permits_same [OF rel])
  next
    case False
    then have "nf_files s' = (nf_files s)(fh := None) \<and> nf_locks s' = nf_locks s"
      using closed.hyps by (auto simp: nfs_close_def Let_def nfs_fail_def nfs_return_def
          split: option.splits open_file.splits)
    then show ?thesis by (elim conjE) (rule permits_same [OF gone])
  qed
next
  case (was_read P n fh offset asked s r s')
  show ?case
  proof (cases "\<exists>f. nf_files s fh = Some (Some f)")
    case True
    then obtain f where f: "nf_files s fh = Some (Some f)" by blast
    with was_read.hyps obtain x f1 v where run: "nfs_read_file E P n offset asked f (nf_vfs s) = Some (Returns (x, f1, v))"
      and s': "nf_files s' = (nf_files s)(fh \<mapsto> Some f1)" "nf_locks s' = nf_locks s"
      by (auto simp: nfs_read_def take_open_file_def put_file_def return_open_file_def nfs_of_def nfs_fail_def nfs_return_def
          split: option.splits outcome.splits sum.splits prod.splits)
    show ?thesis by (rule permits_same [OF same_kind_permit [OF was_read.prems f read_same_kind [OF run]] s'])
  next
    case False
    then have "nf_locks s' = nf_locks s \<and> (nf_files s' = nf_files s \<or> nf_files s' = (nf_files s)(fh \<mapsto> None))"
      using was_read.hyps by (auto simp: nfs_read_def take_open_file_def put_file_def nfs_fail_def split: option.splits)
    then show ?thesis using permits_same [OF was_read.prems] permits_same [OF permits_put [OF was_read.prems, of None fh]] by blast
  qed
next
  case (was_written P modified fh offset data s r s')
  show ?case
  proof (cases "\<exists>f. nf_files s fh = Some (Some f)")
    case True
    then obtain f where f: "nf_files s fh = Some (Some f)" by blast
    with was_written.hyps have "\<exists>f1. same_kind f f1 \<and> nf_files s' = (nf_files s)(fh \<mapsto> Some f1) \<and> nf_locks s' = nf_locks s"
      by (intro exI [of _ "the (the (nf_files s' fh))"], cases f) (auto simp: nfs_write_def take_open_file_def put_file_def return_open_file_def nfs_attr_def nfs_fail_def
          nfs_return_def Let_def split: option.splits outcome.splits sum.splits prod.splits)
    then obtain f1 where "same_kind f f1"
      and s': "nf_files s' = (nf_files s)(fh \<mapsto> Some f1)" "nf_locks s' = nf_locks s" by blast
    show ?thesis by (rule permits_same [OF same_kind_permit [OF was_written.prems f \<open>same_kind f f1\<close>] s'])
  next
    case False
    then have "nf_locks s' = nf_locks s \<and> (nf_files s' = nf_files s \<or> nf_files s' = (nf_files s)(fh \<mapsto> None))"
      using was_written.hyps by (auto simp: nfs_write_def take_open_file_def put_file_def nfs_fail_def split: option.splits)
    then show ?thesis using permits_same [OF was_written.prems] permits_same [OF permits_put [OF was_written.prems, of None fh]] by blast
  qed
next
  case (reaped R s s')
  then show ?case by (auto simp: nfs_reap_def split: list.splits)
next
  case (on_inodes m s r s')
  then show ?case by (simp add: frames_def)
qed

lemma reachable_permits: "nfs_reachable E s \<Longrightarrow> permits (nf_files s) (nf_locks s)"
proof (induction rule: nfs_reachable.induct)
  case (fresh uid gid file_mode dir_mode v s)
  have "lk_inv lk_new" by (rule lk_reachable_inv [OF lk_reachable.start])
  with fresh show ?case by (auto simp: nfs_new_def permits_def split: sum.splits prod.splits)
qed (rule step_permits)


text \<open>A server on a file system with one file, which one handle holds open for writing.\<close>

definition lock_env :: env where
  "lock_env = tree_env\<lparr>ev_entity := \<lparr>enc_entity = fl_id, dec_entity = (\<lambda>_. Some \<lparr>fl_id = replicate 16 3, fl_name = [100],
     fl_created = 7, fl_last_modified = 8, fl_body = FlatFile 0 (replicate 32 0)\<rparr>)\<rparr>\<rparr>"

definition lock_file :: typed_inode where
  "lock_file = \<lparr>ti_parent = Some 1, ti_id = 2000, ti_path = [47, 100], ti_entity = \<lparr>ent_inner =
     \<lparr>re_id = replicate 16 3, re_name = [100], re_revision = replicate 32 0, re_created = 7, re_last_modified = 8,
      re_body = FileBody 0 (replicate 32 0), re_cart = [9]\<rparr>, ent_mode = LocalMode\<rparr>\<rparr>"

definition lock_root :: typed_inode where
  "lock_root = \<lparr>ti_parent = None, ti_id = 1, ti_path = [47], ti_entity = \<lparr>ent_inner =
     \<lparr>re_id = replicate 16 2, re_name = [100], re_revision = replicate 32 0, re_created = 7, re_last_modified = 8,
      re_body = DirectoryBody [(replicate 16 3, replicate 32 0)], re_cart = [9]\<rparr>, ent_mode = LocalMode\<rparr>\<rparr>"

definition lock_db :: db where
  "lock_db = empty_db\<lparr>t_blob := [(replicate 32 0, \<lparr>bo_ref_count = 1, bo_size = 0, bo_object = None\<rparr>)],
     t_entity := [((replicate 16 3, replicate 32 0), \<lparr>er_ref_count = 1, er_name = [100], er_type = File, er_mode = Local [9]\<rparr>)],
     t_vfs := [(2000, \<lparr>vf_type = File, vf_key = (replicate 16 3, replicate 32 0), vf_name = [100], vf_parent = Some 1,
       vf_path = Some [47, 100], vf_dirty = False\<rparr>)],
     t_config := [\<lparr>cfr_vfs_id = [7], cfr_head = [109], cfr_last_modified = 0, cfr_chunk_size = 4, cfr_mode = Local []\<rparr>]\<rparr>"

definition lock_vfs :: vfs where
  "lock_vfs = \<lparr>v_id = [7], v_head = Tag [109], v_read_only = False, v_db = lock_db,
     v_caches = \<lparr>path_cache = (\<lambda>_. None), inode_cache = (\<lambda>_. None)
       (1 \<mapsto> Some (InodeDirectory lock_root), 2000 \<mapsto> Some (InodeFile lock_file)), chunk_cache = (\<lambda>_. None)\<rparr>\<rparr>"

lemma lock_row: "local_try_from_row (ev_hasher lock_env) (ev_entity lock_env) (ev_millis lock_env) File (replicate 32 0) (Local [9])
    = Inr (ti_entity lock_file)"
  by (simp add: local_try_from_row_def lock_env_def tree_env_def lock_file_def raw_try_from_flatbuffer_def tree_name_ok
      timestamp_from_millis_def del: replicate.simps)

lemma lock_entity: "entity_by_key lock_env File (replicate 16 3, replicate 32 0) lock_db = Inr (Some (ti_entity lock_file), lock_db)"
  by (simp add: entity_by_key_def lock_row tx_bind_def tx_get_def tx_return_def lock_db_def owned_name_try_from_def tree_name_ok
      lock_file_def entity_key_of_def del: replicate.simps)

lemma lock_path: "sanitize_path (ev_path lock_env) [47, 100] = Inr [47, 100]"
  by code_simp

lemma lock_inode: "inode_by_id lock_env 2000 lock_db = Inr (Some (InodeFile lock_file), lock_db)"
proof -
  have "map_of (t_vfs lock_db) 2000 = Some \<lparr>vf_type = File, vf_key = (replicate 16 3, replicate 32 0), vf_name = [100],
      vf_parent = Some 1, vf_path = Some [47, 100], vf_dirty = False\<rparr>" by (simp add: lock_db_def)
  then show ?thesis by (simp add: inode_by_id_def tx_bind_def tx_get_def tx_return_def lock_path lock_entity tx_some_def)
     (simp add: lock_file_def)
qed

definition lock_blob :: blob where
  "lock_blob = \<lparr>bl_id = replicate 32 0, bl_mode = Local [], bl_chunk_map = \<lparr>cm_len = 0, cm_entries = []\<rparr>\<rparr>"

lemma lock_blob_there: "file_blob lock_env lock_file lock_vfs = Inr lock_blob"
  by code_simp

definition lock_opened :: db where
  "lock_opened = lock_db\<lparr>t_fh := [(1, 2000)], t_fh_seq := 1\<rparr>"

lemma lock_body: "open_body lock_env lock_file (lock_db\<lparr>t_change_log := []\<rparr>) = Inr ((1, lock_file), lock_opened)"
proof -
  have same: "lock_db\<lparr>t_change_log := []\<rparr> = lock_db" by (simp add: lock_db_def empty_db_def)
  have "ti_id lock_file = 2000" by (simp add: lock_file_def)
  then show ?thesis unfolding same
    by (simp add: open_body_def db_tx_def tx_bind_def lock_inode tx_some_def tx_return_def)
      (simp add: create_fh_def lock_db_def empty_db_def lock_opened_def)
qed

lemma lock_commit: "commit_tx lock_env None 1 2 lock_opened
    = Some (Inr (\<lparr>affected_inode_ids = [], affected_chunk_ids = []\<rparr>, lock_opened))"
proof -
  have "dirty_leaves lock_opened = []" by (simp add: dirty_leaves_def lock_opened_def lock_db_def)
  then have "process_dirty_inodes lock_env lock_opened = Some (Inr ((), lock_opened))"
    by (simp add: process_dirty_inodes.simps)
  moreover have "t_change_log lock_opened = []" by (simp add: lock_opened_def lock_db_def empty_db_def)
  ultimately show ?thesis
    by (simp add: commit_tx_def commit_config_def tx_bind_def tx_return_def get_changelog_def tx_get_def clear_changelog_def
        List.map_filter_def)
qed

definition lock_handle :: file_handle where
  "lock_handle = \<lparr>fhd_id = 1, fhd_writer = new_writer (into_mut lock_blob) (lock_vfs\<lparr>v_db := lock_opened\<rparr>) 4,
     fhd_file = inode_into_mut lock_file, fhd_armed = True\<rparr>"

lemma lock_open: "vfs_open_rw lock_env 1 2 lock_file lock_vfs = Some (Inr lock_handle, lock_vfs\<lparr>v_db := lock_opened\<rparr>)"
proof -
  have v: "v_read_only lock_vfs = False" "v_db lock_vfs = lock_db" "v_head lock_vfs = Tag [109]"
    by (simp_all add: lock_vfs_def)
  have "write_tx lock_env 1 2 (open_body lock_env lock_file) lock_vfs = Some (Inr (1, lock_file), lock_vfs\<lparr>v_db := lock_opened\<rparr>)"
    by (simp add: write_tx_def write_tx_as_def v lock_body lock_commit maybe_branch_name_def invalidate_caches_def)
  moreover have "vfs_max_chunk_size (lock_vfs\<lparr>v_db := lock_opened\<rparr>) = Inr 4"
    by (simp add: vfs_max_chunk_size_def read_tx_def db_tx_def chunk_size_def tx_bind_def tx_get_def tx_row_def tx_some_def
        tx_return_def lock_opened_def lock_db_def first_opt_def)
  ultimately show ?thesis
    by (simp add: vfs_open_rw_def v lock_blob_there lock_handle_def)
qed

definition lock_server :: nfs where
  "lock_server = \<lparr>nf_vfs = lock_vfs, nf_uid = 0, nf_gid = 0, nf_file_mode = 0, nf_dir_mode = 0, nf_root_id = 1, nf_fs_id = 0,
     nf_files = (\<lambda>_. None), nf_locks = lk_new, nf_dead = []\<rparr>"

definition lock_served :: nfs where
  "lock_served = put_file 7 (Some (OpenReadWrite lock_handle 0))
     ((open_enter ForReadWrite 7 2000 lock_server)\<lparr>nf_locks := lk_grant 7 0 (lk_enter 7 2000 lk_new),
        nf_vfs := lock_vfs\<lparr>v_db := lock_opened\<rparr>\<rparr>)"

lemma lock_cached: "inode_cache (v_caches lock_vfs) 1 = Some (Some (InodeDirectory lock_root))"
  "inode_cache (v_caches lock_vfs) 2000 = Some (Some (InodeFile lock_file))"
  by (simp_all add: lock_vfs_def)

lemma lock_fresh: "nfs_new lock_env 0 0 0 0 lock_vfs = Inr lock_server"
  by (simp add: nfs_new_def vfs_root_def vfs_inode_by_id_def ROOT_INODE_ID_def lock_cached)
    (simp add: lock_server_def lock_root_def lock_vfs_def)

lemma lock_opening: "open_writing lock_env \<lparr>dr_entity = [], dr_created = 0, dr_now = 1, dr_later = 2\<rparr> True 7 0 2000
    ((open_enter ForReadWrite 7 2000 lock_server)\<lparr>nf_locks := l\<rparr>)
  = Some (Returns (Inr 7, put_file 7 (Some (OpenReadWrite lock_handle 0))
      ((open_enter ForReadWrite 7 2000 lock_server)\<lparr>nf_locks := l, nf_vfs := lock_vfs\<lparr>v_db := lock_opened\<rparr>\<rparr>)))"
proof -
  let ?s = "(open_enter ForReadWrite 7 2000 lock_server)\<lparr>nf_locks := l\<rparr>"
  have "inode_id_new 2000 = 2000" by (simp add: inode_id_new_def)
  then have "vfs_inode_by_id lock_env (inode_id_new 2000) lock_vfs = (Inr (Some (InodeFile lock_file)), lock_vfs)"
    by (simp add: vfs_inode_by_id_def lock_cached)
  moreover have v: "nf_vfs ?s = lock_vfs" by (simp add: open_enter_def put_file_def lock_server_def)
  moreover have "?s\<lparr>nf_vfs := lock_vfs\<rparr> = ?s" using v by (metis nfs.surjective nfs.update_convs(1) nfs.select_convs(1))
  ultimately have "nfs_bind (nfs_inode_by_id lock_env 2000) as_file ?s = Some (Returns (Inr lock_file, ?s))"
    by (simp add: nfs_inode_by_id_def nfs_bind_def nfs_call_def at_once_def as_file_def nfs_return_def)
  then show ?thesis using v
    by (simp add: open_writing_def nfs_call_def lock_open nfs_return_def)
qed

lemma lock_reachable: "nfs_reachable lock_env lock_served"
proof -
  let ?s1 = "open_enter ForReadWrite 7 2000 lock_server" and ?l = "lk_grant 7 0 (lk_enter 7 2000 lk_new)"
  have 1: "nfs_reachable lock_env ?s1"
    by (rule nfs_reachable.later [OF nfs_reachable.fresh [OF lock_fresh] nfs_step.entered]) (simp add: lock_server_def)
  have locks: "nf_locks ?s1 = lk_enter 7 2000 lk_new" "nf_files ?s1 7 = Some None"
    by (simp_all add: open_enter_def put_file_def lock_server_def)
  have entered: "lk_waiting (lk_enter 7 2000 lk_new) = [(7, 0)]" "lk_held (lk_enter 7 2000 lk_new) = []"
    "lk_held ?l = [(7, 0)]" "lk_key ?l 0 = (2000 :: u64)"
    by (simp_all add: lk_enter_def lk_new_def lk_grant_def)
  have 2: "nfs_reachable lock_env (?s1\<lparr>nf_locks := ?l\<rparr>)"
    using nfs_reachable.later [OF 1 nfs_step.permitted [of 7 0 ?s1 lock_env]] by (simp add: locks entered)
  have "nfs_step lock_env (?s1\<lparr>nf_locks := ?l\<rparr>) lock_served" unfolding lock_served_def
  proof (rule nfs_step.opened_writing)
    show "nf_files (?s1\<lparr>nf_locks := ?l\<rparr>) 7 = Some None" "(unat (7 :: u32), 0) \<in> set (lk_held (nf_locks (?s1\<lparr>nf_locks := ?l\<rparr>)))"
      by (simp_all add: locks entered)
    have "lk_key (nf_locks (?s1\<lparr>nf_locks := ?l\<rparr>)) 0 = 2000" by (simp add: entered)
    with lock_opening show "open_writing lock_env \<lparr>dr_entity = [], dr_created = 0, dr_now = 1, dr_later = 2\<rparr> True 7 0
        (lk_key (nf_locks (?s1\<lparr>nf_locks := ?l\<rparr>)) 0) (?s1\<lparr>nf_locks := ?l\<rparr>)
      = Some (Returns (Inr 7, put_file 7 (Some (OpenReadWrite lock_handle 0))
          (?s1\<lparr>nf_locks := ?l, nf_vfs := lock_vfs\<lparr>v_db := lock_opened\<rparr>\<rparr>)))" by (simp only:)
  qed
  with 2 show ?thesis by (rule nfs_reachable.later)
qed


end
